(* ===== verification/FM_Prelude.thy ===== *)
theory FM_Prelude
  imports Main "HOL-Library.Word" "HOL-Library.Monad_Syntax"
begin

text \<open>
  Shared vocabulary of the FluidMem development: the machine types of the C and C++ sources,
  the page constants of \<^verbatim>\<open>sys/user.h\<close>, conversions between \<^verbatim>\<open>int\<close> and \<^verbatim>\<open>size_t\<close>, and the
  generic lemmas on keyed lists that the two recency lists (LRU buffer, page cache) and the three
  uthash tables (write list, prefetch list, fd map) share.

  Conventions used by every theory: a C pointer or \<^verbatim>\<open>uint64_t\<close> is a 64 bit word; a C \<^verbatim>\<open>int\<close> is an
  \<open>int\<close>, with the conversion to an unsigned type written out where the source relies on it; an
  operation whose execution the language leaves undefined (reading the back of an empty container,
  reading past an allocation, unlocking a mutex that is not locked) or that would block for ever on
  a mutex the thread itself holds returns \<open>None\<close>.
\<close>

unbundle bit_operations_syntax

section \<open>Machine types and page constants\<close>

type_synonym u8 = "8 word"
type_synonym u16 = "16 word"
type_synonym u32 = "32 word"
type_synonym u64 = "64 word"

text \<open>File descriptors are C \<^verbatim>\<open>int\<close>s, addresses are \<^verbatim>\<open>uint64_t\<close>/\<^verbatim>\<open>void *\<close>, a page is its bytes.\<close>

type_synonym fd = int
type_synonym ptr = u64
type_synonym page = "u8 list"

definition PAGE_SIZE :: u64 where
  "PAGE_SIZE = 4096"

definition PAGE_MASK :: u64 where
  "PAGE_MASK = NOT (PAGE_SIZE - 1)"

definition zero_page :: page where
  "zero_page = replicate 4096 0"

abbreviation NULL :: ptr where
  "NULL \<equiv> 0"

definition MAP_FAILED :: ptr where
  "MAP_FAILED = - 1"

text \<open>The implicit conversions \<^verbatim>\<open>size_t\<close> to \<^verbatim>\<open>int\<close> and \<^verbatim>\<open>int\<close> to \<^verbatim>\<open>size_t\<close>.\<close>

definition int_of_size :: "nat \<Rightarrow> int" where
  "int_of_size n = sint (word_of_nat n :: u32)"

definition size_of_int :: "int \<Rightarrow> nat" where
  "size_of_int i = unat (word_of_int i :: u64)"

section \<open>Lemma collections\<close>

named_theorems page_simps \<open>page arithmetic\<close>
named_theorems keyed_simps \<open>keyed lists\<close>
named_theorems frame_simps \<open>fields an operation leaves alone\<close>

section \<open>Page arithmetic\<close>

lemma PAGE_SIZE_pos [simp]: "PAGE_SIZE \<noteq> 0"
  by (simp add: PAGE_SIZE_def)

lemma PAGE_MASK_mask: "PAGE_MASK = NOT (mask 12)"
  by (simp add: PAGE_MASK_def PAGE_SIZE_def mask_eq_exp_minus_1)

lemma page_offset_masked [page_simps]:
  assumes "f < PAGE_SIZE"
  shows "f AND PAGE_MASK = 0"
proof -
  have "f AND mask 12 = f"
    using assms by (intro less_mask_eq) (simp add: PAGE_SIZE_def)
  then have "f AND PAGE_MASK = f AND (mask 12 AND NOT (mask 12))"
    by (simp only: PAGE_MASK_mask flip: and.assoc)
  then show ?thesis by simp
qed

lemma page_base_add [page_simps]:
  assumes "f < PAGE_SIZE"
  shows "((k AND PAGE_MASK) + f) AND PAGE_MASK = k AND PAGE_MASK"
proof -
  have "(k AND PAGE_MASK) AND f = 0"
    by (simp add: and.assoc page_offset_masked [OF assms] and.commute [of PAGE_MASK])
  then have "(k AND PAGE_MASK) + f = (k AND PAGE_MASK) OR f"
    by (rule disjunctive_add_eq_or)
  then show ?thesis
    by (simp add: bit.conj_disj_distrib2 page_offset_masked [OF assms] and.assoc)
qed

lemma page_mask_idem [simp]: "(k AND PAGE_MASK) AND PAGE_MASK = k AND PAGE_MASK"
  by (simp add: and.assoc)

lemma mod_PAGE_SIZE_less [simp]: "x mod PAGE_SIZE < PAGE_SIZE"
  by (simp add: PAGE_SIZE_def word_mod_less_divisor)

lemma mod_PAGE_SIZE: "x mod PAGE_SIZE = take_bit 12 x"
  by (simp add: PAGE_SIZE_def take_bit_eq_mod)

lemma take_bit_u64_of_int: "take_bit n (word_of_int i :: u64) = word_of_int (take_bit n i)"
  by (rule bit_eqI) (simp add: bit_simps)

definition page_aligned :: "u64 \<Rightarrow> bool" where
  "page_aligned a \<longleftrightarrow> a AND PAGE_MASK = a"

lemma page_aligned_mask [simp]: "page_aligned (a AND PAGE_MASK)"
  by (simp add: page_aligned_def)

lemma page_alignedD: "page_aligned a \<Longrightarrow> a AND PAGE_MASK = a"
  by (simp add: page_aligned_def)

lemma zero_page_ne [simp]: "zero_page \<noteq> []" "length zero_page = 4096"
  by (simp_all add: zero_page_def)

section \<open>Integer conversions\<close>

lemma int_of_size_small [simp]:
  assumes "n < 2 ^ 31"
  shows "int_of_size n = int n"
proof -
  have "signed_take_bit 31 (int n) = int n"
    using assms by (intro signed_take_bit_int_eq_self) auto
  then show ?thesis by (simp add: int_of_size_def signed_of_nat)
qed

lemma size_of_int_nonneg [simp]:
  assumes "0 \<le> i" and "i < 2 ^ 63"
  shows "size_of_int i = nat i"
proof -
  have "take_bit 64 i = i"
    using assms by (intro take_bit_int_eq_self) auto
  then show ?thesis by (simp add: size_of_int_def unsigned_of_int)
qed

lemma size_of_int_neg:
  assumes "- (2 ^ 31) \<le> i" and "i < 0"
  shows "2 ^ 63 \<le> size_of_int i"
proof -
  have "i mod 2 ^ 64 = (i + 2 ^ 64) mod 2 ^ 64" by simp
  also have "\<dots> = i + 2 ^ 64" using assms by (intro mod_pos_pos_trivial) auto
  finally have "take_bit 64 i = i + 2 ^ 64" by (simp add: take_bit_eq_mod)
  then show ?thesis using assms by (simp add: size_of_int_def unsigned_of_int)
qed

lemma ucast_u32_of_nat: "(ucast (word_of_nat n :: u64) :: u32) = word_of_nat n"
  by (auto simp: bit_eq_iff bit_simps)

lemma unat_u64_of_nat [simp]: "n < 2 ^ 64 \<Longrightarrow> unat (word_of_nat n :: u64) = n"
  by (simp add: unsigned_of_nat take_bit_nat_eq_self)

lemma option_eq_SomeI: "(\<And>z. a = Some z \<longleftrightarrow> b = Some z) \<Longrightarrow> a = b"
  by (metis option.exhaust)

lemma take_Suc_rev: "xs \<noteq> [] \<Longrightarrow> take (Suc n) (rev xs) = last xs # take n (rev (butlast xs))"
  by (cases xs rule: rev_cases) auto

section \<open>Keyed lists\<close>

text \<open>
  \<open>drop_key\<close> removes the entries of one key, \<open>del_first\<close> the first entry that satisfies a
  predicate. On a list with distinct keys they agree.
\<close>

definition drop_key :: "('a \<Rightarrow> 'k) \<Rightarrow> 'k \<Rightarrow> 'a list \<Rightarrow> 'a list" where
  "drop_key key k xs = filter (\<lambda>x. key x \<noteq> k) xs"

fun del_first :: "('a \<Rightarrow> bool) \<Rightarrow> 'a list \<Rightarrow> 'a list" where
  "del_first P [] = []"
| "del_first P (x # xs) = (if P x then xs else x # del_first P xs)"

abbreviation distinct_keys :: "('a \<Rightarrow> 'k) \<Rightarrow> 'a list \<Rightarrow> bool" where
  "distinct_keys key xs \<equiv> distinct (map key xs)"

lemma distinct_keys_Cons_ne:
  assumes "distinct_keys key (x # xs)" and "z \<in> set xs"
  shows "key z \<noteq> key x"
proof
  assume "key z = key x"
  then have "key x \<in> key ` set xs" using assms(2) by (metis imageI)
  with assms(1) show False by simp
qed

lemma set_drop_key [simp]: "set (drop_key key k xs) = {x \<in> set xs. key x \<noteq> k}"
  by (auto simp: drop_key_def)

lemma drop_key_Nil [simp]: "drop_key key k [] = []"
  by (simp add: drop_key_def)

lemma drop_key_Cons [simp]:
  "drop_key key k (x # xs) = (if key x = k then drop_key key k xs else x # drop_key key k xs)"
  by (simp add: drop_key_def)

lemma drop_key_id [simp]: "k \<notin> key ` set xs \<Longrightarrow> drop_key key k xs = xs"
  by (induction xs) auto

lemma drop_key_append [simp]: "drop_key key k (xs @ ys) = drop_key key k xs @ drop_key key k ys"
  by (simp add: drop_key_def)

lemma distinct_drop_key [simp]:
  "distinct_keys key xs \<Longrightarrow> distinct_keys key (drop_key key k xs)"
  by (induction xs) auto

lemma length_drop_key_le: "length (drop_key key k xs) \<le> length xs"
  by (simp add: drop_key_def)

lemma length_drop_key:
  "distinct_keys key xs \<Longrightarrow> k \<in> key ` set xs \<Longrightarrow> Suc (length (drop_key key k xs)) = length xs"
  by (induction xs) auto

lemma del_first_drop_key:
  "distinct_keys key xs \<Longrightarrow> del_first (\<lambda>x. key x = k) xs = drop_key key k xs"
  by (induction xs) auto

lemma find_distinct_keys:
  "distinct_keys key xs \<Longrightarrow>
     List.find (\<lambda>x. key x = k) xs = Some x \<longleftrightarrow> x \<in> set xs \<and> key x = k"
  by (induction xs) auto

lemma find_None_keys: "List.find (\<lambda>x. key x = k) xs = None \<longleftrightarrow> k \<notin> key ` set xs"
  by (induction xs) auto

lemma filter_filter_key: "filter P (drop_key key k xs) = drop_key key k (filter P xs)"
  by (auto simp: drop_key_def conj_commute)

text \<open>Popping the last entry of a list with distinct keys removes exactly its key.\<close>

lemma butlast_drop_key:
  "distinct_keys key xs \<Longrightarrow> xs \<noteq> [] \<Longrightarrow> butlast xs = drop_key key (key (last xs)) xs"
proof (induction xs rule: rev_induct)
  case (snoc x xs)
  then show ?case by simp
qed simp

lemma distinct_keys_butlast: "distinct_keys key xs \<Longrightarrow> distinct_keys key (butlast xs)"
  by (metis distinct_butlast map_butlast)

end
