(* ===== verification/Recency.thy ===== *)
theory Recency
  imports FM_Prelude
begin

text \<open>
  The contract of a Boost \<^verbatim>\<open>multi_index_container\<close> with a sequenced and a hashed-unique index, as the
  LRU buffer (\<^verbatim>\<open>lru_list\<close>) and the page cache (\<^verbatim>\<open>page_cache_lru_list\<close>) use it: a list of nodes, most
  recently used first, in which no key occurs twice. The locale names the operations both classes
  offer and the laws they promise; the lemmas about eviction order and size are proved once, inside
  it. Both classes interpret it.
\<close>

locale recency_list =
  fixes key :: "'a \<Rightarrow> 'k"
    and push :: "'a \<Rightarrow> 'a list \<Rightarrow> 'a list"
    and erase :: "'k \<Rightarrow> 'a list \<Rightarrow> 'a list"
    and lookup :: "'k \<Rightarrow> 'a list \<Rightarrow> 'a option"
  assumes push_fresh: "key x \<notin> key ` set xs \<Longrightarrow> push x xs = x # xs"
    and push_present: "distinct_keys key xs \<Longrightarrow> y \<in> set xs \<Longrightarrow> key y = key x \<Longrightarrow>
           push x xs = y # drop_key key (key x) xs"
    and erase_drop: "distinct_keys key xs \<Longrightarrow> erase k xs = drop_key key k xs"
    and lookup_iff: "distinct_keys key xs \<Longrightarrow>
           lookup k xs = Some x \<longleftrightarrow> x \<in> set xs \<and> key x = k"
begin

lemma push_cases [consumes 1, case_names fresh present]:
  assumes "distinct_keys key xs"
  obtains (fresh) "key x \<notin> key ` set xs" "push x xs = x # xs"
  | (present) y where "y \<in> set xs" "key y = key x" "push x xs = y # drop_key key (key x) xs"
  using assms push_fresh push_present by (metis imageE)

lemma distinct_push:
  assumes "distinct_keys key xs"
  shows "distinct_keys key (push x xs)"
  using assms by (cases rule: push_cases [where x = x]) (use assms in auto)

lemma keys_push:
  assumes "distinct_keys key xs"
  shows "key ` set (push x xs) = insert (key x) (key ` set xs)"
  using assms by (cases rule: push_cases [where x = x]) auto

lemma push_ne [simp]:
  assumes "distinct_keys key xs"
  shows "push x xs \<noteq> []"
  using assms by (cases rule: push_cases [where x = x]) auto

lemma key_hd_push:
  assumes "distinct_keys key xs"
  shows "key (hd (push x xs)) = key x"
  using assms by (cases rule: push_cases [where x = x]) auto

lemma set_push_subset:
  assumes "distinct_keys key xs"
  shows "set (push x xs) \<subseteq> insert x (set xs)"
  using assms by (cases rule: push_cases [where x = x]) auto

lemma length_push:
  assumes "distinct_keys key xs"
  shows "length (push x xs) = (if key x \<in> key ` set xs then length xs else Suc (length xs))"
using assms
proof (cases rule: push_cases [where x = x])
  case fresh
  then show ?thesis by simp
next
  case (present y)
  then have "key x \<in> key ` set xs" by (metis imageI)
  with present show ?thesis using length_drop_key [OF assms] by auto
qed

lemma lookup_None_iff:
  assumes "distinct_keys key xs"
  shows "lookup k xs = None \<longleftrightarrow> k \<notin> key ` set xs"
proof (cases "lookup k xs")
  case None
  then show ?thesis using lookup_iff [OF assms, of k] by auto
next
  case (Some z)
  then have "z \<in> set xs" "key z = k" using lookup_iff [OF assms, of k z] by auto
  with Some show ?thesis by auto
qed

lemma lookup_push_other:
  assumes "distinct_keys key xs" and "k \<noteq> key x"
  shows "lookup k (push x xs) = lookup k xs"
proof (rule option_eq_SomeI)
  fix z
  have d: "distinct_keys key (push x xs)" using distinct_push [OF assms(1)] .
  have "z \<in> set (push x xs) \<and> key z = k \<longleftrightarrow> z \<in> set xs \<and> key z = k"
    using assms(1) by (cases rule: push_cases [where x = x]) (use assms(2) in auto)
  then show "lookup k (push x xs) = Some z \<longleftrightarrow> lookup k xs = Some z"
    by (simp add: lookup_iff [OF d] lookup_iff [OF assms(1)])
qed

lemma lookup_push_fresh:
  assumes "distinct_keys key xs" and "key x \<notin> key ` set xs"
  shows "lookup (key x) (push x xs) = Some x"
  using assms by (simp add: lookup_iff distinct_push push_fresh)

lemma distinct_erase:
  assumes "distinct_keys key xs"
  shows "distinct_keys key (erase k xs)"
  using assms by (simp add: erase_drop)

lemma set_erase:
  assumes "distinct_keys key xs"
  shows "set (erase k xs) = {x \<in> set xs. key x \<noteq> k}"
  using assms by (simp add: erase_drop)

lemma lookup_erase:
  assumes "distinct_keys key xs"
  shows "lookup k (erase k' xs) = (if k = k' then None else lookup k xs)"
  by (rule option_eq_SomeI)
    (auto simp: lookup_iff [OF distinct_erase [OF assms]] lookup_iff [OF assms] set_erase [OF assms])

text \<open>The node an eviction takes is the least recently used one, never the one just pushed.\<close>

lemma last_push:
  assumes "distinct_keys key xs" and "xs \<noteq> []" and "key (last xs) \<noteq> key x"
  shows "last (push x xs) = last xs"
using assms(1)
proof (cases rule: push_cases [where x = x])
  case fresh
  with assms show ?thesis by simp
next
  case (present y)
  have "xs = butlast xs @ [last xs]" using assms(2) by simp
  then have "drop_key key (key x) xs = drop_key key (key x) (butlast xs) @ [last xs]"
    using assms(3) by (metis drop_key_append drop_key_Cons drop_key_Nil)
  with present show ?thesis by simp
qed

lemma key_last_push:
  assumes "distinct_keys key xs" and "1 < length (push x xs)"
  shows "key (last (push x xs)) \<noteq> key x"
proof -
  obtain y ys where y: "push x xs = y # ys" and ne: "ys \<noteq> []"
    using assms(2) by (cases "push x xs") auto
  have "key y = key x" using key_hd_push [OF assms(1), of x] y by simp
  moreover have "key y \<notin> key ` set ys" using distinct_push [OF assms(1), of x] y by simp
  ultimately have "key (last ys) \<noteq> key x" using last_in_set [OF ne] by (metis imageI)
  then show ?thesis using y ne by simp
qed

end

end
