(* ===== verification/Monitor_Stats.thy ===== *)
theory Monitor_Stats
  imports FM_Prelude
begin

text \<open>
  \<^verbatim>\<open>lib/monitorstats/monitorstats.h\<close> and \<^verbatim>\<open>monitorstats.c\<close>: the counters the monitor keeps for the
  user interface. The struct behind the global \<^verbatim>\<open>_pstats\<close> is the record \<open>MonitorStats\<close>; every
  \<^verbatim>\<open>Stats...\<close> function is a definition of the same name. The counters are C \<^verbatim>\<open>unsigned long\<close>s and
  wrap. The mutexes that protect single reads and writes of a field are not modelled; the clock is
  an argument (\<open>now\<close>), as is the floating-point percentage of \<^verbatim>\<open>CACHE_HITRATIO\<close>.
\<close>

type_synonym timeval = "int \<times> int"

record MonitorStats =
  total_pagefault_count :: u64
  placed_data_pages_count :: u64
  page_eviction_count :: u64
  writes_avoided :: u64
  writes_skipped_zero :: u64
  writes_skipped_invalid :: u64
  page_cache_hits_count :: u64
  page_cache_miss_count :: u64
  LRU_Buffer_size :: u64
  LRU_Buffer_capacity :: u64
  registered_UFD_count :: int
  last_fault_count :: int
  last_count_time :: timeval
  last_page_fault :: timeval

datatype StatisticToRetreive =
    CACHE_HIT | CACHE_MISS | PAGE_FAULTS | PLACED_PAGES | PAGES_EVICTED | ZEROPAGES
  | CACHE_HITRATIO | LRU_BUFFERSIZE | LRU_BUFFERCAP | NUM_UFDS | WRITES_AVOIDED
  | WRITES_SKIPPED_ZERO | WRITES_SKIPPED_INVALID

section \<open>Updates\<close>

definition StatsIncrCacheHit :: "MonitorStats \<Rightarrow> MonitorStats" where
  "StatsIncrCacheHit s = s\<lparr>page_cache_hits_count := page_cache_hits_count s + 1\<rparr>"

definition StatsIncrCacheMiss :: "MonitorStats \<Rightarrow> MonitorStats" where
  "StatsIncrCacheMiss s = s\<lparr>page_cache_miss_count := page_cache_miss_count s + 1\<rparr>"

definition StatsIncrWriteAvoided :: "MonitorStats \<Rightarrow> MonitorStats" where
  "StatsIncrWriteAvoided s = s\<lparr>writes_avoided := writes_avoided s + 1\<rparr>"

definition StatsIncrWriteSkippedZero :: "MonitorStats \<Rightarrow> MonitorStats" where
  "StatsIncrWriteSkippedZero s = s\<lparr>writes_skipped_zero := writes_skipped_zero s + 1\<rparr>"

definition StatsIncrWriteSkippedInvalid :: "MonitorStats \<Rightarrow> MonitorStats" where
  "StatsIncrWriteSkippedInvalid s = s\<lparr>writes_skipped_invalid := writes_skipped_invalid s + 1\<rparr>"

definition StatsIncrLRUBufferSize :: "MonitorStats \<Rightarrow> MonitorStats" where
  "StatsIncrLRUBufferSize s = s\<lparr>LRU_Buffer_size := LRU_Buffer_size s + 1\<rparr>"

definition StatsDecrLRUBufferSize :: "MonitorStats \<Rightarrow> MonitorStats" where
  "StatsDecrLRUBufferSize s = s\<lparr>LRU_Buffer_size := LRU_Buffer_size s - 1\<rparr>"

definition StatsSetLRUBufferCap :: "u64 \<Rightarrow> MonitorStats \<Rightarrow> MonitorStats" where
  "StatsSetLRUBufferCap bufferCap s = s\<lparr>LRU_Buffer_capacity := bufferCap\<rparr>"

definition StatsSetLRUBufferSize :: "u64 \<Rightarrow> MonitorStats \<Rightarrow> MonitorStats" where
  "StatsSetLRUBufferSize bufferSize s = s\<lparr>LRU_Buffer_size := bufferSize\<rparr>"

definition StatsSetNumUFDS :: "u64 \<Rightarrow> MonitorStats \<Rightarrow> MonitorStats" where
  "StatsSetNumUFDS numUFDS s = s\<lparr>registered_UFD_count := sint (ucast numUFDS :: u32)\<rparr>"

definition StatsIncrPlacedPage :: "MonitorStats \<Rightarrow> MonitorStats" where
  "StatsIncrPlacedPage s = s\<lparr>placed_data_pages_count := placed_data_pages_count s + 1\<rparr>"

definition StatsIncrPageFault :: "MonitorStats \<Rightarrow> MonitorStats" where
  "StatsIncrPageFault s = s\<lparr>total_pagefault_count := total_pagefault_count s + 1\<rparr>"

definition StatsIncrPageEvicted :: "MonitorStats \<Rightarrow> MonitorStats" where
  "StatsIncrPageEvicted s = s\<lparr>page_eviction_count := page_eviction_count s + 1\<rparr>"

definition StatsSetLastFaultTime :: "timeval \<Rightarrow> MonitorStats \<Rightarrow> MonitorStats" where
  "StatsSetLastFaultTime now s = s\<lparr>last_page_fault := now\<rparr>"

definition StatsSetLastFaultCount :: "MonitorStats \<Rightarrow> MonitorStats" where
  "StatsSetLastFaultCount s =
     s\<lparr>last_fault_count := sint (ucast (total_pagefault_count s) :: u32)\<rparr>"

definition StatsSetLastTime :: "timeval \<Rightarrow> MonitorStats \<Rightarrow> MonitorStats" where
  "StatsSetLastTime now s = s\<lparr>last_count_time := now\<rparr>"

text \<open>\<^verbatim>\<open>StatsClear\<close> leaves the three gauges (LRU size, LRU capacity, registered fds) alone.\<close>

definition StatsClear :: "timeval \<Rightarrow> MonitorStats \<Rightarrow> MonitorStats" where
  "StatsClear now s =
     StatsSetLastTime now
       (s\<lparr>total_pagefault_count := 0, placed_data_pages_count := 0, page_eviction_count := 0,
          writes_avoided := 0, page_cache_hits_count := 0, page_cache_miss_count := 0,
          last_fault_count := 0, last_page_fault := (0, 0), writes_skipped_zero := 0,
          writes_skipped_invalid := 0\<rparr>)"

text \<open>The memory for the statistics is not cleared, so the gauges start with what it held.\<close>

definition MonitorStatsInit :: "timeval \<Rightarrow> MonitorStats \<Rightarrow> MonitorStats" where
  "MonitorStatsInit now memory = StatsClear now memory"

text \<open>Counters all at zero, the value the evaluated examples start from.\<close>

definition stats0 :: MonitorStats where
  "stats0 = \<lparr>total_pagefault_count = 0, placed_data_pages_count = 0, page_eviction_count = 0,
     writes_avoided = 0, writes_skipped_zero = 0, writes_skipped_invalid = 0,
     page_cache_hits_count = 0, page_cache_miss_count = 0, LRU_Buffer_size = 0,
     LRU_Buffer_capacity = 0, registered_UFD_count = 0, last_fault_count = 0,
     last_count_time = (0, 0), last_page_fault = (0, 0)\<rparr>"

section \<open>Queries\<close>

fun StatsGetStat :: "(u64 \<Rightarrow> u64 \<Rightarrow> u64) \<Rightarrow> StatisticToRetreive \<Rightarrow> MonitorStats \<Rightarrow> u64" where
  "StatsGetStat pct CACHE_HIT s = page_cache_hits_count s"
| "StatsGetStat pct CACHE_MISS s = page_cache_miss_count s"
| "StatsGetStat pct PAGE_FAULTS s = total_pagefault_count s"
| "StatsGetStat pct PLACED_PAGES s = placed_data_pages_count s"
| "StatsGetStat pct PAGES_EVICTED s = page_eviction_count s"
| "StatsGetStat pct ZEROPAGES s = total_pagefault_count s - placed_data_pages_count s"
| "StatsGetStat pct CACHE_HITRATIO s =
     (let hits = page_cache_hits_count s; total = hits + page_cache_miss_count s
      in if total \<noteq> 0 then pct hits total else 0)"
| "StatsGetStat pct LRU_BUFFERSIZE s = LRU_Buffer_size s"
| "StatsGetStat pct LRU_BUFFERCAP s = LRU_Buffer_capacity s"
| "StatsGetStat pct NUM_UFDS s = word_of_int (registered_UFD_count s)"
| "StatsGetStat pct WRITES_AVOIDED s = writes_avoided s"
| "StatsGetStat pct WRITES_SKIPPED_ZERO s = writes_skipped_zero s"
| "StatsGetStat pct WRITES_SKIPPED_INVALID s = writes_skipped_invalid s"

text \<open>The clock is read twice, for the difference and for the new reference time.\<close>

definition StatsGetRate ::
  "(u64 \<Rightarrow> timeval \<Rightarrow> timeval \<Rightarrow> 'd) \<Rightarrow> timeval \<Rightarrow> timeval \<Rightarrow> MonitorStats \<Rightarrow> 'd \<times> MonitorStats" where
  "StatsGetRate rate now1 now2 s =
     (let fault_diff = total_pagefault_count s - word_of_int (last_fault_count s);
          ret = rate fault_diff (last_count_time s) now1
      in (ret, StatsSetLastTime now2 (StatsSetLastFaultCount s)))"

definition StatsGetLastFaultTime :: "MonitorStats \<Rightarrow> timeval" where
  "StatsGetLastFaultTime s = last_page_fault s"

section \<open>The LRU size gauge\<close>

text \<open>The fields the LRU buffer owns are untouched by every other update.\<close>

lemmas stats_defs =
  StatsIncrCacheHit_def StatsIncrCacheMiss_def StatsIncrWriteAvoided_def
  StatsIncrWriteSkippedZero_def StatsIncrWriteSkippedInvalid_def StatsIncrLRUBufferSize_def
  StatsDecrLRUBufferSize_def StatsSetLRUBufferCap_def StatsSetLRUBufferSize_def
  StatsSetNumUFDS_def StatsIncrPlacedPage_def StatsIncrPageFault_def StatsIncrPageEvicted_def
  StatsSetLastFaultTime_def StatsSetLastFaultCount_def StatsSetLastTime_def StatsClear_def

lemma StatsGetStat_NUM_UFDS:
  assumes "n < 2 ^ 31"
  shows "StatsGetStat pct NUM_UFDS (StatsSetNumUFDS (word_of_nat n) s) = word_of_nat n"
proof -
  have "sint (ucast (word_of_nat n :: u64) :: u32) = int n"
    using int_of_size_small [OF assms] by (simp add: int_of_size_def ucast_u32_of_nat)
  then show ?thesis by (simp add: StatsSetNumUFDS_def)
qed

end
