(* ===== verification/LRU_Buffer.thy ===== *)
theory LRU_Buffer
  imports Recency Monitor_Stats
begin

text \<open>
  The LRU buffer, \<^verbatim>\<open>lib/lrubuffer/LRUBufferImpl.hh\<close>, \<^verbatim>\<open>LRUBufferImpl.cc\<close> and the C interface in
  \<^verbatim>\<open>LRUBufferWrapper.cc\<close>: the recency list of the pages that are resident in the faulting
  applications. The container is a list of nodes, front (most recent) first; its hashed index is the
  hash code of \<^verbatim>\<open>include/pagehash.h\<close>. Operations that also update the statistics take and return a
  pair of the buffer and the statistics.
\<close>

section \<open>The hash code of a page (pagehash.h)\<close>

definition hash_page_key :: "u64 \<Rightarrow> fd \<Rightarrow> u64" where
  "hash_page_key key ufd = (key AND PAGE_MASK) + word_of_int ufd mod PAGE_SIZE"

section \<open>The container (class lru\_list)\<close>

record cache_node =
  cn_hashcode :: u64
  cn_ufd :: fd

record lru_buffer =
  il :: "cache_node list"
  max_num_items :: nat

text \<open>\<^verbatim>\<open>push_front\<close> fails on a node whose hash code is present; the old node is relocated instead.\<close>

definition lru_insert :: "cache_node \<Rightarrow> cache_node list \<Rightarrow> cache_node list" where
  "lru_insert item xs =
     (case List.find (\<lambda>y. cn_hashcode y = cn_hashcode item) xs of
        None \<Rightarrow> item # xs
      | Some y \<Rightarrow> y # del_first (\<lambda>z. cn_hashcode z = cn_hashcode item) xs)"

definition lru_find :: "u64 \<Rightarrow> cache_node list \<Rightarrow> cache_node option" where
  "lru_find key xs = List.find (\<lambda>y. cn_hashcode y = key) xs"

definition lru_erase :: "u64 \<Rightarrow> cache_node list \<Rightarrow> cache_node list" where
  "lru_erase key xs =
     (case lru_find key xs of
        None \<Rightarrow> xs
      | Some _ \<Rightarrow> del_first (\<lambda>z. cn_hashcode z = key) xs)"

definition isSizeExceeded :: "lru_buffer \<Rightarrow> bool" where
  "isSizeExceeded l \<longleftrightarrow> max_num_items l < length (il l)"

section \<open>Operations (class LRUBufferImpl)\<close>

definition getLRUBufferSize :: "lru_buffer \<Rightarrow> int" where
  "getLRUBufferSize l = int_of_size (length (il l))"

definition getLRUBufferMaxSize :: "lru_buffer \<Rightarrow> int" where
  "getLRUBufferMaxSize l = int_of_size (max_num_items l)"

definition setLRUBufferSize ::
  "int \<Rightarrow> lru_buffer \<times> MonitorStats \<Rightarrow> int \<times> lru_buffer \<times> MonitorStats" where
  "setLRUBufferSize sz = (\<lambda>(l, st).
     (int_of_size (size_of_int sz), l\<lparr>max_num_items := size_of_int sz\<rparr>,
      StatsSetLRUBufferCap (word_of_int sz) st))"

text \<open>The constructor: an empty list whose bound is the \<^verbatim>\<open>--cache_size\<close> option.\<close>

definition newLRUBuffer :: "int \<Rightarrow> MonitorStats \<Rightarrow> lru_buffer \<times> MonitorStats" where
  "newLRUBuffer cache_size st =
     (let l = \<lparr>il = [], max_num_items = size_of_int cache_size\<rparr>
      in (l, StatsSetLRUBufferSize 0 (StatsSetLRUBufferCap (word_of_int (getLRUBufferMaxSize l)) st)))"

definition popLRU ::
  "lru_buffer \<times> MonitorStats \<Rightarrow> (cache_node \<times> lru_buffer \<times> MonitorStats) option" where
  "popLRU = (\<lambda>(l, st).
     if il l = [] then None
     else Some (last (il l), l\<lparr>il := butlast (il l)\<rparr>, StatsDecrLRUBufferSize st))"

definition getLRU :: "lru_buffer \<Rightarrow> cache_node option" where
  "getLRU l = (if il l = [] then None else Some (last (il l)))"

definition isLRUSizeExceeded :: "lru_buffer \<Rightarrow> int" where
  "isLRUSizeExceeded l = (if isSizeExceeded l then 1 else 0)"

text \<open>
  \<^verbatim>\<open>referenceCachedNode\<close> dereferences the result of \<^verbatim>\<open>find\<close> without comparing it with the end of the
  index.
\<close>

definition referenceCachedNode ::
  "u64 \<Rightarrow> fd \<Rightarrow> lru_buffer \<times> MonitorStats \<Rightarrow> (lru_buffer \<times> MonitorStats) option" where
  "referenceCachedNode key ufd = (\<lambda>(l, st). do {
     node \<leftarrow> lru_find (hash_page_key key ufd) (il l);
     Some (l\<lparr>il := lru_insert node (il l)\<rparr>, st)
   })"

text \<open>The node that means ``nothing was evicted'': \<^verbatim>\<open>memset(&return_node, 0, ...)\<close>.\<close>

definition null_node :: cache_node where
  "null_node = \<lparr>cn_hashcode = 0, cn_ufd = 0\<rparr>"

definition insertCacheNode_impl ::
  "u64 \<Rightarrow> fd \<Rightarrow> bool \<Rightarrow> lru_buffer \<times> MonitorStats
     \<Rightarrow> (cache_node \<times> lru_buffer \<times> MonitorStats) option" where
  "insertCacheNode_impl key ufd evict = (\<lambda>(l, st).
     let node = \<lparr>cn_hashcode = hash_page_key key ufd, cn_ufd = ufd\<rparr>;
         l1 = l\<lparr>il := lru_insert node (il l)\<rparr>;
         st1 = StatsIncrLRUBufferSize st
     in if evict \<and> isSizeExceeded l1 then popLRU (l1, st1) else Some (null_node, l1, st1))"

fun popN :: "nat \<Rightarrow> lru_buffer \<times> MonitorStats
     \<Rightarrow> (cache_node list \<times> lru_buffer \<times> MonitorStats) option" where
  "popN 0 s = Some ([], s)"
| "popN (Suc n) s = do {
     (node, s1) \<leftarrow> popLRU s;
     (nodes, s2) \<leftarrow> popN n s1;
     Some (node # nodes, s2)
   }"

text \<open>\<^verbatim>\<open>popNLRU\<close> returns the number of nodes popped and the array it filled.\<close>

definition popNLRU :: "int \<Rightarrow> lru_buffer \<times> MonitorStats
     \<Rightarrow> (int \<times> cache_node list \<times> lru_buffer \<times> MonitorStats) option" where
  "popNLRU num_pop = (\<lambda>(l, st).
     let lru_size = getLRUBufferSize l;
         num = (if num_pop > lru_size then lru_size else num_pop)
     in do {
       (nodes, s) \<leftarrow> popN (nat num) (l, st);
       Some (num, nodes, s)
     })"

text \<open>
  \<^verbatim>\<open>removeUFDFromLRU\<close> erases the node its iterator points to and then increments that iterator. The
  increment reads the link of a node that has been freed; \<open>stale\<close> says whether that link still
  reads as before (the loop goes on with the successor) or not (the behaviour is undefined).
\<close>

fun removeUFD_loop :: "bool \<Rightarrow> fd \<Rightarrow> cache_node list \<Rightarrow> cache_node list
     \<Rightarrow> (u64 list \<times> cache_node list) option" where
  "removeUFD_loop stale ufd [] c = Some ([], c)"
| "removeUFD_loop stale ufd (x # xs) c =
     (if cn_ufd x = ufd
      then if stale
           then do {
             (keys, c') \<leftarrow> removeUFD_loop stale ufd xs (lru_erase (cn_hashcode x) c);
             Some ((cn_hashcode x AND PAGE_MASK) # keys, c')
           }
           else None
      else removeUFD_loop stale ufd xs c)"

definition removeUFDFromLRU :: "bool \<Rightarrow> fd \<Rightarrow> lru_buffer \<times> MonitorStats
     \<Rightarrow> (u64 list \<times> lru_buffer \<times> MonitorStats) option" where
  "removeUFDFromLRU stale ufd = (\<lambda>(l, st). do {
     (keys, c) \<leftarrow> removeUFD_loop stale ufd (il l) (il l);
     let l1 = l\<lparr>il := c\<rparr>;
     Some (keys, l1, StatsSetLRUBufferSize (word_of_int (getLRUBufferSize l1)) st)
   })"

section \<open>The C interface (LRUBufferWrapper.cc)\<close>

definition insertCacheNodeAndEvict ::
  "u64 \<Rightarrow> fd \<Rightarrow> lru_buffer \<times> MonitorStats \<Rightarrow> (cache_node \<times> lru_buffer \<times> MonitorStats) option" where
  "insertCacheNodeAndEvict key ufd s = insertCacheNode_impl key ufd True s"

definition insertCacheNode ::
  "u64 \<Rightarrow> fd \<Rightarrow> lru_buffer \<times> MonitorStats \<Rightarrow> (lru_buffer \<times> MonitorStats) option" where
  "insertCacheNode key ufd s = map_option snd (insertCacheNode_impl key ufd False s)"

section \<open>Hash codes\<close>

lemma hash_page_key_page [page_simps]:
  "hash_page_key k f AND PAGE_MASK = k AND PAGE_MASK"
  by (simp add: hash_page_key_def page_base_add)

lemma hash_page_key_masked [simp]: "hash_page_key (k AND PAGE_MASK) f = hash_page_key k f"
  by (simp add: hash_page_key_def)

lemma hash_page_key_rehash [simp]: "hash_page_key (hash_page_key k f) g = hash_page_key k g"
  by (simp add: hash_page_key_def page_base_add)

lemma fd_offset:
  assumes "0 \<le> f" and "f < 4096"
  shows "unat (word_of_int f mod PAGE_SIZE) = nat f"
proof -
  have "take_bit 64 f = f" using assms by (intro take_bit_int_eq_self) auto
  then have "unat (word_of_int f :: u64) = nat f" by (simp add: unsigned_of_int)
  then show ?thesis using assms by (simp add: PAGE_SIZE_def unat_mod nat_less_iff)
qed

lemma hash_page_key_fd:
  assumes "hash_page_key k f = hash_page_key k' f'"
    and "0 \<le> f" "f < 4096" "0 \<le> f'" "f' < 4096"
  shows "f = f'"
proof -
  have "k AND PAGE_MASK = k' AND PAGE_MASK"
    using arg_cong [OF assms(1), of "\<lambda>h. h AND PAGE_MASK"] by (simp add: hash_page_key_page)
  with assms(1) have "word_of_int f mod PAGE_SIZE = word_of_int f' mod PAGE_SIZE"
    by (simp add: hash_page_key_def)
  with assms(2-5) have "nat f = nat f'" by (metis fd_offset)
  with assms(2,4) show ?thesis by simp
qed

lemma fd_offset_add: "word_of_int (f + 4096) mod PAGE_SIZE = word_of_int f mod PAGE_SIZE"
proof -
  have "take_bit 12 (f + 4096) = take_bit 12 f" by (simp add: take_bit_eq_mod)
  then show ?thesis unfolding mod_PAGE_SIZE take_bit_u64_of_int by simp
qed

lemma hash_page_key_collide: "hash_page_key k (f + 4096) = hash_page_key k f"
  by (simp only: hash_page_key_def fd_offset_add)

section \<open>The recency contract\<close>

interpretation lru: recency_list cn_hashcode lru_insert lru_erase lru_find
proof unfold_locales
  fix x :: cache_node and xs :: "cache_node list"
  assume "cn_hashcode x \<notin> cn_hashcode ` set xs"
  then show "lru_insert x xs = x # xs"
    by (simp add: lru_insert_def find_None_keys [THEN iffD2])
next
  fix x y :: cache_node and xs :: "cache_node list"
  assume "distinct_keys cn_hashcode xs" "y \<in> set xs" "cn_hashcode y = cn_hashcode x"
  moreover from this have "List.find (\<lambda>z. cn_hashcode z = cn_hashcode x) xs = Some y"
    by (simp add: find_distinct_keys)
  ultimately show "lru_insert x xs = y # drop_key cn_hashcode (cn_hashcode x) xs"
    by (simp add: lru_insert_def del_first_drop_key)
next
  fix xs :: "cache_node list" and k
  assume d: "distinct_keys cn_hashcode xs"
  show "lru_erase k xs = drop_key cn_hashcode k xs"
  proof (cases "lru_find k xs")
    case None
    then have "k \<notin> cn_hashcode ` set xs" by (simp add: lru_find_def find_None_keys)
    with None show ?thesis by (simp add: lru_erase_def)
  next
    case (Some y)
    with d show ?thesis by (simp add: lru_erase_def del_first_drop_key)
  qed
next
  fix xs :: "cache_node list" and k x
  assume "distinct_keys cn_hashcode xs"
  then show "lru_find k xs = Some x \<longleftrightarrow> x \<in> set xs \<and> cn_hashcode x = k"
    by (simp add: lru_find_def find_distinct_keys)
qed

section \<open>Well-formed buffers\<close>

text \<open>
  No hash code occurs twice, and the descriptor of every node is the one its hash code was computed
  from.
\<close>

definition node_ok :: "cache_node \<Rightarrow> bool" where
  "node_ok n \<longleftrightarrow> cn_hashcode n = hash_page_key (cn_hashcode n) (cn_ufd n)"

definition lru_wf :: "lru_buffer \<Rightarrow> bool" where
  "lru_wf l \<longleftrightarrow> distinct_keys cn_hashcode (il l) \<and> (\<forall>n \<in> set (il l). node_ok n)"

lemma lru_wf_distinct [dest]: "lru_wf l \<Longrightarrow> distinct_keys cn_hashcode (il l)"
  by (simp add: lru_wf_def)

lemma node_ok_new [simp]: "node_ok \<lparr>cn_hashcode = hash_page_key k f, cn_ufd = f\<rparr>"
  by (simp add: node_ok_def)

lemma lru_wf_push:
  assumes "lru_wf l" and "node_ok x"
  shows "lru_wf (l\<lparr>il := lru_insert x (il l)\<rparr>)"
  using assms lru.distinct_push lru.set_push_subset [of "il l" x] by (auto simp: lru_wf_def)

lemma lru_wf_find: "lru_find k (il l) = Some n \<Longrightarrow> lru_wf l \<Longrightarrow> node_ok n"
  by (auto simp: lru_wf_def lru.lookup_iff)

lemma lru_wf_butlast: "lru_wf l \<Longrightarrow> lru_wf (l\<lparr>il := butlast (il l)\<rparr>)"
  by (auto simp: lru_wf_def distinct_keys_butlast dest: in_set_butlastD)

lemma popLRU_wf: "popLRU (l, st) = Some (n, l', st') \<Longrightarrow> lru_wf l \<Longrightarrow> lru_wf l'"
  by (auto simp: popLRU_def lru_wf_butlast split: if_splits)

lemma insertCacheNode_impl_defined:
  "\<exists>n l' st'. insertCacheNode_impl key f ev (l, st) = Some (n, l', st')"
  by (auto simp: insertCacheNode_impl_def popLRU_def isSizeExceeded_def Let_def)

lemma insertCacheNode_impl_wf:
  assumes "insertCacheNode_impl key f ev (l, st) = Some (n, l', st')" and "lru_wf l"
  shows "lru_wf l'"
  using assms lru_wf_push [OF assms(2) node_ok_new, of key f] popLRU_wf
  by (auto simp: insertCacheNode_impl_def Let_def split: if_splits)

text \<open>The bound survives any insertion that may evict.\<close>

lemma insertCacheNodeAndEvict_bound:
  assumes "insertCacheNodeAndEvict key f (l, st) = Some (n, l', st')"
    and "lru_wf l" and "length (il l) \<le> max_num_items l"
  shows "length (il l') \<le> max_num_items l' \<and> max_num_items l' = max_num_items l"
proof -
  let ?x = "\<lparr>cn_hashcode = hash_page_key key f, cn_ufd = f\<rparr>"
  have "length (lru_insert ?x (il l)) \<le> Suc (length (il l))"
    using lru.length_push [OF lru_wf_distinct [OF assms(2)], of ?x] by simp
  with assms show ?thesis
    by (auto simp: insertCacheNodeAndEvict_def insertCacheNode_impl_def popLRU_def
        isSizeExceeded_def Let_def split: if_splits)
qed

section \<open>Functional behaviour\<close>

abbreviation new_node :: "u64 \<Rightarrow> fd \<Rightarrow> cache_node" where
  "new_node key f \<equiv> \<lparr>cn_hashcode = hash_page_key key f, cn_ufd = f\<rparr>"

lemma insertCacheNodeAndEvict_room:
  assumes "length (lru_insert (new_node key f) (il l)) \<le> max_num_items l"
  shows "insertCacheNodeAndEvict key f (l, st)
     = Some (null_node, l\<lparr>il := lru_insert (new_node key f) (il l)\<rparr>, StatsIncrLRUBufferSize st)"
  using assms
  by (simp add: insertCacheNodeAndEvict_def insertCacheNode_impl_def isSizeExceeded_def)

lemma insertCacheNodeAndEvict_full:
  assumes "max_num_items l < length (lru_insert (new_node key f) (il l))"
  shows "insertCacheNodeAndEvict key f (l, st)
     = Some (last (lru_insert (new_node key f) (il l)),
             l\<lparr>il := butlast (lru_insert (new_node key f) (il l))\<rparr>,
             StatsDecrLRUBufferSize (StatsIncrLRUBufferSize st))"
  using assms
  by (auto simp: insertCacheNodeAndEvict_def insertCacheNode_impl_def isSizeExceeded_def popLRU_def
      Let_def)

text \<open>\<open>popN\<close> takes the oldest nodes, oldest first.\<close>

lemma popN_nodes:
  "n \<le> length (il l) \<Longrightarrow>
   \<exists>st'. popN n (l, st) = Some (take n (rev (il l)), l\<lparr>il := take (length (il l) - n) (il l)\<rparr>, st')"
proof (induction n arbitrary: l st)
  case 0
  then show ?case by simp
next
  case (Suc n)
  then have ne: "il l \<noteq> []" by auto
  let ?l = "l\<lparr>il := butlast (il l)\<rparr>"
  have "n \<le> length (il ?l)" using Suc.prems by simp
  from Suc.IH [OF this, of "StatsDecrLRUBufferSize st"] obtain st' where
    "popN n (?l, StatsDecrLRUBufferSize st)
       = Some (take n (rev (il ?l)), ?l\<lparr>il := take (length (il ?l) - n) (il ?l)\<rparr>, st')"
    by blast
  moreover have "take (length (il l) - Suc n) (butlast (il l)) = take (length (il l) - Suc n) (il l)"
    using ne Suc.prems by (simp add: take_butlast)
  ultimately show ?case using ne by (simp add: popLRU_def take_Suc_rev)
qed

lemma popN_short: "length (il l) < n \<Longrightarrow> popN n (l, st) = None"
proof (induction n arbitrary: l st)
  case 0
  then show ?case by simp
next
  case (Suc n)
  show ?case
  proof (cases "il l = []")
    case True
    then show ?thesis by (simp add: popLRU_def)
  next
    case False
    then have "length (il (l\<lparr>il := butlast (il l)\<rparr>)) < n"
      using Suc.prems by (cases "il l") auto
    from Suc.IH [OF this] False show ?thesis by (simp add: popLRU_def)
  qed
qed

lemma popNLRU_nodes:
  assumes "length (il l) < 2 ^ 31" and "0 \<le> n"
  shows "\<exists>st'. popNLRU n (l, st) = Some (min n (int (length (il l))),
       take (nat n) (rev (il l)), l\<lparr>il := take (length (il l) - nat n) (il l)\<rparr>, st')"
proof -
  let ?m = "nat (min n (int (length (il l))))"
  have "?m \<le> length (il l)" using assms(2) by (simp add: nat_le_iff)
  from popN_nodes [OF this, of st] obtain st' where
    p: "popN ?m (l, st) = Some (take ?m (rev (il l)), l\<lparr>il := take (length (il l) - ?m) (il l)\<rparr>, st')"
    by blast
  have "take ?m (rev (il l)) = take (nat n) (rev (il l))"
    by (cases "n \<le> int (length (il l))") (auto simp: min_def)
  moreover have "length (il l) - ?m = length (il l) - nat n"
    using assms(2) by (auto simp: min_def)
  ultimately show ?thesis
    using p assms by (auto simp: popNLRU_def getLRUBufferSize_def Let_def min_def)
qed

lemma popN_skipped: "popN n s = Some (xs, s') \<Longrightarrow> writes_skipped_invalid (snd s') = writes_skipped_invalid (snd s)"
  by (induction n arbitrary: s xs s')
    (auto simp: popLRU_def StatsDecrLRUBufferSize_def split: if_splits prod.splits Option.bind_splits)

lemma popNLRU_skipped:
  "popNLRU n (l, st) = Some (m, xs, l', st') \<Longrightarrow> writes_skipped_invalid st' = writes_skipped_invalid st"
  by (auto simp: popNLRU_def Let_def split: Option.bind_splits dest: popN_skipped)

text \<open>Removing a descriptor.\<close>

lemma removeUFD_loop_stale:
  assumes "distinct_keys cn_hashcode c" and "set xs \<subseteq> set c"
    and "distinct_keys cn_hashcode xs"
  shows "removeUFD_loop True ufd xs c
     = Some (map (\<lambda>n. cn_hashcode n AND PAGE_MASK) (filter (\<lambda>n. cn_ufd n = ufd) xs),
             filter (\<lambda>n. \<not> (n \<in> set xs \<and> cn_ufd n = ufd)) c)"
  using assms
proof (induction xs arbitrary: c)
  case Nil
  then show ?case by simp
next
  case (Cons x xs)
  show ?case
  proof (cases "cn_ufd x = ufd")
    case True
    let ?c = "lru_erase (cn_hashcode x) c"
    have c: "?c = drop_key cn_hashcode (cn_hashcode x) c"
      using Cons.prems(1) by (rule lru.erase_drop)
    have x: "z = x" if "z \<in> set c" "cn_hashcode z = cn_hashcode x" for z
      using Cons.prems(1,2) that by (auto simp: distinct_map inj_on_def)
    have "removeUFD_loop True ufd xs ?c
       = Some (map (\<lambda>n. cn_hashcode n AND PAGE_MASK) (filter (\<lambda>n. cn_ufd n = ufd) xs),
               filter (\<lambda>n. \<not> (n \<in> set xs \<and> cn_ufd n = ufd)) ?c)"
    proof (rule Cons.IH)
      show "set xs \<subseteq> set ?c"
        using Cons.prems(2) distinct_keys_Cons_ne [OF Cons.prems(3)] by (auto simp: c)
    qed (use Cons.prems in \<open>simp_all add: c\<close>)
    moreover have "filter (\<lambda>n. \<not> (n \<in> set xs \<and> cn_ufd n = ufd)) ?c
       = filter (\<lambda>n. \<not> (n \<in> set (x # xs) \<and> cn_ufd n = ufd)) c"
      unfolding c drop_key_def filter_filter using True by (intro filter_cong) (auto dest: x)
    ultimately show ?thesis using True by simp
  next
    case False
    then have "removeUFD_loop True ufd xs c
       = Some (map (\<lambda>n. cn_hashcode n AND PAGE_MASK) (filter (\<lambda>n. cn_ufd n = ufd) xs),
               filter (\<lambda>n. \<not> (n \<in> set xs \<and> cn_ufd n = ufd)) c)"
      using Cons.prems by (intro Cons.IH) auto
    moreover have "filter (\<lambda>n. \<not> (n \<in> set (x # xs) \<and> cn_ufd n = ufd)) c
       = filter (\<lambda>n. \<not> (n \<in> set xs \<and> cn_ufd n = ufd)) c"
      using False by (intro filter_cong) auto
    ultimately show ?thesis using False by simp
  qed
qed

lemma removeUFD_loop_undefined:
  "removeUFD_loop False ufd xs c = None \<longleftrightarrow> (\<exists>n \<in> set xs. cn_ufd n = ufd)"
  by (induction xs arbitrary: c) auto

lemma removeUFDFromLRU_stale:
  assumes "lru_wf l"
  shows "\<exists>st'. removeUFDFromLRU True ufd (l, st)
     = Some (map (\<lambda>n. cn_hashcode n AND PAGE_MASK) (filter (\<lambda>n. cn_ufd n = ufd) (il l)),
             l\<lparr>il := filter (\<lambda>n. cn_ufd n \<noteq> ufd) (il l)\<rparr>, st')"
proof -
  have "filter (\<lambda>n. \<not> (n \<in> set (il l) \<and> cn_ufd n = ufd)) (il l) = filter (\<lambda>n. cn_ufd n \<noteq> ufd) (il l)"
    by (intro filter_cong) auto
  then show ?thesis
    using removeUFD_loop_stale [of "il l" "il l" ufd] assms
    by (auto simp: removeUFDFromLRU_def lru_wf_def Let_def)
qed

section \<open>Reachable buffers\<close>

text \<open>Every sequence of calls through the C interface, starting at the constructor.\<close>

inductive lru_reachable :: "lru_buffer \<times> MonitorStats \<Rightarrow> bool" where
  lru_new: "lru_reachable (newLRUBuffer n st)"
| lru_insert_evict: "lru_reachable s \<Longrightarrow> insertCacheNodeAndEvict k f s = Some (x, s')
     \<Longrightarrow> lru_reachable s'"
| lru_insert_only: "lru_reachable s \<Longrightarrow> insertCacheNode k f s = Some s' \<Longrightarrow> lru_reachable s'"
| lru_pop: "lru_reachable s \<Longrightarrow> popLRU s = Some (x, s') \<Longrightarrow> lru_reachable s'"
| lru_popN: "lru_reachable s \<Longrightarrow> popNLRU n s = Some (m, xs, s') \<Longrightarrow> lru_reachable s'"
| lru_reference: "lru_reachable s \<Longrightarrow> referenceCachedNode k f s = Some s' \<Longrightarrow> lru_reachable s'"
| lru_resize: "lru_reachable s \<Longrightarrow> setLRUBufferSize n s = (m, s') \<Longrightarrow> lru_reachable s'"
| lru_remove: "lru_reachable s \<Longrightarrow> removeUFDFromLRU b f s = Some (ks, s') \<Longrightarrow> lru_reachable s'"

lemma popLRU_wf_fst: "popLRU s = Some (n, s') \<Longrightarrow> lru_wf (fst s) \<Longrightarrow> lru_wf (fst s')"
  by (metis popLRU_wf prod.collapse)

lemma insertCacheNode_impl_wf_fst:
  "insertCacheNode_impl k f ev s = Some (n, s') \<Longrightarrow> lru_wf (fst s) \<Longrightarrow> lru_wf (fst s')"
  by (metis insertCacheNode_impl_wf prod.collapse)

lemma popN_wf: "popN n s = Some (xs, s') \<Longrightarrow> lru_wf (fst s) \<Longrightarrow> lru_wf (fst s')"
proof (induction n arbitrary: s xs)
  case 0
  then show ?case by simp
next
  case (Suc n)
  from Suc.prems obtain x s1 ys where "popLRU s = Some (x, s1)" "popN n s1 = Some (ys, s')"
    by (auto split: bind_splits)
  with Suc show ?case by (metis popLRU_wf_fst)
qed

lemma removeUFD_loop_wf:
  "removeUFD_loop b f xs c = Some (ks, c') \<Longrightarrow> distinct_keys cn_hashcode c \<Longrightarrow>
     distinct_keys cn_hashcode c' \<and> set c' \<subseteq> set c"
proof (induction b f xs c arbitrary: ks rule: removeUFD_loop.induct)
  case (2 stale ufd x xs c)
  have "set (lru_erase (cn_hashcode x) c) \<subseteq> set c"
    using lru.set_erase [OF "2.prems"(2)] by auto
  with 2 lru.distinct_erase [OF "2.prems"(2)] show ?case
    by (fastforce split: if_splits bind_splits)
qed simp

lemma removeUFDFromLRU_wf:
  "removeUFDFromLRU b f s = Some (ks, s') \<Longrightarrow> lru_wf (fst s) \<Longrightarrow> lru_wf (fst s')"
  using removeUFD_loop_wf [of b f "il (fst s)" "il (fst s)"]
  by (fastforce simp: removeUFDFromLRU_def lru_wf_def Let_def split: prod.splits bind_splits)

lemma lru_reachable_lru_wf: "lru_reachable s \<Longrightarrow> lru_wf (fst s)"
proof (induction rule: lru_reachable.induct)
  case (lru_new n st)
  then show ?case by (simp add: newLRUBuffer_def lru_wf_def Let_def)
next
  case (lru_insert_evict s k f x s')
  then show ?case
    by (auto simp: insertCacheNodeAndEvict_def dest: insertCacheNode_impl_wf_fst)
next
  case (lru_insert_only s k f s')
  then show ?case
    by (auto simp: insertCacheNode_def dest: insertCacheNode_impl_wf_fst)
next
  case (lru_pop s x s')
  then show ?case by (auto dest: popLRU_wf_fst)
next
  case (lru_popN s n m xs s')
  then show ?case
    by (fastforce simp: popNLRU_def Let_def dest: popN_wf split: prod.splits bind_splits)
next
  case (lru_reference s k f s')
  then show ?case
    by (auto simp: referenceCachedNode_def dest: lru_wf_find intro!: lru_wf_push
        split: prod.splits bind_splits)
next
  case (lru_resize s n m s')
  then show ?case by (auto simp: setLRUBufferSize_def lru_wf_def split: prod.splits)
next
  case (lru_remove s b f ks s')
  then show ?case by (auto dest: removeUFDFromLRU_wf)
qed

section \<open>Refinement of an abstract recency list\<close>

text \<open>
  What the monitor wants of the buffer: a list of (page, descriptor) pairs, the touched pair moved
  to the front, cut at the capacity.
\<close>

definition node_abs :: "cache_node \<Rightarrow> u64 \<times> fd" where
  "node_abs n = (cn_hashcode n AND PAGE_MASK, cn_ufd n)"

definition lru_abs :: "lru_buffer \<Rightarrow> (u64 \<times> fd) list" where
  "lru_abs l = map node_abs (il l)"

definition touch :: "'a \<Rightarrow> 'a list \<Rightarrow> 'a list" where
  "touch p xs = p # removeAll p xs"

definition fds_ok :: "lru_buffer \<Rightarrow> bool" where
  "fds_ok l \<longleftrightarrow> (\<forall>n \<in> set (il l). 0 \<le> cn_ufd n \<and> cn_ufd n < 4096)"

lemma node_abs_key:
  assumes "node_ok n" and "0 \<le> cn_ufd n" "cn_ufd n < 4096" and "0 \<le> f" "f < 4096"
  shows "node_abs n = (k AND PAGE_MASK, f) \<longleftrightarrow> cn_hashcode n = hash_page_key k f"
proof
  assume "node_abs n = (k AND PAGE_MASK, f)"
  then show "cn_hashcode n = hash_page_key k f"
    using assms(1) unfolding node_abs_def node_ok_def by (metis hash_page_key_masked prod.inject)
next
  assume h: "cn_hashcode n = hash_page_key k f"
  then have "hash_page_key (cn_hashcode n) (cn_ufd n) = hash_page_key k f"
    using assms(1) by (simp add: node_ok_def)
  then have "cn_ufd n = f" using assms hash_page_key_fd [of k "cn_ufd n" k f] h by simp
  with h show "node_abs n = (k AND PAGE_MASK, f)" by (simp add: node_abs_def hash_page_key_page)
qed

lemma node_abs_new [simp]: "node_abs (new_node k f) = (k AND PAGE_MASK, f)"
  by (simp add: node_abs_def hash_page_key_page)

lemma removeAll_abs:
  assumes "\<forall>n \<in> set xs. node_ok n \<and> 0 \<le> cn_ufd n \<and> cn_ufd n < 4096" and "0 \<le> f" "f < 4096"
  shows "removeAll (k AND PAGE_MASK, f) (map node_abs xs)
     = map node_abs (drop_key cn_hashcode (hash_page_key k f) xs)"
  using assms(1)
  by (induction xs) (simp_all add: node_abs_key assms(2,3) eq_commute [of "(k AND PAGE_MASK, f)"])

lemma lru_insert_touch:
  assumes "lru_wf l" "fds_ok l" and "0 \<le> f" "f < 4096"
  shows "map node_abs (lru_insert (new_node k f) (il l)) = touch (k AND PAGE_MASK, f) (lru_abs l)"
proof -
  have ok: "\<forall>n \<in> set (il l). node_ok n \<and> 0 \<le> cn_ufd n \<and> cn_ufd n < 4096"
    using assms(1,2) by (auto simp: lru_wf_def fds_ok_def)
  note r = removeAll_abs [OF ok assms(3,4), of k]
  from lru_wf_distinct [OF assms(1)] show ?thesis
  proof (cases rule: lru.push_cases [where x = "new_node k f"])
    case fresh
    then show ?thesis using r by (simp add: touch_def lru_abs_def)
  next
    case (present y)
    then have "node_abs y = (k AND PAGE_MASK, f)" using ok assms(3,4) node_abs_key [of y f k] by auto
    with present r show ?thesis by (simp add: touch_def lru_abs_def)
  qed
qed

section \<open>Properties\<close>

text \<open>
  C28. Every buffer that calls of the C interface can build holds each hash code at most once, and
  the descriptor of each node is the one its hash code was computed from.
\<close>

theorem lru_reachable_invariant:
  assumes "lru_reachable (l, st)"
  shows "distinct_keys cn_hashcode (il l)
    \<and> (\<forall>n \<in> set (il l). cn_hashcode n = hash_page_key (cn_hashcode n) (cn_ufd n))"
  using lru_reachable_lru_wf [OF assms] by (simp add: lru_wf_def node_ok_def)

definition lru_example :: "lru_buffer \<times> MonitorStats" where
  "lru_example = snd (the (insertCacheNodeAndEvict 8200 7
     (snd (the (insertCacheNodeAndEvict 4096 7 (newLRUBuffer 2 stats0))))))"

lemma lru_example_reachable: "lru_reachable lru_example"
proof -
  have ins: "lru_reachable s \<Longrightarrow> lru_reachable (snd (the (insertCacheNodeAndEvict k f s)))" for k f s
  proof -
    assume r: "lru_reachable s"
    obtain n l' st' where "insertCacheNodeAndEvict k f s = Some (n, l', st')"
      using insertCacheNode_impl_defined [of k f True "fst s" "snd s"]
      by (auto simp: insertCacheNodeAndEvict_def)
    with r show ?thesis using lru_insert_evict by auto
  qed
  show ?thesis unfolding lru_example_def by (intro ins lru_new)
qed

lemma lru_example_il:
  "il (fst lru_example) = [new_node 8200 7, new_node 4096 7]"
  "max_num_items (fst lru_example) = 2"
  by code_simp+

theorem lru_reachable_invariant_witness:
  "il (fst lru_example) \<noteq> [] \<and> distinct_keys cn_hashcode (il (fst lru_example))
    \<and> list_all (\<lambda>n. cn_hashcode n = hash_page_key (cn_hashcode n) (cn_ufd n)) (il (fst lru_example))"
  using lru_reachable_invariant [of "fst lru_example" "snd lru_example"] lru_example_reachable
  by (simp add: lru_example_il)

text \<open>
  C27. The buffer implements a recency list of (page, descriptor) pairs, cut at its capacity: for
  descriptors below 4096, \<^verbatim>\<open>insertCacheNodeAndEvict\<close> moves the pair of the faulting page to the
  front, keeps the order of the others, and returns the pair that falls off the end (or the null
  node when nothing does).
\<close>

theorem insertCacheNodeAndEvict_refines:
  assumes "lru_wf l" "fds_ok l" "length (il l) \<le> max_num_items l" and "0 \<le> f" "f < 4096"
  shows "\<exists>n l' st'. insertCacheNodeAndEvict k f (l, st) = Some (n, l', st')
    \<and> max_num_items l' = max_num_items l
    \<and> lru_abs l' = take (max_num_items l) (touch (k AND PAGE_MASK, f) (lru_abs l))
    \<and> (if max_num_items l < length (touch (k AND PAGE_MASK, f) (lru_abs l))
       then node_abs n = last (touch (k AND PAGE_MASK, f) (lru_abs l)) else n = null_node)"
proof -
  let ?xs = "lru_insert (new_node k f) (il l)"
  have t: "touch (k AND PAGE_MASK, f) (lru_abs l) = map node_abs ?xs"
    using lru_insert_touch [OF assms(1,2,4,5)] by simp
  have le: "length ?xs \<le> Suc (max_num_items l)" and ne: "?xs \<noteq> []"
    using lru.length_push [OF lru_wf_distinct [OF assms(1)]] assms(3)
      lru.push_ne [OF lru_wf_distinct [OF assms(1)]] by auto
  show ?thesis
  proof (cases "max_num_items l < length ?xs")
    case True
    with le have "length ?xs = Suc (max_num_items l)" by simp
    then have "butlast ?xs = take (max_num_items l) ?xs" by (simp add: butlast_conv_take)
    then show ?thesis
      using insertCacheNodeAndEvict_full [OF True, of st] True ne
      unfolding t by (simp add: lru_abs_def take_map last_map)
  next
    case False
    then show ?thesis
      using insertCacheNodeAndEvict_room [of k f l st] unfolding t by (simp add: lru_abs_def)
  qed
qed

theorem insertCacheNodeAndEvict_refines_witness:
  "\<exists>n l' st'. insertCacheNodeAndEvict 12300 9 lru_example = Some (n, l', st')
    \<and> lru_abs l' = [(12288, 9), (8192, 7)] \<and> node_abs n = (4096, 7)"
proof -
  have "lru_wf (fst lru_example)" using lru_reachable_lru_wf [OF lru_example_reachable] .
  moreover have "fds_ok (fst lru_example)" by (simp add: fds_ok_def lru_example_il)
  moreover have "touch (12300 AND PAGE_MASK, 9) (lru_abs (fst lru_example))
     = [(12288, 9), (8192, 7), (4096, 7)]" by code_simp
  ultimately show ?thesis
    using insertCacheNodeAndEvict_refines [of "fst lru_example" 9 12300 "snd lru_example"]
    by (auto simp: lru_example_il)
qed

text \<open>
  \<^verbatim>\<open>popNLRU\<close> returns the oldest nodes, the oldest first, as many as asked for or as there are, and
  leaves the newer ones in their order.
\<close>

lemma popNLRU_oldest:
  assumes "length (il l) < 2 ^ 31" and "0 \<le> n"
  shows "\<exists>st'. popNLRU n (l, st) = Some (min n (int (length (il l))),
       take (nat n) (rev (il l)), l\<lparr>il := take (length (il l) - nat n) (il l)\<rparr>, st')"
  using assms by (rule popNLRU_nodes)

lemma popNLRU_oldest_witness:
  "\<exists>st'. popNLRU 1 lru_example = Some (1, [new_node 4096 7],
       (fst lru_example)\<lparr>il := [new_node 8200 7]\<rparr>, st')"
  using popNLRU_oldest [of "fst lru_example" 1 "snd lru_example"] by (simp add: lru_example_il)

text \<open>
  C29. Removing a descriptor from a well-formed buffer. The loop increments an iterator whose node it
  has just erased, so as soon as the buffer holds a page of the descriptor the call depends on a
  freed node. If the link in that node still reads as before, the call returns the pages of the
  descriptor and removes exactly their nodes; if it does not, the behaviour is undefined.
\<close>

theorem removeUFDFromLRU_behaviour:
  assumes "lru_wf l"
  shows "(\<exists>st'. removeUFDFromLRU True ufd (l, st)
       = Some (map (\<lambda>n. cn_hashcode n AND PAGE_MASK) (filter (\<lambda>n. cn_ufd n = ufd) (il l)),
               l\<lparr>il := filter (\<lambda>n. cn_ufd n \<noteq> ufd) (il l)\<rparr>, st'))
    \<and> (removeUFDFromLRU False ufd (l, st) = None \<longleftrightarrow> (\<exists>n \<in> set (il l). cn_ufd n = ufd))"
proof
  show "removeUFDFromLRU False ufd (l, st) = None \<longleftrightarrow> (\<exists>n \<in> set (il l). cn_ufd n = ufd)"
    using removeUFD_loop_undefined [of ufd "il l" "il l"]
    by (auto simp: removeUFDFromLRU_def Let_def split: bind_splits)
qed (rule removeUFDFromLRU_stale [OF assms])

theorem removeUFDFromLRU_behaviour_witness:
  "(\<exists>st'. removeUFDFromLRU True 7 lru_example = Some ([8192, 4096], (fst lru_example)\<lparr>il := []\<rparr>, st'))
    \<and> removeUFDFromLRU False 7 lru_example = None"
proof -
  have "(8200 :: u64) AND PAGE_MASK = 8192" "(4096 :: u64) AND PAGE_MASK = 4096" by code_simp+
  then show ?thesis
    using removeUFDFromLRU_behaviour [of "fst lru_example" 7 "snd lru_example"]
      lru_reachable_lru_wf [OF lru_example_reachable] by (simp add: lru_example_il hash_page_key_page)
qed

text \<open>
  C30. Two descriptors that differ by 4096 share their hash codes: when a page of descriptor \<open>f\<close> is in
  the buffer, inserting the same address for descriptor \<open>f + 4096\<close> adds no node; it moves the node
  of \<open>f\<close> to the front, and the new page can never be chosen for eviction.
\<close>

theorem insertCacheNode_fd_collision:
  assumes "lru_wf l" and "new_node k f \<in> set (il l)"
  shows "\<exists>st'. insertCacheNode k (f + 4096) (l, st)
     = Some (l\<lparr>il := new_node k f # drop_key cn_hashcode (hash_page_key k f) (il l)\<rparr>, st')"
proof -
  have "lru_insert (new_node k (f + 4096)) (il l)
     = new_node k f # drop_key cn_hashcode (hash_page_key k f) (il l)"
    using lru.push_present [OF lru_wf_distinct [OF assms(1)] assms(2), of "new_node k (f + 4096)"]
    by (simp add: hash_page_key_collide)
  then show ?thesis by (simp add: insertCacheNode_def insertCacheNode_impl_def Let_def)
qed

theorem insertCacheNode_fd_collision_witness:
  "\<exists>st'. insertCacheNode 4096 (7 + 4096) lru_example
     = Some ((fst lru_example)\<lparr>il := [new_node 4096 7, new_node 8200 7]\<rparr>, st')"
proof -
  have "hash_page_key 8200 7 \<noteq> hash_page_key 4096 7" by code_simp
  then show ?thesis
    using insertCacheNode_fd_collision [of "fst lru_example" 4096 7 "snd lru_example"]
      lru_reachable_lru_wf [OF lru_example_reachable] by (simp add: lru_example_il)
qed

text \<open>
  The gauge \<^verbatim>\<open>LRU_Buffer_size\<close> counts insertions, not nodes: it follows the length of the list
  when the page is new, and runs ahead of it by one when the page was already present.
\<close>

lemma insertCacheNode_gauge:
  assumes "lru_wf l" and "LRU_Buffer_size st = word_of_nat (length (il l))"
    and "insertCacheNode k f (l, st) = Some (l', st')"
  shows "LRU_Buffer_size st' = word_of_nat (length (il l'))
       + (if hash_page_key k f \<in> cn_hashcode ` set (il l) then 1 else 0)"
  using assms lru.length_push [OF lru_wf_distinct [OF assms(1)], of "new_node k f"]
  by (auto simp: insertCacheNode_def insertCacheNode_impl_def Let_def StatsIncrLRUBufferSize_def)

lemma insertCacheNode_gauge_witness:
  "LRU_Buffer_size (snd (the (insertCacheNode 4096 7 lru_example))) = 3
    \<and> length (il (fst (the (insertCacheNode 4096 7 lru_example)))) = 2"
proof -
  let ?s = "the (insertCacheNode 4096 7 lru_example)"
  have d: "insertCacheNode 4096 7 (fst lru_example, snd lru_example) = Some (fst ?s, snd ?s)"
    using insertCacheNode_impl_defined [of 4096 7 False "fst lru_example" "snd lru_example"]
    by (auto simp: insertCacheNode_def)
  have g: "LRU_Buffer_size (snd lru_example) = word_of_nat (length (il (fst lru_example)))"
    by code_simp
  have "length (il (fst ?s)) = 2" by code_simp
  then show ?thesis
    using insertCacheNode_gauge [OF lru_reachable_lru_wf [OF lru_example_reachable] g d]
    by (simp add: lru_example_il)
qed

end
