(* ===== verification/Uthash.thy ===== *)
theory Uthash
  imports FM_Prelude
begin

text \<open>
  The hash tables of \<^verbatim>\<open>include/uthash.h\<close> as the sources use them: \<^verbatim>\<open>HASH_ADD\<close> appends to the
  application order, \<^verbatim>\<open>HASH_ITER\<close> walks that order, \<^verbatim>\<open>HASH_FIND\<close> returns the youngest entry with the
  key, \<^verbatim>\<open>HASH_DELETE\<close> unlinks an entry that was found and \<^verbatim>\<open>HASH_CNT\<close> counts the entries. A table is
  the list of its entries in application order. The locale states the contract for the operations of
  one table and is interpreted for the write list, the prefetch list and the descriptor map. The
  second part is the mutexes of the program.
\<close>

section \<open>Tables\<close>

definition hash_find :: "('a \<Rightarrow> 'k) \<Rightarrow> 'k \<Rightarrow> 'a list \<Rightarrow> 'a option" where
  "hash_find key k xs = List.find (\<lambda>x. key x = k) (rev xs)"

definition hash_delete :: "('a \<Rightarrow> 'k) \<Rightarrow> 'k \<Rightarrow> 'a list \<Rightarrow> 'a list" where
  "hash_delete key k xs = rev (del_first (\<lambda>x. key x = k) (rev xs))"

definition hash_cnt :: "'a list \<Rightarrow> int" where
  "hash_cnt xs = int_of_size (length xs)"

lemma rev_drop_key: "rev (drop_key key k xs) = drop_key key k (rev xs)"
  by (simp add: drop_key_def rev_filter)

lemma distinct_keys_rev [simp]: "distinct_keys key (rev xs) \<longleftrightarrow> distinct_keys key xs"
  by (simp flip: rev_map)

lemma hash_find_iff:
  "distinct_keys key xs \<Longrightarrow> hash_find key k xs = Some x \<longleftrightarrow> x \<in> set xs \<and> key x = k"
  using find_distinct_keys [of key "rev xs" k x] by (simp add: hash_find_def)

lemma hash_find_None: "hash_find key k xs = None \<longleftrightarrow> k \<notin> key ` set xs"
  using find_None_keys [of key k "rev xs"] by (simp add: hash_find_def)

lemma hash_delete_drop:
  "distinct_keys key xs \<Longrightarrow> hash_delete key k xs = drop_key key k xs"
  using del_first_drop_key [of key "rev xs" k] by (simp add: hash_delete_def rev_drop_key)

locale hash_table =
  fixes key :: "'a \<Rightarrow> 'k"
    and add :: "'a \<Rightarrow> 'a list \<Rightarrow> 'a list"
    and find :: "'k \<Rightarrow> 'a list \<Rightarrow> 'a option"
    and del :: "'k \<Rightarrow> 'a list \<Rightarrow> 'a list"
  assumes add_append: "add x xs = xs @ [x]"
    and find_iff: "distinct_keys key xs \<Longrightarrow> find k xs = Some x \<longleftrightarrow> x \<in> set xs \<and> key x = k"
    and del_drop: "distinct_keys key xs \<Longrightarrow> k \<in> key ` set xs \<Longrightarrow> del k xs = drop_key key k xs"
begin

lemma distinct_add:
  "distinct_keys key xs \<Longrightarrow> key x \<notin> key ` set xs \<Longrightarrow> distinct_keys key (add x xs)"
  by (simp add: add_append)

lemma distinct_del:
  "distinct_keys key xs \<Longrightarrow> k \<in> key ` set xs \<Longrightarrow> distinct_keys key (del k xs)"
  by (simp add: del_drop)

lemma find_None:
  assumes "distinct_keys key xs"
  shows "find k xs = None \<longleftrightarrow> k \<notin> key ` set xs"
  using find_iff [OF assms, of k] by (cases "find k xs") force+

lemma find_add:
  assumes "distinct_keys key xs" "key x \<notin> key ` set xs"
  shows "find k (add x xs) = (if k = key x then Some x else find k xs)"
proof (rule option_eq_SomeI)
  fix z
  have "z \<in> set xs \<Longrightarrow> key z \<noteq> key x" using assms(2) by (metis imageI)
  then show "find k (add x xs) = Some z \<longleftrightarrow> (if k = key x then Some x else find k xs) = Some z"
    using assms find_iff [OF distinct_add [OF assms], of k z] find_iff [OF assms(1), of k z]
    by (auto simp: add_append)
qed

lemma find_del:
  assumes "distinct_keys key xs" "k' \<in> key ` set xs"
  shows "find k (del k' xs) = (if k = k' then None else find k xs)"
proof (rule option_eq_SomeI)
  fix z
  show "find k (del k' xs) = Some z \<longleftrightarrow> (if k = k' then None else find k xs) = Some z"
    using find_iff [OF distinct_del [OF assms], of k z] find_iff [OF assms(1), of k z]
    by (auto simp: del_drop [OF assms])
qed

lemma length_del:
  "distinct_keys key xs \<Longrightarrow> k \<in> key ` set xs \<Longrightarrow> Suc (length (del k xs)) = length xs"
  by (simp add: del_drop length_drop_key)

end

section \<open>Mutexes\<close>

text \<open>
  The mutexes the running thread holds. Locking one of them again blocks the thread for ever,
  unlocking one that is not held is undefined; both are \<open>None\<close>.
\<close>

datatype lock = lru_lock | pagecache_lock | list_lock | read_lock | flush_write_needed_lock
  | fdUpidMap_lock | zh_lock

type_synonym locks = "lock set"

definition mutex_lock :: "lock \<Rightarrow> locks \<Rightarrow> locks option" where
  "mutex_lock l H = (if l \<in> H then None else Some (insert l H))"

definition mutex_unlock :: "lock \<Rightarrow> locks \<Rightarrow> locks option" where
  "mutex_unlock l H = (if l \<in> H then Some (H - {l}) else None)"

lemma mutex_lock_free [simp]: "l \<notin> H \<Longrightarrow> mutex_lock l H = Some (insert l H)"
  by (simp add: mutex_lock_def)

lemma mutex_unlock_held [simp]: "mutex_unlock l (insert l H) = Some (H - {l})"
  by (simp add: mutex_unlock_def)

lemma mutex_lock_self: "l \<in> H \<Longrightarrow> mutex_lock l H = None"
  by (simp add: mutex_lock_def)

lemma mutex_unlock_free: "l \<notin> H \<Longrightarrow> mutex_unlock l H = None"
  by (simp add: mutex_unlock_def)

end
