(* ===== verification/Threaded_IO.thy ===== *)
theory Threaded_IO
  imports Uthash
begin

text \<open>
  \<^verbatim>\<open>include/threaded_io.h\<close>: the list of evicted pages that wait to be written to the remote store, the
  list of pages to prefetch, the flags under \<^verbatim>\<open>list_lock\<close> and the semaphores between the fault handler,
  the write thread and the prefetch thread.
\<close>

section \<open>Data\<close>

record write_info =
  wi_ufd :: fd
  wi_pageaddr :: u64
  wi_page :: ptr
  wi_in_flight :: bool

record prefetch_info =
  pi_ufd :: fd
  pi_pageaddr :: u64

definition wi_key :: "write_info \<Rightarrow> fd \<times> u64" where
  "wi_key w = (wi_ufd w, wi_pageaddr w)"

definition pi_key :: "prefetch_info \<Rightarrow> fd \<times> u64" where
  "pi_key p = (pi_ufd p, pi_pageaddr p)"

definition WRITE_BATCH_SIZE :: int where
  "WRITE_BATCH_SIZE = 100"

record threaded_io =
  write_list :: "write_info list"
  prefetch_list :: "prefetch_info list"
  isWriterWaiting :: bool
  isPrefetcherWaiting :: bool
  isUfhandlerWaiting :: bool
  flushWriteListNeeded :: bool
  writer_sem :: nat
  prefetcher_sem :: nat
  ufhandler_sem :: nat
  flushed_write_sem :: nat

definition tio_init :: threaded_io where
  "tio_init = \<lparr>write_list = [], prefetch_list = [], isWriterWaiting = False,
     isPrefetcherWaiting = False, isUfhandlerWaiting = False, flushWriteListNeeded = False,
     writer_sem = 0, prefetcher_sem = 0, ufhandler_sem = 0, flushed_write_sem = 0\<rparr>"

section \<open>The write list\<close>

definition write_list_add :: "write_info \<Rightarrow> write_info list \<Rightarrow> write_info list" where
  "write_list_add w ws = ws @ [w]"

definition add_write_info :: "fd \<Rightarrow> u64 \<Rightarrow> ptr \<Rightarrow> threaded_io \<Rightarrow> threaded_io" where
  "add_write_info ufd pageaddr page t =
     t\<lparr>write_list := write_list_add
         \<lparr>wi_ufd = ufd, wi_pageaddr = pageaddr, wi_page = page, wi_in_flight = False\<rparr>
         (write_list t)\<rparr>"

definition find_write_info :: "fd \<Rightarrow> u64 \<Rightarrow> threaded_io \<Rightarrow> write_info option" where
  "find_write_info ufd pageaddr t = hash_find wi_key (ufd, pageaddr) (write_list t)"

definition exist_write_info :: "fd \<Rightarrow> u64 \<Rightarrow> threaded_io \<Rightarrow> bool" where
  "exist_write_info ufd pageaddr t =
     (case hash_find wi_key (ufd, pageaddr) (write_list t) of None \<Rightarrow> False | Some _ \<Rightarrow> True)"

definition get_one_write_info :: "threaded_io \<Rightarrow> write_info option" where
  "get_one_write_info t = (case write_list t of [] \<Rightarrow> None | w # _ \<Rightarrow> Some w)"

text \<open>The flag is set when the entry is missing, which the code reports with \<^verbatim>\<open>log_err\<close>.\<close>

definition del_write_info :: "fd \<Rightarrow> u64 \<Rightarrow> threaded_io \<Rightarrow> bool \<times> threaded_io" where
  "del_write_info ufd pageaddr t =
     (case hash_find wi_key (ufd, pageaddr) (write_list t) of
        Some _ \<Rightarrow> (False, t\<lparr>write_list := hash_delete wi_key (ufd, pageaddr) (write_list t)\<rparr>)
      | None \<Rightarrow> (True, t))"

definition get_write_list_size :: "threaded_io \<Rightarrow> int" where
  "get_write_list_size t = hash_cnt (write_list t)"

text \<open>The argument is the entry \<^verbatim>\<open>find_write_info\<close> returned.\<close>

definition extract_page_from_write_list :: "write_info option \<Rightarrow> threaded_io \<Rightarrow> ptr \<times> threaded_io" where
  "extract_page_from_write_list w t =
     (case w of
        None \<Rightarrow> (NULL, t)
      | Some e \<Rightarrow> if \<not> wi_in_flight e
                  then (wi_page e, t\<lparr>write_list := hash_delete wi_key (wi_key e) (write_list t)\<rparr>)
                  else (NULL, t))"

section \<open>The prefetch list\<close>

definition prefetch_list_add :: "prefetch_info \<Rightarrow> prefetch_info list \<Rightarrow> prefetch_info list" where
  "prefetch_list_add p ps = ps @ [p]"

definition add_prefetch_info :: "fd \<Rightarrow> u64 \<Rightarrow> threaded_io \<Rightarrow> threaded_io" where
  "add_prefetch_info ufd pageaddr t =
     t\<lparr>prefetch_list := prefetch_list_add \<lparr>pi_ufd = ufd, pi_pageaddr = pageaddr\<rparr> (prefetch_list t)\<rparr>"

definition exist_prefetch_info :: "fd \<Rightarrow> u64 \<Rightarrow> threaded_io \<Rightarrow> bool" where
  "exist_prefetch_info ufd pageaddr t =
     (case hash_find pi_key (ufd, pageaddr) (prefetch_list t) of None \<Rightarrow> False | Some _ \<Rightarrow> True)"

definition get_one_prefetch_info :: "threaded_io \<Rightarrow> prefetch_info option" where
  "get_one_prefetch_info t = (case prefetch_list t of [] \<Rightarrow> None | p # _ \<Rightarrow> Some p)"

definition del_prefetch_info :: "fd \<Rightarrow> u64 \<Rightarrow> threaded_io \<Rightarrow> bool \<times> threaded_io" where
  "del_prefetch_info ufd pageaddr t =
     (case hash_find pi_key (ufd, pageaddr) (prefetch_list t) of
        Some _ \<Rightarrow> (False, t\<lparr>prefetch_list := hash_delete pi_key (ufd, pageaddr) (prefetch_list t)\<rparr>)
      | None \<Rightarrow> (True, t))"

definition get_prefetch_list_size :: "threaded_io \<Rightarrow> int" where
  "get_prefetch_list_size t = hash_cnt (prefetch_list t)"

section \<open>The table contract\<close>

interpretation wl: hash_table wi_key write_list_add "hash_find wi_key" "hash_delete wi_key"
  by unfold_locales (simp_all add: write_list_add_def hash_find_iff hash_delete_drop)

interpretation pl: hash_table pi_key prefetch_list_add "hash_find pi_key" "hash_delete pi_key"
  by unfold_locales (simp_all add: prefetch_list_add_def hash_find_iff hash_delete_drop)

text \<open>No page waits twice.\<close>

definition tio_wf :: "threaded_io \<Rightarrow> bool" where
  "tio_wf t \<longleftrightarrow> distinct_keys wi_key (write_list t) \<and> distinct_keys pi_key (prefetch_list t)"

lemma tio_wf_init: "tio_wf tio_init"
  by (simp add: tio_wf_def tio_init_def)

lemma tio_wf_add_write:
  assumes "tio_wf t" "find_write_info f a t = None"
  shows "tio_wf (add_write_info f a p t)"
  using assms wl.distinct_add wl.find_None
  by (auto simp: tio_wf_def add_write_info_def find_write_info_def wi_key_def)

lemma find_add_write:
  assumes "tio_wf t" "find_write_info f a t = None"
  shows "find_write_info g b (add_write_info f a p t) = (if (g, b) = (f, a)
     then Some \<lparr>wi_ufd = f, wi_pageaddr = a, wi_page = p, wi_in_flight = False\<rparr>
     else find_write_info g b t)"
proof -
  let ?w = "\<lparr>wi_ufd = f, wi_pageaddr = a, wi_page = p, wi_in_flight = False\<rparr>"
  have d: "distinct_keys wi_key (write_list t)" and n: "wi_key ?w \<notin> wi_key ` set (write_list t)"
    using assms wl.find_None by (auto simp: tio_wf_def find_write_info_def wi_key_def)
  show ?thesis using wl.find_add [OF d n, of "(g, b)"]
    by (simp add: find_write_info_def add_write_info_def wi_key_def)
qed

lemma extract_write:
  assumes "tio_wf t" "find_write_info f a t = Some w" "\<not> wi_in_flight w"
  obtains t' where "extract_page_from_write_list (Some w) t = (wi_page w, t')" "tio_wf t'"
    "\<And>g b. find_write_info g b t' = (if (g, b) = (f, a) then None else find_write_info g b t)"
    "prefetch_list t' = prefetch_list t"
proof -
  have d: "distinct_keys wi_key (write_list t)" using assms(1) by (simp add: tio_wf_def)
  have w: "w \<in> set (write_list t)" "wi_key w = (f, a)"
    using assms(2) wl.find_iff [OF d] by (auto simp: find_write_info_def)
  then have k: "(f, a) \<in> wi_key ` set (write_list t)" by (metis imageI)
  let ?t = "t\<lparr>write_list := hash_delete wi_key (f, a) (write_list t)\<rparr>"
  have "tio_wf ?t" using assms(1) wl.distinct_del [OF d k] by (simp add: tio_wf_def)
  moreover have "find_write_info g b ?t = (if (g, b) = (f, a) then None else find_write_info g b t)"
    for g b using wl.find_del [OF d k, of "(g, b)"] by (simp add: find_write_info_def)
  ultimately show thesis
    using that [of ?t] w assms(3) by (simp add: extract_page_from_write_list_def)
qed

end
