(* ===== verification/Machine.thy ===== *)
theory Machine
  imports FM_Prelude
begin

text \<open>
  The kernel as the monitor sees it. \<open>bufs\<close> are the pages of the monitor's own address space that
  were obtained from \<^verbatim>\<open>mmap\<close> (or from the C allocator), with their contents; a page that was moved
  away and not yet touched again reads as zeros. \<open>resident\<close> are the pages present in the user fault
  regions of the applications, by descriptor and page address. \<open>mallocd\<close> are the buffers that came from
  the C allocator and may be passed to \<^verbatim>\<open>free\<close>. \<open>kst\<close> is kernel state the monitor does
  not see; the system calls may depend on it and change it.

  The system calls are not code of this repository: they are the fields of a record \<open>kernel\<close> that
  every definition takes as an argument. A call returns 0 or the error number, and the new machine.
  What the code relies on is the predicate \<open>kernel_ok\<close>: the documented effect of \<^verbatim>\<open>mmap(2)\<close>,
  \<^verbatim>\<open>munmap(2)\<close>, \<^verbatim>\<open>ioctl_userfaultfd(2)\<close> and of the \<^verbatim>\<open>UFFDIO_REMAP\<close> patch the repository ships.
\<close>

record machine =
  bufs :: "ptr \<Rightarrow> page option"
  resident :: "fd \<Rightarrow> u64 \<Rightarrow> page option"
  mallocd :: "ptr set"
  kst :: nat

text \<open>
  \<open>k_copy\<close> and \<open>k_zeropage\<close> take the descriptor and the destination, \<open>k_remap_in\<close> and \<open>k_remap_out\<close>
  the descriptor, the destination and the source; \<open>k_remap_out\<close> is the eviction direction, with
  holes in the source allowed. \<open>k_copy\<close> gives the result of the call and the \<^verbatim>\<open>copy\<close> field of its argument,
  which was 0 before.
\<close>

record kernel =
  k_mmap :: "machine \<Rightarrow> ptr \<times> machine"
  k_munmap :: "ptr \<Rightarrow> machine \<Rightarrow> int \<times> machine"
  k_copy :: "fd \<Rightarrow> u64 \<Rightarrow> ptr \<Rightarrow> machine \<Rightarrow> int \<times> int \<times> machine"
  k_zeropage :: "fd \<Rightarrow> u64 \<Rightarrow> machine \<Rightarrow> int \<times> machine"
  k_remap_in :: "fd \<Rightarrow> u64 \<Rightarrow> ptr \<Rightarrow> machine \<Rightarrow> int \<times> machine"
  k_remap_out :: "fd \<Rightarrow> ptr \<Rightarrow> u64 \<Rightarrow> machine \<Rightarrow> int \<times> machine"
  k_wake :: "fd \<Rightarrow> u64 \<Rightarrow> u64 \<Rightarrow> machine \<Rightarrow> int \<times> machine"
  k_getpgid :: "u32 \<Rightarrow> machine \<Rightarrow> int"

text \<open>\<^verbatim>\<open>free\<close> of a pointer that did not come from the C allocator is undefined.\<close>

definition c_free :: "ptr \<Rightarrow> machine \<Rightarrow> machine option" where
  "c_free p M =
     (if p = NULL then Some M
      else if p \<in> mallocd M then Some (M\<lparr>bufs := (bufs M)(p := None), mallocd := mallocd M - {p}\<rparr>)
      else None)"

section \<open>Error numbers\<close>

definition ENOENT :: int where "ENOENT = 2"
definition ESRCH :: int where "ESRCH = 3"
definition EAGAIN :: int where "EAGAIN = 11"
definition EBUSY :: int where "EBUSY = 16"
definition EEXIST :: int where "EEXIST = 17"
definition EINVAL :: int where "EINVAL = 22"

lemmas errno_defs = ENOENT_def ESRCH_def EAGAIN_def EBUSY_def EEXIST_def EINVAL_def

section \<open>Documented behaviour\<close>

definition same_pages :: "machine \<Rightarrow> machine \<Rightarrow> bool" where
  "same_pages M M' \<longleftrightarrow> bufs M' = bufs M \<and> resident M' = resident M \<and> mallocd M' = mallocd M"

definition set_resident :: "fd \<Rightarrow> u64 \<Rightarrow> page option \<Rightarrow> machine \<Rightarrow> machine" where
  "set_resident f a p M = M\<lparr>resident := (resident M)(f := (resident M f)(a := p))\<rparr>"

definition set_buf :: "ptr \<Rightarrow> page option \<Rightarrow> machine \<Rightarrow> machine" where
  "set_buf b p M = M\<lparr>bufs := (bufs M)(b := p)\<rparr>"

text \<open>
  \<^verbatim>\<open>mmap\<close> fails or returns a fresh page of zeros; \<^verbatim>\<open>munmap\<close> of a page removes it. The placing calls
  and the evicting one change the pages they name when they return 0 and nothing when they fail;
  \<^verbatim>\<open>UFFDIO_COPY\<close> reports a failure as a negated error number in its \<^verbatim>\<open>copy\<close> field or leaves it 0, the
  others leave an error number below 4096 in \<^verbatim>\<open>errno\<close>; the destination of an eviction must be mapped, and evicting a hole succeeds and moves nothing.
\<close>

definition mmap_ok :: "kernel \<Rightarrow> bool" where
  "mmap_ok K \<longleftrightarrow> (\<forall>M. let (p, M') = k_mmap K M in
     (p = MAP_FAILED \<and> same_pages M M')
     \<or> (p \<noteq> MAP_FAILED \<and> p \<noteq> NULL \<and> bufs M p = None \<and> same_pages (set_buf p (Some zero_page) M) M'))"

definition munmap_ok :: "kernel \<Rightarrow> bool" where
  "munmap_ok K \<longleftrightarrow> (\<forall>M p. let (r, M') = k_munmap K p M in
     same_pages (set_buf p None M) M' \<and> (bufs M p \<noteq> None \<longrightarrow> r = 0))"

definition copy_ok :: "kernel \<Rightarrow> bool" where
  "copy_ok K \<longleftrightarrow> (\<forall>M f a src. let (rc, copy, M') = k_copy K f a src M in
     if rc = 0 then resident M f a = None \<and> bufs M src \<noteq> None
                 \<and> same_pages (set_resident f a (bufs M src) M) M'
     else same_pages M M' \<and> copy \<le> 0)"

definition zeropage_ok :: "kernel \<Rightarrow> bool" where
  "zeropage_ok K \<longleftrightarrow> (\<forall>M f a. let (e, M') = k_zeropage K f a M in
     if e = 0 then resident M f a = None \<and> same_pages (set_resident f a (Some zero_page) M) M'
     else same_pages M M')"

definition remap_out_ok :: "kernel \<Rightarrow> bool" where
  "remap_out_ok K \<longleftrightarrow> (\<forall>M f dst a. let (e, M') = k_remap_out K f dst a M in
     if e = 0 then bufs M dst \<noteq> None
       \<and> (case resident M f a of
            None \<Rightarrow> same_pages M M'
          | Some pg \<Rightarrow> same_pages (set_buf dst (Some pg) (set_resident f a None M)) M')
     else same_pages M M' \<and> 0 < e \<and> e < 4096)"

definition kernel_ok :: "kernel \<Rightarrow> bool" where
  "kernel_ok K \<longleftrightarrow> mmap_ok K \<and> munmap_ok K \<and> copy_ok K \<and> zeropage_ok K \<and> remap_out_ok K"

text \<open>
  A region whose mapping does not change under the monitor's feet: placing a page that is missing
  succeeds.
\<close>

definition region_stable :: "kernel \<Rightarrow> fd \<Rightarrow> bool" where
  "region_stable K f \<longleftrightarrow> (\<forall>M a src.
      (resident M f a = None \<longrightarrow> bufs M src \<noteq> None \<longrightarrow> fst (k_copy K f a src M) = 0)
    \<and> (resident M f a = None \<longrightarrow> fst (k_zeropage K f a M) = 0))"

section \<open>Consequences\<close>

lemma stable_copy:
  "region_stable K f \<Longrightarrow> resident M f a = None \<Longrightarrow> bufs M src \<noteq> None \<Longrightarrow> fst (k_copy K f a src M) = 0"
  by (simp add: region_stable_def)

lemma stable_zeropage:
  "region_stable K f \<Longrightarrow> resident M f a = None \<Longrightarrow> fst (k_zeropage K f a M) = 0"
  by (simp add: region_stable_def)

lemma same_pages_refl [simp]: "same_pages M M"
  by (simp add: same_pages_def)

lemma mmap_cases:
  assumes "kernel_ok K" and "k_mmap K M = (p, M')"
  obtains "p = MAP_FAILED" "same_pages M M'"
  | "p \<noteq> MAP_FAILED" "p \<noteq> NULL" "bufs M p = None" "bufs M' = (bufs M)(p \<mapsto> zero_page)"
    "resident M' = resident M"
proof -
  have "let (p, M') = k_mmap K M in (p = MAP_FAILED \<and> same_pages M M')
     \<or> (p \<noteq> MAP_FAILED \<and> p \<noteq> NULL \<and> bufs M p = None \<and> same_pages (set_buf p (Some zero_page) M) M')"
    using assms(1) by (simp add: kernel_ok_def mmap_ok_def)
  with assms(2) that show thesis by (auto simp: same_pages_def set_buf_def)
qed

lemma munmap_effect:
  assumes "kernel_ok K" and "k_munmap K p M = (r, M')"
  shows "bufs M' = (bufs M)(p := None)" and "resident M' = resident M"
    and "bufs M p \<noteq> None \<Longrightarrow> r = 0"
proof -
  have "let (r, M') = k_munmap K p M in same_pages (set_buf p None M) M' \<and> (bufs M p \<noteq> None \<longrightarrow> r = 0)"
    using assms(1) by (simp add: kernel_ok_def munmap_ok_def)
  with assms(2) show "bufs M' = (bufs M)(p := None)" "resident M' = resident M"
    "bufs M p \<noteq> None \<Longrightarrow> r = 0" by (simp_all add: same_pages_def set_buf_def)
qed

lemma copy_cases:
  assumes "kernel_ok K" and "k_copy K f a src M = (rc, copy, M')"
  obtains pg where "rc = 0" "resident M f a = None" "bufs M src = Some pg" "bufs M' = bufs M"
      "resident M' = (resident M)(f := (resident M f)(a \<mapsto> pg))"
  | "rc \<noteq> 0" "copy \<le> 0" "bufs M' = bufs M" "resident M' = resident M"
proof -
  have "let (rc, copy, M') = k_copy K f a src M in
     if rc = 0 then resident M f a = None \<and> bufs M src \<noteq> None
                 \<and> same_pages (set_resident f a (bufs M src) M) M'
     else same_pages M M' \<and> copy \<le> 0"
    using assms(1) by (simp add: kernel_ok_def copy_ok_def)
  with assms(2) that show thesis
    by (auto simp: same_pages_def set_resident_def split: if_splits)
qed

lemma zeropage_cases:
  assumes "kernel_ok K" and "k_zeropage K f a M = (e, M')"
  obtains "e = 0" "resident M f a = None" "bufs M' = bufs M"
      "resident M' = (resident M)(f := (resident M f)(a \<mapsto> zero_page))"
  | "e \<noteq> 0" "bufs M' = bufs M" "resident M' = resident M"
proof -
  have "let (e, M') = k_zeropage K f a M in
     if e = 0 then resident M f a = None \<and> same_pages (set_resident f a (Some zero_page) M) M'
     else same_pages M M'"
    using assms(1) by (simp add: kernel_ok_def zeropage_ok_def)
  with assms(2) that show thesis
    by (auto simp: same_pages_def set_resident_def split: if_splits)
qed

lemma remap_out_cases:
  assumes "kernel_ok K" and "k_remap_out K f dst a M = (e, M')"
  obtains pg where "e = 0" "bufs M dst \<noteq> None" "resident M f a = Some pg"
      "bufs M' = (bufs M)(dst \<mapsto> pg)"
      "resident M' = (resident M)(f := (resident M f)(a := None))"
  | "e = 0" "bufs M dst \<noteq> None" "resident M f a = None" "bufs M' = bufs M" "resident M' = resident M"
  | "0 < e" "e < 4096" "bufs M' = bufs M" "resident M' = resident M"
proof -
  have "let (e, M') = k_remap_out K f dst a M in
     if e = 0 then bufs M dst \<noteq> None
       \<and> (case resident M f a of
            None \<Rightarrow> same_pages M M'
          | Some pg \<Rightarrow> same_pages (set_buf dst (Some pg) (set_resident f a None M)) M')
     else same_pages M M' \<and> 0 < e \<and> e < 4096"
    using assms(1) by (simp add: kernel_ok_def remap_out_ok_def)
  with assms(2) that show thesis
    by (cases "resident M f a")
      (auto simp: same_pages_def set_resident_def set_buf_def split: if_splits)
qed

section \<open>An example kernel\<close>

text \<open>
  Every call succeeds where its documentation allows it; pages are handed out at increasing
  addresses, the next one counted in \<open>kst\<close>. It is used to evaluate examples.
\<close>

definition sim_kernel :: kernel where
  "sim_kernel = \<lparr>
     k_mmap = (\<lambda>M. let p = word_of_nat (65536 + 4096 * kst M) in
        if p = NULL \<or> p = MAP_FAILED \<or> bufs M p \<noteq> None then (MAP_FAILED, M)
        else (p, set_buf p (Some zero_page) (M\<lparr>kst := kst M + 1\<rparr>))),
     k_munmap = (\<lambda>p M. (if bufs M p = None then - 1 else 0, set_buf p None M)),
     k_copy = (\<lambda>f a src M. if resident M f a = None \<and> bufs M src \<noteq> None
        then (0, 4096, set_resident f a (bufs M src) M) else (- 1, - EEXIST, M)),
     k_zeropage = (\<lambda>f a M. if resident M f a = None
        then (0, set_resident f a (Some zero_page) M) else (EEXIST, M)),
     k_remap_in = (\<lambda>f a src M. if resident M f a = None \<and> bufs M src \<noteq> None
        then (0, set_buf src (Some zero_page) (set_resident f a (bufs M src) M)) else (EEXIST, M)),
     k_remap_out = (\<lambda>f dst a M. if bufs M dst = None then (EINVAL, M) else case resident M f a of
          None \<Rightarrow> (0, M)
        | Some pg \<Rightarrow> (0, set_buf dst (Some pg) (set_resident f a None M))),
     k_wake = (\<lambda>f a n M. (0, M)),
     k_getpgid = (\<lambda>p M. int (unat p))\<rparr>"

lemma sim_kernel_ok: "kernel_ok sim_kernel"
  by (auto simp: kernel_ok_def sim_kernel_def mmap_ok_def munmap_ok_def copy_ok_def zeropage_ok_def
      remap_out_ok_def same_pages_def set_buf_def set_resident_def errno_defs Let_def
      split: option.splits)

lemma sim_kernel_stable: "region_stable sim_kernel f"
  by (auto simp: region_stable_def sim_kernel_def)

definition machine0 :: machine where
  "machine0 = \<lparr>bufs = Map.empty, resident = (\<lambda>_. Map.empty), mallocd = {}, kst = 0\<rparr>"

end
