(* ===== verification/Extern_RAM.thy ===== *)
theory Extern_RAM
  imports Machine
begin

text \<open>
  The remote key-value store: the abstract class \<^verbatim>\<open>externRAMClient\<close>, its C interface
  \<^verbatim>\<open>lib/externram/externRAMClientWrapper.cc\<close>, and the implementation the repository has in full, the
  in-process store of \<^verbatim>\<open>lib/externram/noop\<close>. The virtual functions are the fields of a record
  \<open>backend\<close>; the type variable is the state of one client object. The locale \<open>extern_ram\<close> is the
  contract the fault handler relies on, interpreted for the in-process store.
\<close>

section \<open>The interface\<close>

definition MAX_MULTI_READ :: nat where "MAX_MULTI_READ = 200"

record 'c backend =
  er_create :: "int \<Rightarrow> string \<Rightarrow> u64 \<Rightarrow> 'c option"
  er_write :: "u64 \<Rightarrow> ptr \<Rightarrow> int \<Rightarrow> machine \<times> 'c \<Rightarrow> (ptr \<times> int \<times> machine \<times> 'c) option"
  er_read :: "u64 \<Rightarrow> ptr \<Rightarrow> machine \<times> 'c \<Rightarrow> (int \<times> ptr \<times> machine \<times> 'c) option"
  er_multiRead :: "u64 list \<Rightarrow> int \<Rightarrow> ptr list \<Rightarrow> int list \<Rightarrow> machine \<times> 'c
     \<Rightarrow> (int \<times> ptr list \<times> int list \<times> machine \<times> 'c) option"
  er_multiWrite :: "u64 list \<Rightarrow> int \<Rightarrow> ptr list \<Rightarrow> int list \<Rightarrow> machine \<times> 'c
     \<Rightarrow> (bool \<times> int \<times> ptr list \<times> machine \<times> 'c) option"
  er_remove :: "u64 \<Rightarrow> machine \<times> 'c \<Rightarrow> (int \<times> machine \<times> 'c) option"
  er_read_top :: "u64 \<Rightarrow> ptr \<Rightarrow> machine \<times> 'c \<Rightarrow> (machine \<times> 'c) option"
  er_read_bottom :: "u64 \<Rightarrow> ptr \<Rightarrow> machine \<times> 'c \<Rightarrow> (int \<times> ptr \<times> machine \<times> 'c) option"
  er_multiRead_top :: "u64 list \<Rightarrow> int \<Rightarrow> machine \<times> 'c \<Rightarrow> (machine \<times> 'c) option"
  er_multiRead_bottom :: "u64 list \<Rightarrow> int \<Rightarrow> ptr list \<Rightarrow> int list \<Rightarrow> machine \<times> 'c
     \<Rightarrow> (int \<times> ptr list \<times> int list \<times> machine \<times> 'c) option"
  er_isFull :: "u64 \<Rightarrow> 'c \<Rightarrow> bool option"
  er_isFullAll :: "'c \<Rightarrow> bool option"
  er_reported :: "'c \<Rightarrow> bool"

text \<open>
  \<open>er_reported\<close> is no function of the class: it says whether an operation on the object has called
  \<^verbatim>\<open>log_err\<close>, which raises \<^verbatim>\<open>SIGINT\<close>.
\<close>

section \<open>The C interface\<close>

definition NUM_ERRORS_TO_CHECK_ISFULL :: nat where
  "NUM_ERRORS_TO_CHECK_ISFULL = 10"

text \<open>
  The write functions repeat until the backend reports no error; a store that keeps reporting one keeps
  them from returning, which is the value \<open>None\<close>. Before every tenth repetition they ask whether the
  store is full, and print a line if it is: the macro \<^verbatim>\<open>log_recoverable_err\<close> of this file is a \<^verbatim>\<open>fprintf\<close>
  and raises no signal. The line and the second of sleep are left out, and the counter does not wrap.
  A call of the backend is \<open>None\<close> when it does not return or is undefined.
\<close>

definition check_full :: "nat \<Rightarrow> bool option \<Rightarrow> bool option" where
  "check_full cnt full = (if cnt mod NUM_ERRORS_TO_CHECK_ISFULL = 0 then full else Some False)"

partial_function (option) writePage_loop ::
  "'c backend \<Rightarrow> u64 \<Rightarrow> ptr \<Rightarrow> nat \<Rightarrow> machine \<times> 'c \<Rightarrow> (ptr \<times> machine \<times> 'c) option" where
  "writePage_loop B key value cnt s =
     Option.bind (er_write B key value 4096 s) (\<lambda>(ret, err, s1).
        if err < 0
        then Option.bind (check_full cnt (er_isFull B key (snd s1))) (\<lambda>_. writePage_loop B key value (Suc cnt) s1)
        else Some (ret, s1))"

definition writePage :: "'c backend \<Rightarrow> u64 \<Rightarrow> ptr \<Rightarrow> machine \<times> 'c \<Rightarrow> (ptr \<times> machine \<times> 'c) option" where
  "writePage B key value s = writePage_loop B key value 0 s"

partial_function (option) writePages_loop ::
  "'c backend \<Rightarrow> u64 list \<Rightarrow> int \<Rightarrow> ptr list \<Rightarrow> int list \<Rightarrow> nat \<Rightarrow> machine \<times> 'c
     \<Rightarrow> (bool \<times> ptr list \<times> machine \<times> 'c) option" where
  "writePages_loop B keys num_write data lengths cnt s =
     Option.bind (er_multiWrite B keys num_write data lengths s) (\<lambda>(ret, err, data1, s1).
        if err < 0
        then Option.bind (check_full cnt (er_isFullAll B (snd s1))) (\<lambda>_.
               writePages_loop B keys num_write data1 lengths (Suc cnt) s1)
        else Some (ret, data1, s1))"

definition writePages ::
  "'c backend \<Rightarrow> u64 list \<Rightarrow> int \<Rightarrow> ptr list \<Rightarrow> int list \<Rightarrow> machine \<times> 'c
     \<Rightarrow> (bool \<times> ptr list \<times> machine \<times> 'c) option" where
  "writePages B keys num_write data lengths s = writePages_loop B keys num_write data lengths 0 s"

definition removePage :: "'c backend \<Rightarrow> u64 \<Rightarrow> machine \<times> 'c \<Rightarrow> (int \<times> machine \<times> 'c) option" where
  "removePage B key s = er_remove B key s"

definition readPage :: "'c backend \<Rightarrow> u64 \<Rightarrow> ptr \<Rightarrow> machine \<times> 'c \<Rightarrow> (int \<times> ptr \<times> machine \<times> 'c) option" where
  "readPage B key recvBuf s = er_read B key recvBuf s"

definition readPages :: "'c backend \<Rightarrow> u64 list \<Rightarrow> int \<Rightarrow> ptr list \<Rightarrow> int list \<Rightarrow> machine \<times> 'c
     \<Rightarrow> (ptr list \<times> int list \<times> machine \<times> 'c) option" where
  "readPages B keys num_prefetch recvBufs lengths s = do {
     (rc, bufs1, lens1, s1) \<leftarrow> er_multiRead B keys num_prefetch recvBufs lengths s;
     Some (bufs1, lens1, s1)
   }"

definition readPage_top :: "'c backend \<Rightarrow> u64 \<Rightarrow> ptr \<Rightarrow> machine \<times> 'c \<Rightarrow> (machine \<times> 'c) option" where
  "readPage_top B key recvBuf s = er_read_top B key recvBuf s"

definition readPage_bottom ::
  "'c backend \<Rightarrow> u64 \<Rightarrow> ptr \<Rightarrow> machine \<times> 'c \<Rightarrow> (int \<times> ptr \<times> machine \<times> 'c) option" where
  "readPage_bottom B key recvBuf s = er_read_bottom B key recvBuf s"

definition readPages_top :: "'c backend \<Rightarrow> u64 list \<Rightarrow> int \<Rightarrow> machine \<times> 'c \<Rightarrow> (machine \<times> 'c) option" where
  "readPages_top B keys num_prefetch s = er_multiRead_top B keys num_prefetch s"

definition readPages_bottom :: "'c backend \<Rightarrow> u64 list \<Rightarrow> int \<Rightarrow> ptr list \<Rightarrow> int list
     \<Rightarrow> machine \<times> 'c \<Rightarrow> (int \<times> ptr list \<times> int list \<times> machine \<times> 'c) option" where
  "readPages_bottom B keys num_prefetch recvBufs lengths s =
     er_multiRead_bottom B keys num_prefetch recvBufs lengths s"

text \<open>A store is not full unless its class says otherwise.\<close>

definition base_isFull :: "u64 \<Rightarrow> 'c \<Rightarrow> bool option" where
  "base_isFull key c = Some False"

definition base_isFullAll :: "'c \<Rightarrow> bool option" where
  "base_isFullAll c = Some False"

section \<open>The in-process store (noop/externRAMClientImpl.cc)\<close>

text \<open>
  The map from keys to buffers. The mutex of the class is taken and released inside each operation.
\<close>

record noop_client =
  kv :: "u64 \<Rightarrow> ptr option"

definition noop_new :: noop_client where
  "noop_new = \<lparr>kv = Map.empty\<rparr>"

definition noop_write :: "u64 \<Rightarrow> ptr \<Rightarrow> int \<Rightarrow> machine \<times> noop_client
     \<Rightarrow> (ptr \<times> int \<times> machine \<times> noop_client) option" where
  "noop_write key value sz = (\<lambda>(M, c).
     case kv c key of
       Some old \<Rightarrow> Some (old, 0, M, c\<lparr>kv := (kv c)(key \<mapsto> value)\<rparr>)
     | None \<Rightarrow> Some (NULL, 0, M, c\<lparr>kv := (kv c)(key \<mapsto> value)\<rparr>))"

definition noop_read :: "u64 \<Rightarrow> ptr \<Rightarrow> machine \<times> noop_client
     \<Rightarrow> (int \<times> ptr \<times> machine \<times> noop_client) option" where
  "noop_read key value = (\<lambda>(M, c).
     case kv c key of
       Some b \<Rightarrow> Some (4096, b, M, c)
     | None \<Rightarrow> Some (0, value, M, c))"

definition noop_read_top :: "u64 \<Rightarrow> ptr \<Rightarrow> machine \<times> noop_client \<Rightarrow> (machine \<times> noop_client) option" where
  "noop_read_top key value s = Some s"

definition noop_read_bottom :: "u64 \<Rightarrow> ptr \<Rightarrow> machine \<times> noop_client
     \<Rightarrow> (int \<times> ptr \<times> machine \<times> noop_client) option" where
  "noop_read_bottom key value s = noop_read key value s"

text \<open>The loops run over the indices; an index outside one of the arrays is undefined.\<close>

fun noop_multiRead_loop :: "u64 list \<Rightarrow> nat list \<Rightarrow> int \<Rightarrow> ptr list \<Rightarrow> int list
     \<Rightarrow> machine \<times> noop_client \<Rightarrow> (int \<times> ptr list \<times> int list \<times> machine \<times> noop_client) option" where
  "noop_multiRead_loop hs [] rc recvBufs lengths s = Some (rc, recvBufs, lengths, s)"
| "noop_multiRead_loop hs (i # is) rc recvBufs lengths s =
     (if i < length hs \<and> i < length recvBufs \<and> i < length lengths
      then Option.bind (noop_read (hs ! i) (recvBufs ! i) s) (\<lambda>(len, b, s1).
             noop_multiRead_loop hs is (if len \<le> 0 then rc - 1 else rc)
               (recvBufs[i := b]) (lengths[i := len]) s1)
      else None)"

definition noop_multiRead :: "u64 list \<Rightarrow> int \<Rightarrow> ptr list \<Rightarrow> int list
     \<Rightarrow> machine \<times> noop_client \<Rightarrow> (int \<times> ptr list \<times> int list \<times> machine \<times> noop_client) option" where
  "noop_multiRead hs num_prefetch recvBufs lengths s =
     noop_multiRead_loop hs [0..<nat num_prefetch] num_prefetch recvBufs lengths s"

definition noop_multiRead_top :: "u64 list \<Rightarrow> int \<Rightarrow> machine \<times> noop_client
     \<Rightarrow> (machine \<times> noop_client) option" where
  "noop_multiRead_top hs num_prefetch s = Some s"

definition noop_multiRead_bottom :: "u64 list \<Rightarrow> int \<Rightarrow> ptr list \<Rightarrow> int list
     \<Rightarrow> machine \<times> noop_client \<Rightarrow> (int \<times> ptr list \<times> int list \<times> machine \<times> noop_client) option" where
  "noop_multiRead_bottom hs num_prefetch recvBufs lengths s =
     noop_multiRead_loop hs [0..<nat num_prefetch] num_prefetch recvBufs lengths s"

fun noop_multiWrite_loop :: "u64 list \<Rightarrow> nat list \<Rightarrow> bool \<Rightarrow> int \<Rightarrow> ptr list \<Rightarrow> int list
     \<Rightarrow> machine \<times> noop_client \<Rightarrow> (bool \<times> int \<times> ptr list \<times> machine \<times> noop_client) option" where
  "noop_multiWrite_loop hs [] should_free err data lengths s = Some (should_free, err, data, s)"
| "noop_multiWrite_loop hs (i # is) should_free err data lengths s =
     (if i < length hs \<and> i < length data \<and> i < length lengths
      then Option.bind (noop_write (hs ! i) (data ! i) (lengths ! i) s) (\<lambda>(ret_addr, read_err, s1).
             noop_multiWrite_loop hs is (should_free \<or> ret_addr \<noteq> NULL)
               (if read_err < 0 then read_err else err) (data[i := ret_addr]) lengths s1)
      else None)"

definition noop_multiWrite :: "u64 list \<Rightarrow> int \<Rightarrow> ptr list \<Rightarrow> int list
     \<Rightarrow> machine \<times> noop_client \<Rightarrow> (bool \<times> int \<times> ptr list \<times> machine \<times> noop_client) option" where
  "noop_multiWrite hs num_write data lengths s =
     noop_multiWrite_loop hs [0..<nat num_write] False 0 data lengths s"

definition noop_remove :: "kernel \<Rightarrow> u64 \<Rightarrow> machine \<times> noop_client
     \<Rightarrow> (int \<times> machine \<times> noop_client) option" where
  "noop_remove K key = (\<lambda>(M, c).
     case kv c key of
       Some b \<Rightarrow> Some (1, snd (k_munmap K b M), c\<lparr>kv := (kv c)(key := None)\<rparr>)
     | None \<Rightarrow> Some (0, M, c))"

definition noop_backend :: "kernel \<Rightarrow> noop_client backend" where
  "noop_backend K = \<lparr>
     er_create = (\<lambda>type config upid. Some noop_new),
     er_write = noop_write,
     er_read = noop_read,
     er_multiRead = noop_multiRead,
     er_multiWrite = noop_multiWrite,
     er_remove = noop_remove K,
     er_read_top = noop_read_top,
     er_read_bottom = noop_read_bottom,
     er_multiRead_top = noop_multiRead_top,
     er_multiRead_bottom = noop_multiRead_bottom,
     er_isFull = base_isFull,
     er_isFullAll = base_isFullAll,
     er_reported = (\<lambda>c. False)\<rparr>"

section \<open>The contract\<close>

text \<open>
  What a store demands of its callers: the keys and the pages it can handle, and whether it copies a
  page it reads into the caller's buffer, which must then be a buffer of the caller.
\<close>

record demands =
  key_ok :: "u64 \<Rightarrow> bool"
  page_ok :: "page \<Rightarrow> bool"
  copies :: bool

text \<open>
  A store that keeps the pages it is given: \<open>content\<close> is what it holds, \<open>owns\<close> are the buffers it
  keeps, \<open>client_ok\<close> its well-formedness. Its contents depend on the machine only through the buffers
  it owns. A write takes the new buffer over and may hand one back, which it then no longer owns; a
  read returns a buffer with the contents, its own or the one of the caller, or the length 0. It may
  change the buffers the store owns and give it fresh ones, but no buffer of anybody else.
\<close>

locale extern_ram =
  fixes K :: kernel
    and B :: "'c backend"
    and content :: "machine \<Rightarrow> 'c \<Rightarrow> u64 \<Rightarrow> page option"
    and owns :: "'c \<Rightarrow> ptr set"
    and client_ok :: "machine \<Rightarrow> 'c \<Rightarrow> bool"
    and D :: demands
  assumes owns_mapped: "client_ok M c \<Longrightarrow> p \<in> owns c \<Longrightarrow> bufs M p \<noteq> None \<and> p \<noteq> NULL"
    and client_frame: "client_ok M c \<Longrightarrow> (\<And>p. p \<in> owns c \<Longrightarrow> bufs M' p = bufs M p) \<Longrightarrow>
           client_ok M' c \<and> content M' c = content M c"
    and zero_page_ok: "page_ok D zero_page"
    and content_page: "client_ok M c \<Longrightarrow> content M c k = Some pg \<Longrightarrow> page_ok D pg"
    and write_ok: "client_ok M c \<Longrightarrow> key_ok D k \<Longrightarrow> page_ok D pg \<Longrightarrow> bufs M v = Some pg \<Longrightarrow> v \<noteq> NULL \<Longrightarrow> v \<notin> owns c \<Longrightarrow>
           \<exists>ret c'. er_write B k v 4096 (M, c) = Some (ret, 0, M, c') \<and> client_ok M c'
             \<and> content M c' = (content M c)(k \<mapsto> pg) \<and> owns c' \<subseteq> insert v (owns c)
             \<and> (ret \<noteq> NULL \<longrightarrow> ret \<in> insert v (owns c) \<and> ret \<notin> owns c')"
    and read_ok: "client_ok M c \<Longrightarrow> key_ok D k \<Longrightarrow> (copies D \<Longrightarrow> (\<exists>old. bufs M v = Some old \<and> page_ok D old) \<and> v \<notin> owns c) \<Longrightarrow>
           \<exists>len v' M' c'. er_read B k v (M, c) = Some (len, v', M', c') \<and> client_ok M' c'
             \<and> content M' c' = content M c \<and> resident M' = resident M
             \<and> (\<forall>p. p \<notin> owns c \<longrightarrow> p \<notin> owns c' \<longrightarrow> copies D \<and> p = v \<or> bufs M' p = bufs M p)
             \<and> (\<forall>p \<in> owns c' - owns c. bufs M p = None \<and> p \<noteq> MAP_FAILED)
             \<and> (copies D \<longrightarrow> v' = v \<and> (\<exists>new. bufs M' v = Some new \<and> page_ok D new))
             \<and> (case content M c k of None \<Rightarrow> len = 0 | Some pg \<Rightarrow> len = 4096 \<and> bufs M' v' = Some pg)"
begin

lemma writePage_ok:
  assumes "client_ok M c" "key_ok D k" "page_ok D pg" "bufs M v = Some pg" "v \<noteq> NULL" "v \<notin> owns c"
  obtains ret c' where "writePage B k v (M, c) = Some (ret, M, c')" "client_ok M c'"
    "content M c' = (content M c)(k \<mapsto> pg)" "owns c' \<subseteq> insert v (owns c)"
    "ret \<noteq> NULL \<Longrightarrow> ret \<in> insert v (owns c) \<and> ret \<notin> owns c'"
  using write_ok [OF assms] by (auto simp: writePage_def writePage_loop.simps)

lemma readPage_ok:
  assumes "client_ok M c" "key_ok D k" "copies D \<Longrightarrow> (\<exists>old. bufs M v = Some old \<and> page_ok D old) \<and> v \<notin> owns c"
  obtains len v' M' c' where "readPage B k v (M, c) = Some (len, v', M', c')" "client_ok M' c'"
    "content M' c' = content M c" "resident M' = resident M"
    "\<forall>p. p \<notin> owns c \<longrightarrow> p \<notin> owns c' \<longrightarrow> copies D \<and> p = v \<or> bufs M' p = bufs M p"
    "\<forall>p \<in> owns c'. p \<in> owns c \<or> bufs M p = None \<and> p \<noteq> MAP_FAILED"
    "copies D \<longrightarrow> v' = v \<and> (\<exists>new. bufs M' v = Some new \<and> page_ok D new)"
    "len = 4096 \<and> bufs M' v' = content M c k \<and> content M c k \<noteq> None \<or> len = 0 \<and> content M c k = None"
proof -
  obtain len v' M' c' where r: "er_read B k v (M, c) = Some (len, v', M', c')" "client_ok M' c'"
    "content M' c' = content M c" "resident M' = resident M"
    "\<forall>p. p \<notin> owns c \<longrightarrow> p \<notin> owns c' \<longrightarrow> copies D \<and> p = v \<or> bufs M' p = bufs M p"
    "\<forall>p \<in> owns c' - owns c. bufs M p = None \<and> p \<noteq> MAP_FAILED"
    "copies D \<longrightarrow> v' = v \<and> (\<exists>new. bufs M' v = Some new \<and> page_ok D new)"
    "case content M c k of None \<Rightarrow> len = 0 | Some pg \<Rightarrow> len = 4096 \<and> bufs M' v' = Some pg"
    using read_ok [OF assms] by metis
  show thesis
    by (rule that [of len v' M' c']) (use r in \<open>auto simp: readPage_def split: option.splits\<close>)
qed

end

definition no_demands :: demands where
  "no_demands = \<lparr>key_ok = (\<lambda>k. True), page_ok = (\<lambda>pg. True), copies = False\<rparr>"

lemma no_demands_simps [simp]: "key_ok no_demands k" "page_ok no_demands pg" "\<not> copies no_demands"
  by (simp_all add: no_demands_def)

definition noop_content :: "machine \<Rightarrow> noop_client \<Rightarrow> u64 \<Rightarrow> page option" where
  "noop_content M c k = Option.bind (kv c k) (bufs M)"

definition noop_owns :: "noop_client \<Rightarrow> ptr set" where
  "noop_owns c = ran (kv c)"

definition noop_ok :: "machine \<Rightarrow> noop_client \<Rightarrow> bool" where
  "noop_ok M c \<longleftrightarrow> inj_on (kv c) (dom (kv c)) \<and> (\<forall>p \<in> ran (kv c). bufs M p \<noteq> None \<and> p \<noteq> NULL)"

lemma noop_ok_unique: "noop_ok M c \<Longrightarrow> kv c k = Some p \<Longrightarrow> kv c k' = Some p \<Longrightarrow> k = k'"
  by (auto simp: noop_ok_def inj_on_def dom_def)

lemma noop_ok_update:
  assumes "noop_ok M c" "bufs M v = Some pg" "v \<noteq> NULL" "v \<notin> noop_owns c"
  shows "noop_ok M (c\<lparr>kv := (kv c)(k \<mapsto> v)\<rparr>)"
    and "noop_content M (c\<lparr>kv := (kv c)(k \<mapsto> v)\<rparr>) = (noop_content M c)(k \<mapsto> pg)"
proof -
  have "v \<notin> ran (kv c)" using assms(4) by (simp add: noop_owns_def)
  then have "inj_on ((kv c)(k \<mapsto> v)) (insert k (dom (kv c)))"
    using assms(1) by (auto simp: noop_ok_def inj_on_def ran_def)
  moreover have "ran ((kv c)(k \<mapsto> v)) \<subseteq> insert v (ran (kv c))" by (auto simp: ran_def)
  ultimately show "noop_ok M (c\<lparr>kv := (kv c)(k \<mapsto> v)\<rparr>)"
    using assms by (auto simp: noop_ok_def)
  show "noop_content M (c\<lparr>kv := (kv c)(k \<mapsto> v)\<rparr>) = (noop_content M c)(k \<mapsto> pg)"
    using assms(2) by (auto simp: noop_content_def)
qed

lemma noop_write_old:
  assumes "noop_ok M c" "kv c k = Some old" "v \<noteq> old"
  shows "old \<notin> ran ((kv c)(k \<mapsto> v))"
  using assms noop_ok_unique [OF assms(1), of _ old] by (auto simp: ran_def)

interpretation noop: extern_ram K "noop_backend K" noop_content noop_owns noop_ok no_demands for K
proof unfold_locales
  fix M M' :: machine and c :: noop_client
  assume "noop_ok M c" "\<And>p. p \<in> noop_owns c \<Longrightarrow> bufs M' p = bufs M p"
  then show "noop_ok M' c \<and> noop_content M' c = noop_content M c"
    by (auto simp: noop_ok_def noop_content_def noop_owns_def fun_eq_iff ran_def
        split: Option.bind_splits)
next
  fix M :: machine and c :: noop_client and v pg k
  assume a: "noop_ok M c" "bufs M v = Some pg" "v \<noteq> NULL" "v \<notin> noop_owns c"
  have "ran ((kv c)(k \<mapsto> v)) \<subseteq> insert v (ran (kv c))" by (auto simp: ran_def)
  moreover have "old \<notin> ran ((kv c)(k \<mapsto> v)) \<and> old \<in> ran (kv c)" if "kv c k = Some old" for old
  proof
    have "old \<in> ran (kv c)" using that by (rule ranI)
    then show "old \<notin> ran ((kv c)(k \<mapsto> v))" using noop_write_old [OF a(1) that, of v] a(4)
      by (auto simp: noop_owns_def)
    show "old \<in> ran (kv c)" using that by (rule ranI)
  qed
  ultimately show "\<exists>ret c'. er_write (noop_backend K) k v 4096 (M, c) = Some (ret, 0, M, c') \<and> noop_ok M c'
     \<and> noop_content M c' = (noop_content M c)(k \<mapsto> pg) \<and> noop_owns c' \<subseteq> insert v (noop_owns c)
     \<and> (ret \<noteq> NULL \<longrightarrow> ret \<in> insert v (noop_owns c) \<and> ret \<notin> noop_owns c')"
    using noop_ok_update [OF a] by (auto simp: noop_backend_def noop_write_def noop_owns_def
        split: option.splits)
next
  fix M :: machine and c :: noop_client and k v
  assume "noop_ok M c"
  then show "\<exists>len v' M' c'. er_read (noop_backend K) k v (M, c) = Some (len, v', M', c') \<and> noop_ok M' c'
     \<and> noop_content M' c' = noop_content M c \<and> resident M' = resident M
     \<and> (\<forall>p. p \<notin> noop_owns c \<longrightarrow> p \<notin> noop_owns c' \<longrightarrow> copies no_demands \<and> p = v \<or> bufs M' p = bufs M p)
     \<and> (\<forall>p \<in> noop_owns c' - noop_owns c. bufs M p = None \<and> p \<noteq> MAP_FAILED)
     \<and> (copies no_demands \<longrightarrow> v' = v \<and> (\<exists>new. bufs M' v = Some new \<and> page_ok no_demands new))
     \<and> (case noop_content M c k of None \<Rightarrow> len = 0 | Some pg \<Rightarrow> len = 4096 \<and> bufs M' v' = Some pg)"
    by (auto simp: noop_backend_def noop_read_def noop_content_def noop_ok_def ran_def
        split: option.splits)
qed (auto simp: noop_ok_def noop_owns_def)

end
