(* ===== verification/Fd_Upid_Map.thy ===== *)
theory Fd_Upid_Map
  imports Uthash Extern_RAM
begin

text \<open>
  \<^verbatim>\<open>include/upid.h\<close>: the map from user fault descriptors to the cluster-wide process identifier (upid)
  and the client object of the remote store, the hash that gives a node its identifier, and the
  layout of a upid (16 bits of node, 32 bits of process, 16 bits of counter) as \<^verbatim>\<open>userfault.c\<close> builds
  and reads it.
\<close>

section \<open>Client objects\<close>

text \<open>
  Client objects are allocated with \<^verbatim>\<open>new\<close> and never freed. The objects are a list; the pointer to the
  object at position \<open>i\<close> is \<open>i + 1\<close>, so that no object is at \<^verbatim>\<open>NULL\<close>.
\<close>

definition client_get :: "'c list \<Rightarrow> ptr \<Rightarrow> 'c option" where
  "client_get cs p = (if p = NULL \<or> length cs < unat p then None else Some (cs ! (unat p - 1)))"

definition client_set :: "ptr \<Rightarrow> 'c \<Rightarrow> 'c list \<Rightarrow> 'c list" where
  "client_set p c cs = cs[unat p - 1 := c]"

definition newExternRAMClient ::
  "'c backend \<Rightarrow> int \<Rightarrow> string \<Rightarrow> u64 \<Rightarrow> 'c list \<Rightarrow> ptr \<times> 'c list" where
  "newExternRAMClient B type config upid cs =
     (case er_create B type config upid of
        None \<Rightarrow> (NULL, cs)
      | Some c \<Rightarrow> (word_of_nat (Suc (length cs)), cs @ [c]))"

section \<open>The descriptor map\<close>

record map_struct =
  ms_fd :: fd
  ms_upid :: u64
  ms_client :: ptr

definition fd_map_add :: "map_struct \<Rightarrow> map_struct list \<Rightarrow> map_struct list" where
  "fd_map_add s m = m @ [s]"

text \<open>Each function but \<^verbatim>\<open>del_fd_from_map\<close> takes and releases \<^verbatim>\<open>fdUpidMap_lock\<close>.\<close>

definition add_upid_in_map :: "fd \<Rightarrow> u64 \<Rightarrow> locks \<Rightarrow> map_struct list \<Rightarrow> map_struct list option" where
  "add_upid_in_map fd upid H m = do {
     H1 \<leftarrow> mutex_lock fdUpidMap_lock H;
     let m1 = fd_map_add \<lparr>ms_fd = fd, ms_upid = upid, ms_client = NULL\<rparr> m;
     H2 \<leftarrow> mutex_unlock fdUpidMap_lock H1;
     Some m1
   }"

definition get_upid_by_fd :: "fd \<Rightarrow> locks \<Rightarrow> map_struct list \<Rightarrow> u64 option" where
  "get_upid_by_fd fd H m = do {
     H1 \<leftarrow> mutex_lock fdUpidMap_lock H;
     let s = hash_find ms_fd fd m;
     H2 \<leftarrow> mutex_unlock fdUpidMap_lock H1;
     Some (case s of None \<Rightarrow> 0 | Some e \<Rightarrow> ms_upid e)
   }"

definition get_client_by_fd :: "fd \<Rightarrow> locks \<Rightarrow> map_struct list \<Rightarrow> ptr option" where
  "get_client_by_fd fd H m = do {
     H1 \<leftarrow> mutex_lock fdUpidMap_lock H;
     let s = hash_find ms_fd fd m;
     H2 \<leftarrow> mutex_unlock fdUpidMap_lock H1;
     Some (case s of None \<Rightarrow> NULL | Some e \<Rightarrow> ms_client e)
   }"

text \<open>The deletion loop keeps the successor before it deletes the current entry.\<close>

fun del_all :: "map_struct list \<Rightarrow> map_struct list \<Rightarrow> map_struct list" where
  "del_all [] m = m"
| "del_all (s # ss) m = del_all ss (hash_delete ms_fd (ms_fd s) m)"

definition del_fd_upid_map :: "locks \<Rightarrow> map_struct list \<Rightarrow> map_struct list option" where
  "del_fd_upid_map H m = do {
     H1 \<leftarrow> mutex_lock fdUpidMap_lock H;
     let m1 = del_all m m;
     H2 \<leftarrow> mutex_unlock fdUpidMap_lock H1;
     Some m1
   }"

definition del_fd_from_map :: "fd \<Rightarrow> map_struct list \<Rightarrow> int \<times> map_struct list" where
  "del_fd_from_map fd m =
     (case hash_find ms_fd fd m of
        None \<Rightarrow> (-1, m)
      | Some _ \<Rightarrow> (0, hash_delete ms_fd fd m))"

text \<open>The assignment to the field of the entry that \<^verbatim>\<open>HASH_FIND_INT\<close> returned.\<close>

fun upd_first :: "('a \<Rightarrow> bool) \<Rightarrow> ('a \<Rightarrow> 'a) \<Rightarrow> 'a list \<Rightarrow> 'a list" where
  "upd_first P f [] = []"
| "upd_first P f (x # xs) = (if P x then f x # xs else x # upd_first P f xs)"

definition set_client :: "fd \<Rightarrow> ptr \<Rightarrow> map_struct list \<Rightarrow> map_struct list" where
  "set_client fd c m = rev (upd_first (\<lambda>s. ms_fd s = fd) (\<lambda>s. s\<lparr>ms_client := c\<rparr>) (rev m))"

definition ramcloud_impl :: int where
  "ramcloud_impl = 0"

text \<open>The last component of the result says whether the failure to create a client was logged.\<close>

definition register_with_externram :: "'c backend \<Rightarrow> string \<Rightarrow> fd \<Rightarrow> locks
     \<Rightarrow> map_struct list \<times> 'c list \<Rightarrow> (int \<times> (map_struct list \<times> 'c list) \<times> bool) option" where
  "register_with_externram B config fd H = (\<lambda>(m, cs). do {
     H1 \<leftarrow> mutex_lock fdUpidMap_lock H;
     let r = (case hash_find ms_fd fd m of
          None \<Rightarrow> (-1, (m, cs), False)
        | Some s \<Rightarrow>
            (case newExternRAMClient B ramcloud_impl config (ms_upid s) cs of
               (c, cs1) \<Rightarrow> (if c = NULL then -1 else 0, (set_client fd c m, cs1), c = NULL)));
     H2 \<leftarrow> mutex_unlock fdUpidMap_lock H1;
     Some r
   })"

interpretation fdmap: hash_table ms_fd fd_map_add "hash_find ms_fd" "hash_delete ms_fd"
  by unfold_locales (simp_all add: fd_map_add_def hash_find_iff hash_delete_drop)

section \<open>Node identifiers\<close>

text \<open>\<^verbatim>\<open>char\<close> is signed: a byte of the key is sign-extended before it is added.\<close>

fun jenkins_loop :: "u8 list \<Rightarrow> u32 \<Rightarrow> u32" where
  "jenkins_loop [] hash = hash"
| "jenkins_loop (b # bs) hash =
     (let h1 = hash + scast b;
          h2 = h1 + push_bit 10 h1;
          h3 = h2 XOR drop_bit 6 h2
      in jenkins_loop bs h3)"

definition jenkins_hash :: "u8 list \<Rightarrow> u32" where
  "jenkins_hash key =
     (let hash = jenkins_loop key 0;
          h1 = hash + push_bit 3 hash;
          h2 = h1 XOR drop_bit 11 h1
      in h2 + push_bit 15 h2)"

text \<open>The argument is the line \<^verbatim>\<open>fgets\<close> read from \<^verbatim>\<open>/etc/machine-id\<close>; \<^verbatim>\<open>strlen\<close> stops at a zero byte.\<close>

definition get_node_id :: "u8 list \<Rightarrow> u16" where
  "get_node_id buff =
     (let nodeId = jenkins_hash (takeWhile (\<lambda>b. b \<noteq> 0) (take 254 buff))
      in ucast (drop_bit 16 (push_bit 16 nodeId XOR nodeId)))"

section \<open>Upids\<close>

text \<open>
  \<^verbatim>\<open>recv_fd\<close> stores node, process and counter at the byte offsets 0, 2 and 6 of an array of eight
  bytes and copies the array into a \<^verbatim>\<open>uint64_t\<close>; the readers copy it back. The machine is
  little-endian.
\<close>

definition upid_pack :: "u16 \<Rightarrow> u32 \<Rightarrow> u16 \<Rightarrow> u64" where
  "upid_pack node_id pid counter = ucast node_id OR push_bit 16 (ucast pid) OR push_bit 48 (ucast counter)"

definition upid_node :: "u64 \<Rightarrow> u16" where
  "upid_node upid = ucast upid"

definition upid_pid :: "u64 \<Rightarrow> u32" where
  "upid_pid upid = ucast (drop_bit 16 upid)"

definition upid_counter :: "u64 \<Rightarrow> u16" where
  "upid_counter upid = ucast (drop_bit 48 upid)"

text \<open>\<^verbatim>\<open>*upid\<close> for an array of bytes: its first byte, converted to the parameter type.\<close>

definition upid_deref :: "u64 \<Rightarrow> u64" where
  "upid_deref upid = ucast (ucast upid :: u8)"

section \<open>Lemmas\<close>

lemma upid_node_pack [simp]: "upid_node (upid_pack n p c) = n"
  by (rule bit_eqI) (auto simp: upid_node_def upid_pack_def bit_simps)

lemma upid_pid_pack [simp]: "upid_pid (upid_pack n p c) = p"
  by (rule bit_eqI) (auto simp: upid_pid_def upid_pack_def bit_simps dest: bit_imp_le_length)

lemma upid_counter_pack [simp]: "upid_counter (upid_pack n p c) = c"
  by (rule bit_eqI) (auto simp: upid_counter_def upid_pack_def bit_simps dest: bit_imp_le_length)

lemma get_client_by_fd_free:
  "fdUpidMap_lock \<notin> H \<Longrightarrow>
     get_client_by_fd f H m = Some (case hash_find ms_fd f m of None \<Rightarrow> NULL | Some e \<Rightarrow> ms_client e)"
  by (simp add: get_client_by_fd_def Let_def)

lemma client_get_NULL [simp]: "client_get cs NULL = None"
  by (simp add: client_get_def)

lemma client_get_set:
  assumes "client_get cs p = Some c0"
  shows "client_get (client_set p c cs) q = (if q = p then Some c else client_get cs q)"
proof -
  have p: "p \<noteq> NULL" "unat p \<le> length cs" using assms by (auto simp: client_get_def split: if_splits)
  have "0 < unat p" using p(1) by (metis gr0I unat_eq_zero)
  moreover have "0 < unat q" if "q \<noteq> NULL" using that by (metis gr0I unat_eq_zero)
  moreover have "unat p = unat q \<longleftrightarrow> p = q" by (rule word_unat_eq_iff [symmetric])
  ultimately show ?thesis using p
    by (auto simp: client_get_def client_set_def nth_list_update)
qed

end
