(* ===== verification/FM_State.thy ===== *)
theory FM_State
  imports LRU_Buffer Threaded_IO Fd_Upid_Map
begin

text \<open>
  The state the monitor's libraries share. The globals of \<^verbatim>\<open>userfault.c\<close>, \<^verbatim>\<open>threaded_io.h\<close>, \<^verbatim>\<open>upid.h\<close> and
  of the page cache are one record \<open>fm\<close>; the build options that change the code (\<^verbatim>\<open>configure.ac\<close>) are
  the record \<open>config\<close>; the record \<open>env\<close> collects what every operation takes as an argument. The
  option \<^verbatim>\<open>--enable-monitorstats\<close> is on and \<^verbatim>\<open>CACHE\<close> is defined; \<^verbatim>\<open>--enable-threadedreinit\<close> is off.
\<close>

section \<open>Build options\<close>

record config =
  PAGECACHE :: bool
  PAGECACHE_ZEROPAGE_OPTIMIZATION :: bool
  THREADED_WRITE_TO_EXTERNRAM :: bool
  THREADED_PREFETCH :: bool
  ASYNREAD :: bool

section \<open>Page cache data (PageCacheImpl.hh)\<close>

record page_cache_node =
  pcn_hashcode :: u64
  pcn_fd :: fd
  pcn_address :: ptr
  pcn_size :: int

record PageInfo =
  ref_count :: int
  ownership :: int
  is_zeropage :: bool

text \<open>
  \<open>pagehash\<close> is the unordered map of \<^verbatim>\<open>PageInfo\<close>s; its keys are the address and the descriptor packed
  into twelve bytes. The order of the list stands for the unspecified iteration order. \<open>prevAddr\<close> and
  \<open>numConseqAcc\<close> are the static variables of \<^verbatim>\<open>readPageIfInPageCache_top\<close>; \<open>prefetch_size\<close> and
  \<open>enable_prefetch\<close> are the command line options.
\<close>

record page_cache =
  pc_il :: "page_cache_node list"
  pc_max_num_items :: nat
  pagehash :: "((u64 \<times> fd) \<times> PageInfo) list"
  keys_for_mread :: "u64 list"
  bufs_for_mread :: "ptr list"
  lengths_for_mread :: "int list"
  numPrefetch :: int
  prevAddr :: u64
  numConseqAcc :: int
  prefetch_size :: int
  enable_prefetch :: bool

section \<open>The state\<close>

text \<open>
  \<open>fm_err\<close> is the flag \<^verbatim>\<open>fatal_error_in_progress\<close> of the monitor: \<^verbatim>\<open>log_err\<close> raises \<^verbatim>\<open>SIGINT\<close>, whose handler
  runs in the same thread and sets the flag, and then the caller of \<^verbatim>\<open>log_err\<close> goes on.
\<close>

record 'c fm =
  fm_lru :: lru_buffer
  fm_stats :: MonitorStats
  fm_pc :: page_cache
  fm_tio :: threaded_io
  fm_map :: "map_struct list"
  fm_clients :: "'c list"
  fm_mach :: machine
  fm_read_tmp_page :: ptr
  fm_locks :: locks
  fm_err :: bool

text \<open>
  \<open>e_wait_ufhandler\<close> is what the other threads do between the moment the fault handler blocks on
  \<^verbatim>\<open>ufhandler_sem\<close> and the moment it goes on, \<open>e_wait_flushed\<close> the same for \<^verbatim>\<open>flushed_write_sem\<close>;
  \<open>e_now\<close> is the clock and \<open>e_exit_on_recoverable\<close> the option that makes recoverable errors fatal.
\<close>

record 'c env =
  e_cfg :: config
  e_kernel :: kernel
  e_backend :: "'c backend"
  e_now :: timeval
  e_exit_on_recoverable :: bool
  e_wait_ufhandler :: "'c fm \<Rightarrow> 'c fm"
  e_wait_flushed :: "'c fm \<Rightarrow> 'c fm"

section \<open>Shared steps\<close>

text \<open>
  Of the handler, \<open>log_err\<close> has the flag. What else it does is in the theory of the monitor: the clean-up
  of the page cache follows at the end of the round of the poll loop in which the error was reported, and
  the threads it cancels are the result of \<open>fatal_error_signal\<close>. That it frees the statistics, which the
  reporting thread may still update, is left out.
\<close>

definition log_err :: "'c fm \<Rightarrow> 'c fm" where
  "log_err s = s\<lparr>fm_err := True\<rparr>"

definition log_recoverable_err :: "'c env \<Rightarrow> 'c fm \<Rightarrow> 'c fm" where
  "log_recoverable_err E s = (if e_exit_on_recoverable E then log_err s else s)"

definition lockS :: "lock \<Rightarrow> 'c fm \<Rightarrow> 'c fm option" where
  "lockS l s = map_option (\<lambda>H. s\<lparr>fm_locks := H\<rparr>) (mutex_lock l (fm_locks s))"

definition unlockS :: "lock \<Rightarrow> 'c fm \<Rightarrow> 'c fm option" where
  "unlockS l s = map_option (\<lambda>H. s\<lparr>fm_locks := H\<rparr>) (mutex_unlock l (fm_locks s))"

definition upd_stats :: "(MonitorStats \<Rightarrow> MonitorStats) \<Rightarrow> 'c fm \<Rightarrow> 'c fm" where
  "upd_stats f s = s\<lparr>fm_stats := f (fm_stats s)\<rparr>"

definition upd_tio :: "(threaded_io \<Rightarrow> threaded_io) \<Rightarrow> 'c fm \<Rightarrow> 'c fm" where
  "upd_tio f s = s\<lparr>fm_tio := f (fm_tio s)\<rparr>"

definition upd_pc :: "(page_cache \<Rightarrow> page_cache) \<Rightarrow> 'c fm \<Rightarrow> 'c fm" where
  "upd_pc f s = s\<lparr>fm_pc := f (fm_pc s)\<rparr>"

definition fm_client :: "fd \<Rightarrow> 'c fm \<Rightarrow> ptr option" where
  "fm_client f s = get_client_by_fd f (fm_locks s) (fm_map s)"

definition put_client :: "ptr \<Rightarrow> machine \<times> 'c \<Rightarrow> 'c fm \<Rightarrow> 'c fm" where
  "put_client p = (\<lambda>(M, c) s. s\<lparr>fm_mach := M, fm_clients := client_set p c (fm_clients s)\<rparr>)"

text \<open>A call through a client pointer; a pointer to no object is undefined.\<close>

definition fm_readPage :: "'c env \<Rightarrow> ptr \<Rightarrow> u64 \<Rightarrow> ptr \<Rightarrow> 'c fm \<Rightarrow> (int \<times> ptr \<times> 'c fm) option" where
  "fm_readPage E p key buf s = do {
     c \<leftarrow> client_get (fm_clients s) p;
     (len, b, mc) \<leftarrow> readPage (e_backend E) key buf (fm_mach s, c);
     Some (len, b, put_client p mc s)
   }"

definition fm_readPage_top :: "'c env \<Rightarrow> ptr \<Rightarrow> u64 \<Rightarrow> ptr \<Rightarrow> 'c fm \<Rightarrow> 'c fm option" where
  "fm_readPage_top E p key buf s = do {
     c \<leftarrow> client_get (fm_clients s) p;
     mc \<leftarrow> readPage_top (e_backend E) key buf (fm_mach s, c);
     Some (put_client p mc s)
   }"

definition fm_readPage_bottom ::
  "'c env \<Rightarrow> ptr \<Rightarrow> u64 \<Rightarrow> ptr \<Rightarrow> 'c fm \<Rightarrow> (int \<times> ptr \<times> 'c fm) option" where
  "fm_readPage_bottom E p key buf s = do {
     c \<leftarrow> client_get (fm_clients s) p;
     (len, b, mc) \<leftarrow> readPage_bottom (e_backend E) key buf (fm_mach s, c);
     Some (len, b, put_client p mc s)
   }"

definition fm_writePage :: "'c env \<Rightarrow> ptr \<Rightarrow> u64 \<Rightarrow> ptr \<Rightarrow> 'c fm \<Rightarrow> (ptr \<times> 'c fm) option" where
  "fm_writePage E p key buf s = do {
     c \<leftarrow> client_get (fm_clients s) p;
     (ret, mc) \<leftarrow> writePage (e_backend E) key buf (fm_mach s, c);
     Some (ret, put_client p mc s)
   }"

definition fm_removePage :: "'c env \<Rightarrow> ptr \<Rightarrow> u64 \<Rightarrow> 'c fm \<Rightarrow> (int \<times> 'c fm) option" where
  "fm_removePage E p key s = do {
     c \<leftarrow> client_get (fm_clients s) p;
     (ret, mc) \<leftarrow> removePage (e_backend E) key (fm_mach s, c);
     Some (ret, put_client p mc s)
   }"

definition fm_readPages :: "'c env \<Rightarrow> ptr \<Rightarrow> u64 list \<Rightarrow> int \<Rightarrow> ptr list \<Rightarrow> int list \<Rightarrow> 'c fm
     \<Rightarrow> (ptr list \<times> int list \<times> 'c fm) option" where
  "fm_readPages E p keys n buffers lens s = do {
     c \<leftarrow> client_get (fm_clients s) p;
     (bs, ls, mc) \<leftarrow> readPages (e_backend E) keys n buffers lens (fm_mach s, c);
     Some (bs, ls, put_client p mc s)
   }"

definition fm_readPages_top :: "'c env \<Rightarrow> ptr \<Rightarrow> u64 list \<Rightarrow> int \<Rightarrow> 'c fm \<Rightarrow> 'c fm option" where
  "fm_readPages_top E p keys n s = do {
     c \<leftarrow> client_get (fm_clients s) p;
     mc \<leftarrow> readPages_top (e_backend E) keys n (fm_mach s, c);
     Some (put_client p mc s)
   }"

definition fm_readPages_bottom :: "'c env \<Rightarrow> ptr \<Rightarrow> u64 list \<Rightarrow> int \<Rightarrow> ptr list \<Rightarrow> int list \<Rightarrow> 'c fm
     \<Rightarrow> (ptr list \<times> int list \<times> 'c fm) option" where
  "fm_readPages_bottom E p keys n buffers lens s = do {
     c \<leftarrow> client_get (fm_clients s) p;
     (rc, bs, ls, mc) \<leftarrow> readPages_bottom (e_backend E) keys n buffers lens (fm_mach s, c);
     Some (bs, ls, put_client p mc s)
   }"

definition fm_writePages :: "'c env \<Rightarrow> ptr \<Rightarrow> u64 list \<Rightarrow> int \<Rightarrow> ptr list \<Rightarrow> int list \<Rightarrow> 'c fm
     \<Rightarrow> (bool \<times> ptr list \<times> 'c fm) option" where
  "fm_writePages E p keys n buffers lens s = do {
     c \<leftarrow> client_get (fm_clients s) p;
     (ret, bs, mc) \<leftarrow> writePages (e_backend E) keys n buffers lens (fm_mach s, c);
     Some (ret, bs, put_client p mc s)
   }"

text \<open>\<^verbatim>\<open>munmap(addr, PAGE_SIZE)\<close> with the error report that follows each call.\<close>

definition fm_munmap :: "'c env \<Rightarrow> ptr \<Rightarrow> 'c fm \<Rightarrow> 'c fm" where
  "fm_munmap E p s =
     (case k_munmap (e_kernel E) p (fm_mach s) of
        (r, M') \<Rightarrow> (if r < 0 then log_err (s\<lparr>fm_mach := M'\<rparr>) else s\<lparr>fm_mach := M'\<rparr>))"

definition fm_free :: "ptr \<Rightarrow> 'c fm \<Rightarrow> 'c fm option" where
  "fm_free p s = map_option (\<lambda>M. s\<lparr>fm_mach := M\<rparr>) (c_free p (fm_mach s))"

lemmas fm_step_defs = lockS_def unlockS_def upd_stats_def upd_tio_def upd_pc_def log_err_def

end
