(* ===== verification/Page_Cache.thy ===== *)
theory Page_Cache
  imports FM_State "HOL-Library.AList"
begin

text \<open>
  The page cache, \<^verbatim>\<open>lib/pagecache/PageCacheImpl.hh\<close>, \<^verbatim>\<open>PageCacheImpl.cc\<close> and \<^verbatim>\<open>PageCacheWrapper.cc\<close>: the
  recency list of pages read ahead of a fault, the hash that records for every page seen where its
  newest version is (application, page cache or remote store), and the read path through them.
  Assertions are compiled out, as in a build without \<^verbatim>\<open>--enable-debug\<close>.
\<close>

definition OWNERSHIP_APPLICATION :: int where "OWNERSHIP_APPLICATION = 1"
definition OWNERSHIP_PAGE_CACHE :: int where "OWNERSHIP_PAGE_CACHE = 2"
definition OWNERSHIP_EXTERNRAM :: int where "OWNERSHIP_EXTERNRAM = 3"

lemmas ownership_defs =
  OWNERSHIP_APPLICATION_def OWNERSHIP_PAGE_CACHE_def OWNERSHIP_EXTERNRAM_def


section \<open>The recency list (class page\_cache\_lru\_list)\<close>

definition pcn_key :: "page_cache_node \<Rightarrow> u64 \<times> fd" where
  "pcn_key n = (pcn_hashcode n, pcn_fd n)"

definition pc_insert :: "page_cache_node \<Rightarrow> page_cache_node list \<Rightarrow> page_cache_node list" where
  "pc_insert item xs =
     (case List.find (\<lambda>y. pcn_key y = pcn_key item) xs of
        None \<Rightarrow> item # xs
      | Some y \<Rightarrow> y # del_first (\<lambda>z. pcn_key z = pcn_key item) xs)"

definition pc_isSizeExceeded :: "page_cache \<Rightarrow> bool" where
  "pc_isSizeExceeded p \<longleftrightarrow> pc_max_num_items p < length (pc_il p)"

definition pc_find :: "u64 \<times> fd \<Rightarrow> page_cache_node list \<Rightarrow> page_cache_node option" where
  "pc_find k xs = List.find (\<lambda>y. pcn_key y = k) xs"

definition pc_erase :: "u64 \<times> fd \<Rightarrow> page_cache_node list \<Rightarrow> page_cache_node list" where
  "pc_erase k xs =
     (case pc_find k xs of
        None \<Rightarrow> xs
      | Some _ \<Rightarrow> del_first (\<lambda>z. pcn_key z = k) xs)"

definition pc_modify :: "u64 \<Rightarrow> ptr \<Rightarrow> int \<Rightarrow> fd \<Rightarrow> page_cache_node list \<Rightarrow> page_cache_node list" where
  "pc_modify hashcode addr sz fd xs =
     upd_first (\<lambda>n. pcn_key n = (hashcode, fd)) (\<lambda>n. n\<lparr>pcn_address := addr, pcn_size := sz\<rparr>) xs"

definition pc_getSize :: "page_cache \<Rightarrow> int" where
  "pc_getSize p = int_of_size (length (pc_il p))"

text \<open>The constructor; the three arrays of a fresh object are not initialised and stand at zero here.\<close>

definition newPageCache :: "int \<Rightarrow> int \<Rightarrow> bool \<Rightarrow> page_cache" where
  "newPageCache page_cache_size pf_size pf =
     \<lparr>pc_il = [], pc_max_num_items = size_of_int page_cache_size, pagehash = [],
      keys_for_mread = replicate MAX_MULTI_READ 0, bufs_for_mread = replicate MAX_MULTI_READ 0,
      lengths_for_mread = replicate MAX_MULTI_READ 0, numPrefetch = 0, prevAddr = 0,
      numConseqAcc = 0, prefetch_size = pf_size, enable_prefetch = pf\<rparr>"

section \<open>The page hash\<close>

definition ph_find :: "u64 \<Rightarrow> fd \<Rightarrow> 'c fm \<Rightarrow> PageInfo option" where
  "ph_find hashcode fd s = map_of (pagehash (fm_pc s)) (hashcode, fd)"

definition ph_set :: "u64 \<Rightarrow> fd \<Rightarrow> PageInfo \<Rightarrow> 'c fm \<Rightarrow> 'c fm" where
  "ph_set hashcode fd pi s =
     upd_pc (\<lambda>p. p\<lparr>pagehash := AList.update (hashcode, fd) pi (pagehash p)\<rparr>) s"

text \<open>
  \<^verbatim>\<open>changeOwnership\<close> and \<^verbatim>\<open>changeOwnershipWithItr\<close>: the second takes the iterator the caller found, which
  is the entry of the caller's key.
\<close>

definition changeOwnership :: "u64 \<Rightarrow> fd \<Rightarrow> int \<Rightarrow> bool \<Rightarrow> 'c fm \<Rightarrow> 'c fm" where
  "changeOwnership hashcode fd own zero s =
     (case ph_find hashcode fd s of
        Some pi \<Rightarrow> ph_set hashcode fd (pi\<lparr>ownership := own, is_zeropage := zero\<rparr>) s
      | None \<Rightarrow> log_err s)"

definition changeOwnershipWithItr :: "u64 \<Rightarrow> fd \<Rightarrow> int \<Rightarrow> bool \<Rightarrow> 'c fm \<Rightarrow> 'c fm" where
  "changeOwnershipWithItr hashcode fd own zero s =
     (case ph_find hashcode fd s of
        Some pi \<Rightarrow> ph_set hashcode fd (pi\<lparr>ownership := own, is_zeropage := zero\<rparr>) s
      | None \<Rightarrow> log_err s)"

definition addPageHashNode :: "u64 \<Rightarrow> fd \<Rightarrow> int \<Rightarrow> 'c fm \<Rightarrow> 'c fm" where
  "addPageHashNode hashcode fd own s =
     ph_set hashcode fd \<lparr>ref_count = 0, ownership = own, is_zeropage = False\<rparr> s"

section \<open>Operations (class PageCacheImpl)\<close>

definition insertPageCacheNode :: "u64 \<Rightarrow> fd \<Rightarrow> ptr \<Rightarrow> int \<Rightarrow> 'c fm \<Rightarrow> 'c fm" where
  "insertPageCacheNode key fd addr sz s =
     upd_pc (\<lambda>p. p\<lparr>pc_il := pc_insert
        \<lparr>pcn_hashcode = key, pcn_fd = fd, pcn_address = addr, pcn_size = sz\<rparr> (pc_il p)\<rparr>) s"

definition referencePageCachedNode :: "u64 \<Rightarrow> fd \<Rightarrow> 'c fm \<Rightarrow> 'c fm option" where
  "referencePageCachedNode key fd s = do {
     node \<leftarrow> pc_find (key, fd) (pc_il (fm_pc s));
     Some (upd_pc (\<lambda>p. p\<lparr>pc_il := pc_insert node (pc_il p)\<rparr>) s)
   }"

definition popLRU_pc :: "'c fm \<Rightarrow> (u64 \<times> 'c fm) option" where
  "popLRU_pc s =
     (if pc_il (fm_pc s) = [] then None
      else do {
        let node = last (pc_il (fm_pc s));
        s1 \<leftarrow> fm_free (pcn_address node) s;
        let s2 = upd_pc (\<lambda>p. p\<lparr>pc_il := butlast (pc_il p)\<rparr>) s1;
        Some (pcn_hashcode node,
              changeOwnership (pcn_hashcode node) (pcn_fd node) OWNERSHIP_EXTERNRAM False s2)
      })"

text \<open>The bound of the loop is read again in every round, while the list shrinks.\<close>

partial_function (option) cleanup_loop :: "int \<Rightarrow> 'c fm \<Rightarrow> 'c fm option" where
  "cleanup_loop i s =
     (if i < pc_getSize (fm_pc s)
      then Option.bind (popLRU_pc s) (\<lambda>(key, s1). cleanup_loop (i + 1) s1)
      else Some s)"

definition pageCacheCleanup :: "'c fm \<Rightarrow> 'c fm option" where
  "pageCacheCleanup s = cleanup_loop 0 s"

definition storePageInPageCache :: "u64 \<Rightarrow> fd \<Rightarrow> ptr \<Rightarrow> int \<Rightarrow> 'c fm \<Rightarrow> 'c fm option" where
  "storePageInPageCache hashcode fd buf len s = do {
     let s0 = (if len \<noteq> 4096 then log_err s else s);
     s1 \<leftarrow> (case ph_find hashcode fd s0 of
        Some _ \<Rightarrow>
          (case pc_find (hashcode, fd) (pc_il (fm_pc s0)) of
             Some node \<Rightarrow> do {
               s2 \<leftarrow> fm_free (pcn_address node) s0;
               let s3 = log_err (upd_pc (\<lambda>p. p\<lparr>pc_il := pc_modify hashcode buf len fd (pc_il p)\<rparr>) s2);
               Some (changeOwnershipWithItr hashcode fd OWNERSHIP_PAGE_CACHE False s3)
             }
           | None \<Rightarrow> Some (changeOwnershipWithItr hashcode fd OWNERSHIP_PAGE_CACHE False
                             (insertPageCacheNode hashcode fd buf len s0)))
      | None \<Rightarrow> Some (insertPageCacheNode hashcode fd buf len
                        (addPageHashNode hashcode fd OWNERSHIP_PAGE_CACHE s0)));
     if pc_isSizeExceeded (fm_pc s1) then map_option snd (popLRU_pc s1) else Some s1
   }"

fun storePages_loop :: "u64 list \<Rightarrow> fd \<Rightarrow> nat list \<Rightarrow> ptr list \<Rightarrow> int list \<Rightarrow> 'c fm \<Rightarrow> 'c fm option" where
  "storePages_loop hs fd [] bs lens s = Some s"
| "storePages_loop hs fd (i # is) bs lens s =
     (if i < length hs \<and> i < length bs \<and> i < length lens
      then do {
        s1 \<leftarrow> storePageInPageCache (hs ! i) fd (bs ! i) (lens ! i) s;
        storePages_loop hs fd is bs lens s1
      }
      else None)"

definition storePagesInPageCache ::
  "u64 list \<Rightarrow> fd \<Rightarrow> int \<Rightarrow> ptr list \<Rightarrow> int list \<Rightarrow> 'c fm \<Rightarrow> 'c fm option" where
  "storePagesInPageCache hs fd num_pages bs lens s = storePages_loop hs fd [0..<nat num_pages] bs lens s"

definition invalidatePageCache :: "fd \<Rightarrow> u64 \<Rightarrow> 'c fm \<Rightarrow> 'c fm option" where
  "invalidatePageCache fd hashcode s = do {
     s1 \<leftarrow> (case pc_find (hashcode, fd) (pc_il (fm_pc s)) of
              Some node \<Rightarrow> fm_free (pcn_address node) s
            | None \<Rightarrow> Some s);
     let s2 = upd_pc (\<lambda>p. p\<lparr>pc_il := pc_erase (hashcode, fd) (pc_il p)\<rparr>) s1;
     Some (changeOwnership hashcode fd OWNERSHIP_EXTERNRAM False s2)
   }"

definition updatePageCacheAfterWrite_impl :: "u64 \<Rightarrow> fd \<Rightarrow> bool \<Rightarrow> 'c fm \<Rightarrow> 'c fm" where
  "updatePageCacheAfterWrite_impl hashcode fd zeroPage s =
     (case ph_find hashcode fd s of
        Some pi \<Rightarrow>
          if ownership pi = OWNERSHIP_PAGE_CACHE \<or> ownership pi = OWNERSHIP_EXTERNRAM then log_err s
          else if ownership pi = OWNERSHIP_APPLICATION
               then changeOwnershipWithItr hashcode fd OWNERSHIP_EXTERNRAM zeroPage s
               else log_err s
      | None \<Rightarrow> log_err s)"

definition updatePageCacheAfterSkippedRead :: "u64 \<Rightarrow> fd \<Rightarrow> 'c fm \<Rightarrow> 'c fm" where
  "updatePageCacheAfterSkippedRead hashcode fd s =
     (case ph_find hashcode fd s of
        Some pi \<Rightarrow>
          if ownership pi = OWNERSHIP_PAGE_CACHE \<or> ownership pi = OWNERSHIP_APPLICATION then log_err s
          else if ownership pi = OWNERSHIP_EXTERNRAM
               then changeOwnershipWithItr hashcode fd OWNERSHIP_APPLICATION False s
               else log_err s
      | None \<Rightarrow> log_err s)"

text \<open>The C interface.\<close>

definition updatePageCacheAfterWrite :: "fd \<Rightarrow> u64 \<Rightarrow> 'c fm \<Rightarrow> 'c fm" where
  "updatePageCacheAfterWrite ufd hashcode s = updatePageCacheAfterWrite_impl hashcode ufd False s"

definition updatePageCacheAfterSkippedWrite :: "fd \<Rightarrow> u64 \<Rightarrow> 'c fm \<Rightarrow> 'c fm" where
  "updatePageCacheAfterSkippedWrite ufd hashcode s = updatePageCacheAfterWrite_impl hashcode ufd True s"

section \<open>Removing a descriptor\<close>

definition removeUFDFromPageHash :: "fd \<Rightarrow> 'c fm \<Rightarrow> u64 list \<times> 'c fm" where
  "removeUFDFromPageHash fd s =
     (map (\<lambda>((h, f), pi). h AND PAGE_MASK)
        (filter (\<lambda>((h, f), pi). f = fd \<and> ownership pi = OWNERSHIP_EXTERNRAM) (pagehash (fm_pc s))),
      upd_pc (\<lambda>p. p\<lparr>pagehash := filter (\<lambda>((h, f), pi). f \<noteq> fd) (pagehash p)\<rparr>) s)"

text \<open>As in the LRU buffer, the loop increments an iterator whose node it has erased.\<close>

fun removeUFD_pc_loop :: "bool \<Rightarrow> fd \<Rightarrow> page_cache_node list \<Rightarrow> 'c fm \<Rightarrow> (nat \<times> 'c fm) option" where
  "removeUFD_pc_loop stale fd [] s = Some (0, s)"
| "removeUFD_pc_loop stale fd (x # xs) s =
     (if pcn_fd x = fd
      then do {
        s1 \<leftarrow> fm_free (pcn_address x) s;
        let s2 = upd_pc (\<lambda>p. p\<lparr>pc_il := pc_erase (pcn_hashcode x, fd) (pc_il p)\<rparr>) s1;
        if stale then do {
          (n, s3) \<leftarrow> removeUFD_pc_loop stale fd xs s2;
          Some (Suc n, s3)
        } else None
      }
      else removeUFD_pc_loop stale fd xs s)"

definition removeUFDFromPageCache :: "bool \<Rightarrow> fd \<Rightarrow> 'c fm \<Rightarrow> (int \<times> 'c fm) option" where
  "removeUFDFromPageCache stale fd s = do {
     (n, s1) \<leftarrow> removeUFD_pc_loop stale fd (pc_il (fm_pc s)) s;
     Some (int_of_size n, s1)
   }"

end
