(* ===== verification/Page_Cache_Read.thy ===== *)
theory Page_Cache_Read
  imports Page_Cache
begin

text \<open>
  \<^verbatim>\<open>PageCacheImpl::readPageIfInPageCache\<close> and its two halves: the top half decides what to read and
  collects the pages to prefetch, the bottom half gets the page and updates its ownership. The
  arguments \<open>buf\<close> and the pointer in the results are the value of \<^verbatim>\<open>*buf\<close>.
\<close>

section \<open>The top half\<close>

definition prefetch_wanted :: "'c env \<Rightarrow> fd \<Rightarrow> u64 \<Rightarrow> 'c fm \<Rightarrow> bool" where
  "prefetch_wanted E fd testaddr s =
     (case ph_find testaddr fd s of
        None \<Rightarrow> False
      | Some pi \<Rightarrow>
          ownership pi = OWNERSHIP_EXTERNRAM
          \<and> (PAGECACHE_ZEROPAGE_OPTIMIZATION (e_cfg E) \<longrightarrow> \<not> is_zeropage pi)
          \<and> (THREADED_WRITE_TO_EXTERNRAM (e_cfg E) \<longrightarrow> \<not> exist_write_info fd testaddr (fm_tio s))
          \<and> (THREADED_PREFETCH (e_cfg E) \<longrightarrow> \<not> exist_prefetch_info fd testaddr (fm_tio s)))"

text \<open>
  One page joins the prefetch: it goes to the prefetch list, or to the array of keys; writing past
  the array is undefined.
\<close>

definition prefetch_one :: "'c env \<Rightarrow> fd \<Rightarrow> u64 \<Rightarrow> 'c fm \<Rightarrow> 'c fm option" where
  "prefetch_one E fd testaddr s =
     (let n = numPrefetch (fm_pc s) in
      if THREADED_PREFETCH (e_cfg E)
      then Some (upd_pc (\<lambda>p. p\<lparr>numPrefetch := n + 1\<rparr>) (upd_tio (add_prefetch_info fd testaddr) s))
      else if nat (n + 1) < length (keys_for_mread (fm_pc s))
           then Some (upd_pc (\<lambda>p. p\<lparr>keys_for_mread := (keys_for_mread p)[nat (n + 1) := testaddr],
                                     numPrefetch := n + 1\<rparr>) s)
           else None)"

text \<open>The loop over the following pages: \<open>i\<close> counts the page tried; after the 101st it ends.\<close>

function prefetch_loop :: "'c env \<Rightarrow> u64 \<Rightarrow> fd \<Rightarrow> int \<Rightarrow> 'c fm \<Rightarrow> 'c fm option" where
  "prefetch_loop E hashcode fd i s =
     (if numPrefetch (fm_pc s) < numConseqAcc (fm_pc s)
      then do {
        let testaddr = hashcode + word_of_int i * PAGE_SIZE;
        s1 \<leftarrow> (if prefetch_wanted E fd testaddr s then prefetch_one E fd testaddr s else Some s);
        if numPrefetch (fm_pc s1) \<ge> prefetch_size (fm_pc s1) then Some s1
        else if i > 100 then Some s1
        else prefetch_loop E hashcode fd (i + 1) s1
      }
      else Some s)"
  by pat_completeness auto

termination
  by (relation "measure (\<lambda>(E, h, fd, i, s). nat (102 - i))") auto

declare prefetch_loop.simps [simp del]

text \<open>What one page keeps, the loop keeps.\<close>

lemma prefetch_loop_inv:
  assumes "prefetch_loop E h f i s = Some s'" "P s"
    and one: "\<And>a s s1. P s \<Longrightarrow> numPrefetch (fm_pc s) < numConseqAcc (fm_pc s) \<Longrightarrow> prefetch_wanted E f a s \<Longrightarrow>
      prefetch_one E f a s = Some s1 \<Longrightarrow> P s1"
  shows "P s'"
  using assms(1,2) one
proof (induction E h f i s arbitrary: s' rule: prefetch_loop.induct)
  case (1 E h f i s)
  let ?a = "h + word_of_int i * PAGE_SIZE"
  let ?m = "if prefetch_wanted E f ?a s then prefetch_one E f ?a s else Some s"
  note r = "1.prems"(1) [unfolded prefetch_loop.simps [of E h f i s]]
  show ?case
  proof (cases "numPrefetch (fm_pc s) < numConseqAcc (fm_pc s)")
    case True
    with r obtain s1 where m: "?m = Some s1" by (auto simp: Let_def split: Option.bind_splits)
    then have "P s1" using "1.prems"(2,3) True by (auto split: if_splits)
    with r m True "1.IH" [OF True refl m] "1.prems"(3) show ?thesis
      by (auto simp: Let_def split: if_splits)
  qed (use r "1.prems"(2) in simp)
qed

definition count_access :: "u64 \<Rightarrow> page_cache \<Rightarrow> page_cache" where
  "count_access hashcode p =
     (if prevAddr p + PAGE_SIZE = hashcode
      then p\<lparr>numConseqAcc := numConseqAcc p + 1, prevAddr := hashcode\<rparr>
      else p\<lparr>numConseqAcc := 0, prevAddr := hashcode\<rparr>)"

definition lock_lists :: "'c env \<Rightarrow> 'c fm \<Rightarrow> 'c fm option" where
  "lock_lists E s =
     (if THREADED_WRITE_TO_EXTERNRAM (e_cfg E) \<or> THREADED_PREFETCH (e_cfg E)
      then lockS list_lock s else Some s)"

definition unlock_lists :: "'c env \<Rightarrow> 'c fm \<Rightarrow> 'c fm option" where
  "unlock_lists E s =
     (if THREADED_WRITE_TO_EXTERNRAM (e_cfg E) \<or> THREADED_PREFETCH (e_cfg E)
      then unlockS list_lock s else Some s)"

text \<open>The branch with prefetching: collect the pages, then start the read.\<close>

definition prefetch_top :: "'c env \<Rightarrow> u64 \<Rightarrow> fd \<Rightarrow> 'c fm \<Rightarrow> 'c fm option" where
  "prefetch_top E hashcode fd s = do {
     let s1 = upd_pc (\<lambda>p. p\<lparr>numPrefetch := 0, keys_for_mread := (keys_for_mread p)[0 := hashcode]\<rparr>) s;
     s2 \<leftarrow> lock_lists E s1;
     let waiting = isPrefetcherWaiting (fm_tio s2);
     s3 \<leftarrow> prefetch_loop E hashcode fd 1 s2;
     s4 \<leftarrow> unlock_lists E s3;
     client \<leftarrow> fm_client fd s4;
     if client = NULL then Some s4
     else if THREADED_PREFETCH (e_cfg E)
          then let s5 = (if waiting then upd_tio (\<lambda>t. t\<lparr>prefetcher_sem := prefetcher_sem t + 1\<rparr>) s4 else s4)
               in if ASYNREAD (e_cfg E)
                  then fm_readPage_top E client hashcode (bufs_for_mread (fm_pc s5) ! 0) s5
                  else Some s5
          else if ASYNREAD (e_cfg E)
               then fm_readPages_top E client (keys_for_mread (fm_pc s4)) (numPrefetch (fm_pc s4) + 1) s4
               else Some s4
   }"

definition readPageIfInPageCache_top :: "'c env \<Rightarrow> fd \<Rightarrow> u64 \<Rightarrow> ptr \<Rightarrow> 'c fm \<Rightarrow> 'c fm option" where
  "readPageIfInPageCache_top E fd hashcode buf s0 =
     (let s = upd_pc (count_access hashcode) s0 in
      case ph_find hashcode fd s of
        None \<Rightarrow> Some (upd_stats StatsIncrCacheMiss s)
      | Some pi \<Rightarrow>
          if ownership pi = OWNERSHIP_PAGE_CACHE then Some (upd_stats StatsIncrCacheHit s)
          else if ownership pi = OWNERSHIP_EXTERNRAM
          then let s1 = upd_stats StatsIncrCacheMiss s in
               if PAGECACHE_ZEROPAGE_OPTIMIZATION (e_cfg E) \<and> is_zeropage pi then Some s1
               else if \<not> enable_prefetch (fm_pc s1)
               then do {
                 client \<leftarrow> fm_client fd s1;
                 if client = NULL then Some (log_err s1)
                 else if ASYNREAD (e_cfg E) then fm_readPage_top E client hashcode buf s1
                 else Some s1
               }
               else prefetch_top E hashcode fd s1
          else Some s)"

section \<open>The bottom half\<close>

definition fm_read_one :: "'c env \<Rightarrow> ptr \<Rightarrow> u64 \<Rightarrow> ptr \<Rightarrow> 'c fm \<Rightarrow> (int \<times> ptr \<times> 'c fm) option" where
  "fm_read_one E client hashcode buf s =
     (if ASYNREAD (e_cfg E) then fm_readPage_bottom E client hashcode buf s
      else fm_readPage E client hashcode buf s)"

definition fm_read_many :: "'c env \<Rightarrow> ptr \<Rightarrow> 'c fm \<Rightarrow> (ptr list \<times> int list \<times> 'c fm) option" where
  "fm_read_many E client s =
     (let p = fm_pc s in
      if ASYNREAD (e_cfg E)
      then fm_readPages_bottom E client (keys_for_mread p) (numPrefetch p + 1) (bufs_for_mread p)
             (lengths_for_mread p) s
      else fm_readPages E client (keys_for_mread p) (numPrefetch p + 1) (bufs_for_mread p)
             (lengths_for_mread p) s)"

text \<open>
  The read with synchronous prefetch: the first page of the batch is the one that faulted, the rest
  goes to the page cache.
\<close>

definition read_batch :: "'c env \<Rightarrow> ptr \<Rightarrow> fd \<Rightarrow> u64 \<Rightarrow> ptr \<Rightarrow> 'c fm \<Rightarrow> (int \<times> ptr \<times> 'c fm) option" where
  "read_batch E client fd hashcode buf s = do {
     (bs, lens, s1) \<leftarrow> fm_read_many E client s;
     let s2 = upd_pc (\<lambda>p. p\<lparr>bufs_for_mread := bs, lengths_for_mread := lens\<rparr>) s1;
     let (sz, b, s3) = (if bs ! 0 \<noteq> NULL
          then (lens ! 0, bs ! 0, changeOwnershipWithItr hashcode fd OWNERSHIP_APPLICATION False s2)
          else (0, buf, log_err s2));
     s4 \<leftarrow> (if numPrefetch (fm_pc s3) > 0
            then storePagesInPageCache (tl (keys_for_mread (fm_pc s3))) fd (numPrefetch (fm_pc s3))
                   (tl (bufs_for_mread (fm_pc s3))) (tl (lengths_for_mread (fm_pc s3))) s3
            else Some s3);
     Some (sz, b, s4)
   }"

text \<open>The newest version is in the page cache: hand its buffer over and forget it.\<close>

definition read_cached :: "fd \<Rightarrow> u64 \<Rightarrow> ptr \<Rightarrow> 'c fm \<Rightarrow> int \<times> ptr \<times> 'c fm" where
  "read_cached fd hashcode buf s =
     (let (sz, b) = (case pc_find (hashcode, fd) (pc_il (fm_pc s)) of
            Some node \<Rightarrow> (pcn_size node, pcn_address node)
          | None \<Rightarrow> (0, buf));
          s1 = upd_pc (\<lambda>p. p\<lparr>pc_il := pc_erase (hashcode, fd) (pc_il p)\<rparr>) s
      in (sz, b, changeOwnershipWithItr hashcode fd OWNERSHIP_APPLICATION False s1))"

text \<open>The newest version is in the remote store.\<close>

definition read_remote :: "'c env \<Rightarrow> PageInfo \<Rightarrow> fd \<Rightarrow> u64 \<Rightarrow> ptr \<Rightarrow> 'c fm
     \<Rightarrow> (int \<times> ptr \<times> 'c fm) option" where
  "read_remote E pi fd hashcode buf s =
     (let to_app = changeOwnershipWithItr hashcode fd OWNERSHIP_APPLICATION False in
      if PAGECACHE_ZEROPAGE_OPTIMIZATION (e_cfg E) \<and> is_zeropage pi then Some (0, buf, to_app s)
      else do {
        client \<leftarrow> fm_client fd s;
        if \<not> enable_prefetch (fm_pc s)
        then if client = NULL then Some (0, buf, to_app (log_err s))
             else do {
               (sz, b, s1) \<leftarrow> fm_read_one E client hashcode buf s;
               Some (sz, b, to_app s1)
             }
        else if client = NULL then Some (0, buf, s)
        else if THREADED_PREFETCH (e_cfg E)
        then do {
          (sz, b, s1) \<leftarrow> fm_read_one E client hashcode buf s;
          Some (sz, b, to_app s1)
        }
        else read_batch E client fd hashcode buf s
      })"

definition readPageIfInPageCache_bottom ::
  "'c env \<Rightarrow> fd \<Rightarrow> u64 \<Rightarrow> ptr \<Rightarrow> 'c fm \<Rightarrow> (int \<times> ptr \<times> 'c fm) option" where
  "readPageIfInPageCache_bottom E fd hashcode buf s =
     (case ph_find hashcode fd s of
        None \<Rightarrow> Some (0, buf, addPageHashNode hashcode fd OWNERSHIP_APPLICATION s)
      | Some pi \<Rightarrow>
          if ownership pi = OWNERSHIP_PAGE_CACHE then Some (read_cached fd hashcode buf s)
          else if ownership pi = OWNERSHIP_EXTERNRAM then read_remote E pi fd hashcode buf s
          else Some (0, buf, log_err s))"

definition readPageIfInPageCache ::
  "'c env \<Rightarrow> fd \<Rightarrow> u64 \<Rightarrow> ptr \<Rightarrow> 'c fm \<Rightarrow> (int \<times> ptr \<times> 'c fm) option" where
  "readPageIfInPageCache E fd hashcode buf s = do {
     s1 \<leftarrow> readPageIfInPageCache_top E fd hashcode buf s;
     readPageIfInPageCache_bottom E fd hashcode buf s1
   }"

end
