(* ===== verification/Userfault.thy ===== *)
theory Userfault
  imports Page_Cache_Read
begin

text \<open>
  The fault handling core of \<^verbatim>\<open>lib/userfault/userfault.c\<close>: placing pages in an application, evicting
  them to the remote store, reading them back. Every function takes the environment and the state;
  \<open>None\<close> is undefined behaviour, a mutex the thread already holds, or a call that does not return.
\<close>

section \<open>Evicting one page\<close>

definition get_local_tmp_page :: "'c env \<Rightarrow> 'c fm \<Rightarrow> ptr \<times> 'c fm" where
  "get_local_tmp_page E s =
     (case k_mmap (e_kernel E) (fm_mach s) of
        (p, M) \<Rightarrow> if p = NULL then (NULL, log_err (s\<lparr>fm_mach := M\<rparr>)) else (p, s\<lparr>fm_mach := M\<rparr>))"

definition evict_page :: "'c env \<Rightarrow> fd \<Rightarrow> ptr \<Rightarrow> u64 \<Rightarrow> 'c fm \<Rightarrow> int \<times> 'c fm" where
  "evict_page E ufd dst src s =
     (case k_remap_out (e_kernel E) ufd dst (src AND PAGE_MASK) (fm_mach s) of
        (e, M) \<Rightarrow>
          let s1 = s\<lparr>fm_mach := M\<rparr> in
          if e = 0 then (0, s1)
          else if e = 4096 then (0, s1)
          else if e = EBUSY \<or> e = EEXIST \<or> e = EINVAL \<or> e = ESRCH then (e, s1)
          else (e, log_err s1))"

text \<open>
  The retry loop of \<^verbatim>\<open>evict_to_externram\<close>. The left value is the early return of -1; the right value is
  the return code, the temporary page and the state after the loop.
\<close>

definition evict_switch :: "'c env \<Rightarrow> int \<Rightarrow> nat \<Rightarrow> 'c fm \<Rightarrow> int \<times> nat \<times> 'c fm" where
  "evict_switch E r n s =
     (if r = EBUSY then (2, 0, s)
      else if r = EAGAIN then (1, n, s)
      else if r = ENOENT then (-1, n, log_recoverable_err E s)
      else if r = EEXIST then (-1, n, s)
      else if r = EINVAL \<or> r = ESRCH then (1, 0, s)
      else (-1, 0, log_err s))"

fun evict_attempts :: "'c env \<Rightarrow> nat \<Rightarrow> fd \<Rightarrow> u64 \<Rightarrow> 'c fm \<Rightarrow> 'c fm + int \<times> ptr \<times> 'c fm" where
  "evict_attempts E 0 ufd pageaddr s = Inr (-1, NULL, s)"
| "evict_attempts E (Suc n) ufd pageaddr s =
     (case get_local_tmp_page E s of
        (p, s1) \<Rightarrow>
          if p = NULL then Inl (log_err s1)
          else case evict_page E ufd p pageaddr s1 of
            (r, s2) \<Rightarrow>
              if r = 0 then Inr (0, p, s2)
              else case evict_switch E r n s2 of
                (ret, retry, s3) \<Rightarrow>
                  if retry > 0 then evict_attempts E n ufd pageaddr (fm_munmap E p s3)
                  else Inr (ret, p, s3))"

definition post_writer :: "'c fm \<Rightarrow> 'c fm" where
  "post_writer s = upd_tio (\<lambda>t. t\<lparr>writer_sem := writer_sem t + 1\<rparr>) s"

text \<open>The page goes to the write list.\<close>

definition evict_enqueue :: "fd \<Rightarrow> u64 \<Rightarrow> ptr \<Rightarrow> 'c fm \<Rightarrow> 'c fm option" where
  "evict_enqueue ufd pageaddr p s = do {
     s1 \<leftarrow> lockS list_lock s;
     let waiting = isWriterWaiting (fm_tio s1);
     let s2 = upd_tio (add_write_info ufd pageaddr p) s1;
     let list_size = get_write_list_size (fm_tio s2);
     s3 \<leftarrow> unlockS list_lock s2;
     Some (if waiting \<and> list_size \<ge> WRITE_BATCH_SIZE then post_writer s3 else s3)
   }"

text \<open>
  The page goes straight to the store; the result says whether the clean-up is skipped and which
  page it would free.
\<close>

definition evict_write :: "'c env \<Rightarrow> fd \<Rightarrow> u64 \<Rightarrow> ptr \<Rightarrow> 'c fm \<Rightarrow> (bool \<times> ptr \<times> 'c fm) option" where
  "evict_write E ufd pageaddr p s = do {
     client \<leftarrow> fm_client ufd s;
     if client \<noteq> NULL
     then do {
       (write_ret, s1) \<leftarrow> fm_writePage E client pageaddr p s;
       Some (if write_ret \<noteq> NULL then (False, write_ret, s1) else (True, p, s1))
     }
     else Some (True, p, log_err s)
   }"

definition evict_store :: "'c env \<Rightarrow> fd \<Rightarrow> u64 \<Rightarrow> ptr \<Rightarrow> 'c fm \<Rightarrow> (bool \<times> ptr \<times> 'c fm) option" where
  "evict_store E ufd pageaddr p s0 = do {
     let s = upd_stats StatsIncrPageEvicted s0;
     pg \<leftarrow> bufs (fm_mach s) p;
     if PAGECACHE_ZEROPAGE_OPTIMIZATION (e_cfg E) \<and> pg = zero_page
     then let s1 = upd_stats StatsIncrWriteAvoided s
          in Some (True, p, if PAGECACHE (e_cfg E)
                            then updatePageCacheAfterSkippedWrite ufd pageaddr s1 else s1)
     else do {
       (skip_clean, q, s2) \<leftarrow>
         (if THREADED_WRITE_TO_EXTERNRAM (e_cfg E)
          then map_option (\<lambda>s1. (True, p, s1)) (evict_enqueue ufd pageaddr p s)
          else evict_write E ufd pageaddr p s);
       Some (skip_clean, q, if PAGECACHE (e_cfg E)
                            then updatePageCacheAfterWrite ufd pageaddr s2 else s2)
     }
   }"

definition evict_to_externram :: "'c env \<Rightarrow> fd \<Rightarrow> u64 \<Rightarrow> 'c fm \<Rightarrow> (int \<times> 'c fm) option" where
  "evict_to_externram E ufd pageaddr s =
     (case evict_attempts E 5 ufd pageaddr s of
        Inl s1 \<Rightarrow> Some (-1, s1)
      | Inr (ret, p, s1) \<Rightarrow>
          if ret = 0
          then do {
            (skip_clean, q, s2) \<leftarrow> evict_store E ufd pageaddr p s1;
            Some (0, if skip_clean then s2 else fm_munmap E q s2)
          }
          else Some (ret, fm_munmap E p s1))"

section \<open>Making room\<close>

definition ZERO_PAGE :: int where "ZERO_PAGE = 0"
definition COPY_PAGE :: int where "COPY_PAGE = 1"
definition MOVE_PAGE :: int where "MOVE_PAGE = 2"
definition ASYN_PAGE :: int where "ASYN_PAGE = 3"

definition put_lru :: "lru_buffer \<times> MonitorStats \<Rightarrow> 'c fm \<Rightarrow> 'c fm" where
  "put_lru ls s = s\<lparr>fm_lru := fst ls, fm_stats := snd ls\<rparr>"

text \<open>\<open>page_type\<close> selects only the label of a timing.\<close>

definition evict_if_needed :: "'c env \<Rightarrow> fd \<Rightarrow> u64 \<Rightarrow> int \<Rightarrow> 'c fm \<Rightarrow> (int \<times> 'c fm) option" where
  "evict_if_needed E ufd dst page_type s = do {
     s1 \<leftarrow> lockS lru_lock s;
     (evict_node, ls) \<leftarrow> insertCacheNodeAndEvict dst ufd (fm_lru s1, fm_stats s1);
     s2 \<leftarrow> unlockS lru_lock (put_lru ls s1);
     if cn_hashcode evict_node \<noteq> 0
     then do {
       let key = cn_hashcode evict_node AND PAGE_MASK;
       (ret2, s3) \<leftarrow> evict_to_externram E (cn_ufd evict_node) key s2;
       if ret2 = 0 then Some (0, s3)
       else if ret2 = 1 then Some (cn_ufd evict_node, upd_stats StatsIncrWriteSkippedInvalid s3)
       else if ret2 = 2
       then do {
         let s4 = upd_stats StatsIncrWriteSkippedZero s3;
         s5 \<leftarrow> lockS lru_lock s4;
         ls5 \<leftarrow> insertCacheNode key (cn_ufd evict_node) (fm_lru s5, fm_stats s5);
         s6 \<leftarrow> unlockS lru_lock (put_lru ls5 s5);
         Some (0, s6)
       }
       else Some (ret2, log_err s3)
     }
     else Some (0, s2)
   }"

section \<open>Placing pages\<close>

text \<open>
  The \<^verbatim>\<open>copy\<close> field that \<^verbatim>\<open>UFFDIO_COPY\<close> fills in on failure is compared with positive error numbers.
\<close>

definition place_data_page :: "'c env \<Rightarrow> fd \<Rightarrow> u64 \<Rightarrow> ptr \<Rightarrow> 'c fm \<Rightarrow> (int \<times> 'c fm) option" where
  "place_data_page E ufd dst src s = do {
     let (rc, copy, M) = k_copy (e_kernel E) ufd dst src (fm_mach s);
     let s1 = s\<lparr>fm_mach := M\<rparr>;
     let (ret, s2) = (if rc \<noteq> 0 \<and> copy \<noteq> 4096
           then (copy, if copy = EBUSY \<or> copy = ENOENT \<or> copy = ESRCH then s1 else log_err s1)
           else (0, s1));
     (ret', s3) \<leftarrow> (if ASYNREAD (e_cfg E) then Some (ret, s2)
                    else evict_if_needed E ufd dst COPY_PAGE s2);
     Some (ret', upd_stats StatsIncrPlacedPage s3)
   }"

definition place_zero_page :: "'c env \<Rightarrow> fd \<Rightarrow> u64 \<Rightarrow> 'c fm \<Rightarrow> (int \<times> 'c fm) option" where
  "place_zero_page E ufd dst s =
     (let (e, M) = k_zeropage (e_kernel E) ufd (dst AND PAGE_MASK) (fm_mach s);
          s1 = s\<lparr>fm_mach := M\<rparr>;
          s2 = (if e = 0 \<or> e = EBUSY \<or> e = ENOENT \<or> e = EINVAL \<or> e = ESRCH then s1 else log_err s1)
      in if ASYNREAD (e_cfg E) then Some (e, s2) else evict_if_needed E ufd dst ZERO_PAGE s2)"

definition move_page :: "'c env \<Rightarrow> fd \<Rightarrow> u64 \<Rightarrow> ptr \<Rightarrow> 'c fm \<Rightarrow> (int \<times> 'c fm) option" where
  "move_page E ufd dst src s =
     (let (e, M) = k_remap_in (e_kernel E) ufd (dst AND PAGE_MASK) src (fm_mach s);
          s1 = s\<lparr>fm_mach := M\<rparr>;
          s2 = (if e = 0 \<or> e = EBUSY \<or> e = ENOENT \<or> e = EINVAL \<or> e = ESRCH then s1 else log_err s1)
      in if ASYNREAD (e_cfg E) then Some (e, s2) else evict_if_needed E ufd dst MOVE_PAGE s2)"

definition ack_userfault :: "'c env \<Rightarrow> fd \<Rightarrow> u64 \<Rightarrow> u64 \<Rightarrow> 'c fm \<Rightarrow> int \<times> 'c fm" where
  "ack_userfault E ufd addr len s =
     (case k_wake (e_kernel E) ufd addr len (fm_mach s) of
        (e, M) \<Rightarrow>
          let s1 = s\<lparr>fm_mach := M\<rparr> in
          if e = 0 then (0, s1) else if e = ENOENT then (0, s1) else (- e, log_err s1))"

section \<open>Evicting many pages\<close>

text \<open>
  \<^verbatim>\<open>evict_to_externram_multi\<close> runs over as many entries as were asked for; an entry past the ones that
  were popped is outside the allocated array.
\<close>

fun evict_multi_loop :: "'c env \<Rightarrow> cache_node list \<Rightarrow> nat list \<Rightarrow> int \<Rightarrow> 'c fm \<Rightarrow> (int \<times> 'c fm) option" where
  "evict_multi_loop E nodes [] cnt s = Some (cnt, s)"
| "evict_multi_loop E nodes (i # is) cnt s =
     (if i < length nodes
      then do {
        let key = cn_hashcode (nodes ! i) AND PAGE_MASK;
        (ret, s1) \<leftarrow> evict_to_externram E (cn_ufd (nodes ! i)) key s;
        let (cnt1, s2) =
          (if ret = 0 then (cnt + 1, s1)
           else if ret = 1 then (cnt, upd_stats StatsIncrWriteSkippedInvalid s1)
           else if ret = 2 then (cnt, s1)
           else (cnt, log_err s1));
        evict_multi_loop E nodes is cnt1 s2
      }
      else None)"

definition evict_to_externram_multi :: "'c env \<Rightarrow> int \<Rightarrow> 'c fm \<Rightarrow> (int \<times> 'c fm) option" where
  "evict_to_externram_multi E sz s = do {
     (num_to_evict, nodes, ls) \<leftarrow> popNLRU sz (fm_lru s, fm_stats s);
     evict_multi_loop E nodes [0..<nat sz] 0 (put_lru ls s)
   }"

text \<open>\<^verbatim>\<open>resizeLRUBuffer\<close> returns no value.\<close>

definition resizeLRUBuffer :: "'c env \<Rightarrow> int \<Rightarrow> 'c fm \<Rightarrow> 'c fm option" where
  "resizeLRUBuffer E sz s = do {
     s1 \<leftarrow> lockS lru_lock s;
     let lru_size = getLRUBufferSize (fm_lru s1);
     if sz > lru_size
     then unlockS lru_lock (put_lru (snd (setLRUBufferSize sz (fm_lru s1, fm_stats s1))) s1)
     else do {
       (ret, s2) \<leftarrow> evict_to_externram_multi E (lru_size - sz) s1;
       unlockS lru_lock (put_lru (snd (setLRUBufferSize sz (fm_lru s2, fm_stats s2))) s2)
     }
   }"

section \<open>Handling a fault\<close>

text \<open>
  Waiting for a page that is on the write list and already in flight: the handler raises its flag,
  wakes the writer if it sleeps and blocks. The result is the page taken off the list, or \<^verbatim>\<open>NULL\<close>.
\<close>

partial_function (option) wait_write_list :: "'c env \<Rightarrow> fd \<Rightarrow> u64 \<Rightarrow> 'c fm \<Rightarrow> (ptr \<times> 'c fm) option" where
  "wait_write_list E ufd pageaddr s =
     Option.bind (lockS list_lock s) (\<lambda>s1.
       let waiting = isWriterWaiting (fm_tio s1) in
       case find_write_info ufd pageaddr (fm_tio s1) of
         None \<Rightarrow> map_option (Pair NULL)
           (unlockS list_lock (upd_tio (\<lambda>t. t\<lparr>isUfhandlerWaiting := False\<rparr>) s1))
       | Some w \<Rightarrow>
           let (temp_ptr, t) = extract_page_from_write_list (Some w) (fm_tio s1) in
           if temp_ptr \<noteq> NULL
           then let s2 = s1\<lparr>fm_tio := t\<rparr>;
                    s3 = (if PAGECACHE (e_cfg E) then updatePageCacheAfterSkippedRead pageaddr ufd s2
                          else s2)
                in map_option (Pair temp_ptr) (unlockS list_lock s3)
           else Option.bind (unlockS list_lock
                  (upd_tio (\<lambda>t. t\<lparr>isUfhandlerWaiting := True\<rparr>) s1)) (\<lambda>s2.
                  wait_write_list E ufd pageaddr
                    (e_wait_ufhandler E (if waiting then post_writer s2 else s2))))"

partial_function (option) wait_prefetch_list :: "'c env \<Rightarrow> fd \<Rightarrow> u64 \<Rightarrow> 'c fm \<Rightarrow> 'c fm option" where
  "wait_prefetch_list E ufd pageaddr s =
     Option.bind (lockS list_lock s) (\<lambda>s1.
       let waiting = isPrefetcherWaiting (fm_tio s1);
           toWait = exist_prefetch_info ufd pageaddr (fm_tio s1) in
       Option.bind (unlockS list_lock (upd_tio (\<lambda>t. t\<lparr>isUfhandlerWaiting := toWait\<rparr>) s1)) (\<lambda>s2.
         if toWait
         then wait_prefetch_list E ufd pageaddr
                (e_wait_ufhandler E
                  (if waiting then upd_tio (\<lambda>t. t\<lparr>prefetcher_sem := prefetcher_sem t + 1\<rparr>) s2 else s2))
         else Some s2))"

text \<open>
  Fetching the page through the page cache or straight from the store. The result is the length, the
  buffer (the new value of the global \<^verbatim>\<open>read_tmp_page\<close>), the second return code and the state.
\<close>

definition fetch_cached :: "'c env \<Rightarrow> fd \<Rightarrow> u64 \<Rightarrow> 'c fm \<Rightarrow> (int \<times> int \<times> 'c fm) option" where
  "fetch_cached E ufd pageaddr s = do {
     s1 \<leftarrow> lockS pagecache_lock s;
     if ASYNREAD (e_cfg E)
     then do {
       s2 \<leftarrow> readPageIfInPageCache_top E ufd pageaddr (fm_read_tmp_page s1) s1;
       s3 \<leftarrow> unlockS pagecache_lock s2;
       (ret2, s4) \<leftarrow> evict_if_needed E ufd pageaddr ASYN_PAGE s3;
       s5 \<leftarrow> lockS pagecache_lock s4;
       (len, b, s6) \<leftarrow> readPageIfInPageCache_bottom E ufd pageaddr (fm_read_tmp_page s5) s5;
       s7 \<leftarrow> unlockS pagecache_lock s6;
       Some (len, ret2, s7\<lparr>fm_read_tmp_page := b\<rparr>)
     }
     else do {
       (len, b, s2) \<leftarrow> readPageIfInPageCache E ufd pageaddr (fm_read_tmp_page s1) s1;
       s3 \<leftarrow> unlockS pagecache_lock s2;
       Some (len, -1, s3\<lparr>fm_read_tmp_page := b\<rparr>)
     }
   }"

definition fetch_direct :: "'c env \<Rightarrow> fd \<Rightarrow> u64 \<Rightarrow> 'c fm \<Rightarrow> (int \<times> int \<times> 'c fm) option" where
  "fetch_direct E ufd pageaddr s = do {
     client \<leftarrow> fm_client ufd s;
     if ASYNREAD (e_cfg E)
     then do {
       s1 \<leftarrow> (if client \<noteq> NULL then fm_readPage_top E client pageaddr (fm_read_tmp_page s) s
              else Some (log_err s));
       (ret2, s2) \<leftarrow> evict_if_needed E ufd pageaddr ASYN_PAGE s1;
       if client \<noteq> NULL
       then do {
         (len, b, s3) \<leftarrow> fm_readPage_bottom E client pageaddr (fm_read_tmp_page s2) s2;
         Some (len, ret2, s3\<lparr>fm_read_tmp_page := b\<rparr>)
       }
       else Some (-1, ret2, log_err s2)
     }
     else if client \<noteq> NULL
     then do {
       (len, b, s1) \<leftarrow> fm_readPage E client pageaddr (fm_read_tmp_page s) s;
       Some (len, -1, s1\<lparr>fm_read_tmp_page := b\<rparr>)
     }
     else Some (-1, -1, log_err s)
   }"

text \<open>Any other length is printed with a \<^verbatim>\<open>%s\<close> conversion, which is undefined for an integer.\<close>

definition place_page_out :: "'c env \<Rightarrow> fd \<Rightarrow> u64 \<Rightarrow> int \<Rightarrow> ptr \<Rightarrow> 'c fm \<Rightarrow> (int \<times> 'c fm) option" where
  "place_page_out E ufd pageaddr len b s =
     (if len = 4096
      then do {
        (ret, s1) \<leftarrow> place_data_page E ufd pageaddr b s;
        Some (ret, if ret < 0 then log_err s1 else s1)
      }
      else if len = 0
      then do {
        (ret, s1) \<leftarrow> place_zero_page E ufd pageaddr s;
        Some (ret, if ret < 0 then log_err s1 else s1)
      }
      else None)"

definition shrink_lru :: "'c env \<Rightarrow> 'c fm \<Rightarrow> 'c fm option" where
  "shrink_lru E s = do {
     s1 \<leftarrow> lockS lru_lock s;
     let numToEvict = getLRUBufferSize (fm_lru s1) - getLRUBufferMaxSize (fm_lru s1);
     if numToEvict > 0
     then do {
       (ret2, s2) \<leftarrow> evict_to_externram_multi E numToEvict s1;
       unlockS lru_lock s2
     }
     else unlockS lru_lock s1
   }"

definition read_from_externram :: "'c env \<Rightarrow> fd \<Rightarrow> u64 \<Rightarrow> 'c fm \<Rightarrow> (int \<times> 'c fm) option" where
  "read_from_externram E ufd pageaddr s = do {
     let s0 = upd_stats StatsIncrPageFault s;
     (temp_ptr, s1) \<leftarrow> (if THREADED_WRITE_TO_EXTERNRAM (e_cfg E)
                       then wait_write_list E ufd pageaddr s0 else Some (NULL, s0));
     s2 \<leftarrow> (if THREADED_PREFETCH (e_cfg E) then wait_prefetch_list E ufd pageaddr s1 else Some s1);
     s3 \<leftarrow> (if THREADED_PREFETCH (e_cfg E) \<and> ASYNREAD (e_cfg E) then lockS read_lock s2 else Some s2);
     (len, ret2, s4) \<leftarrow>
       (if temp_ptr \<noteq> NULL
        then if ASYNREAD (e_cfg E)
             then map_option (\<lambda>(ret2, s'). (4096, ret2, s')) (evict_if_needed E ufd pageaddr ASYN_PAGE s3)
             else Some (4096, -1, s3)
        else if PAGECACHE (e_cfg E) then fetch_cached E ufd pageaddr s3
        else fetch_direct E ufd pageaddr s3);
     let b = (if temp_ptr \<noteq> NULL then temp_ptr else fm_read_tmp_page s4);
     (ret, s5) \<leftarrow> place_page_out E ufd pageaddr len b s4;
     let s6 = (if temp_ptr \<noteq> NULL then fm_munmap E b s5 else s5);
     (ret', s7) \<leftarrow> (if ASYNREAD (e_cfg E)
                    then map_option (Pair ret2) (unlockS read_lock s6) else Some (ret, s6));
     s8 \<leftarrow> shrink_lru E s7;
     Some (ret', upd_stats (StatsSetLastFaultTime (e_now E)) s8)
   }"

end
