(* ===== verification/Eviction.thy ===== *)
theory Eviction
  imports Userfault
begin

text \<open>
  Moving pages around does not change what an application sees. The logical contents of a page are
  the resident page, or else what the remote store holds for it, or else zeros. This theory defines
  the contents and the invariant and shows, for the build without page cache and threads, that the
  eviction path returns, keeps both, and leaves every page of the LRU buffer resident. The lemmas are
  proved for any store that keeps the contract \<open>extern_ram\<close>.
\<close>

section \<open>Logical contents and invariant\<close>

definition plain_config :: config where
  "plain_config = \<lparr>PAGECACHE = False, PAGECACHE_ZEROPAGE_OPTIMIZATION = False,
     THREADED_WRITE_TO_EXTERNRAM = False, THREADED_PREFETCH = False, ASYNREAD = False\<rparr>"

definition fd_client :: "fd \<Rightarrow> 'c fm \<Rightarrow> 'c option" where
  "fd_client f s = Option.bind (hash_find ms_fd f (fm_map s)) (\<lambda>e. client_get (fm_clients s) (ms_client e))"

definition remote :: "(machine \<Rightarrow> 'c \<Rightarrow> u64 \<Rightarrow> page option) \<Rightarrow> 'c fm \<Rightarrow> fd \<Rightarrow> u64 \<Rightarrow> page option" where
  "remote content s f a = Option.bind (fd_client f s) (\<lambda>c. content (fm_mach s) c a)"

definition logical :: "(machine \<Rightarrow> 'c \<Rightarrow> u64 \<Rightarrow> page option) \<Rightarrow> 'c fm \<Rightarrow> fd \<Rightarrow> u64 \<Rightarrow> page" where
  "logical content s f a =
     (case resident (fm_mach s) f a of
        Some pg \<Rightarrow> pg
      | None \<Rightarrow> (case remote content s f a of Some pg \<Rightarrow> pg | None \<Rightarrow> zero_page))"

definition registered :: "fd \<Rightarrow> 'c fm \<Rightarrow> bool" where
  "registered f s \<longleftrightarrow> f \<in> ms_fd ` set (fm_map s)"

text \<open>
  The descriptor map is one to one and names client objects; every client is well-formed and no
  buffer belongs to two of them. The demands of the store hold: the pages that may be evicted have
  keys and contents it can handle, and if it copies the page it reads then the buffer for reads is mapped and
  belongs to no client.
\<close>

definition fm_core :: "('c \<Rightarrow> ptr set) \<Rightarrow> (machine \<Rightarrow> 'c \<Rightarrow> bool) \<Rightarrow> demands \<Rightarrow> 'c fm \<Rightarrow> bool" where
  "fm_core owns client_ok D s \<longleftrightarrow>
     distinct_keys ms_fd (fm_map s) \<and> distinct_keys ms_client (fm_map s)
     \<and> (\<forall>e \<in> set (fm_map s). client_get (fm_clients s) (ms_client e) \<noteq> None)
     \<and> (\<forall>p c. client_get (fm_clients s) p = Some c \<longrightarrow> client_ok (fm_mach s) c)
     \<and> (\<forall>p q c d. client_get (fm_clients s) p = Some c \<longrightarrow> client_get (fm_clients s) q = Some d \<longrightarrow>
           p \<noteq> q \<longrightarrow> owns c \<inter> owns d = {})
     \<and> bufs (fm_mach s) MAP_FAILED = None
     \<and> (\<forall>f a pg. resident (fm_mach s) f a = Some pg \<longrightarrow> key_ok D a \<and> page_ok D pg)
     \<and> (copies D \<longrightarrow> (\<exists>old. bufs (fm_mach s) (fm_read_tmp_page s) = Some old \<and> page_ok D old) \<and> fm_read_tmp_page s \<noteq> NULL
          \<and> (\<forall>p c. client_get (fm_clients s) p = Some c \<longrightarrow> fm_read_tmp_page s \<notin> owns c))"

text \<open>Every page in the LRU buffer is resident, and its descriptor is registered.\<close>

definition node_resident :: "'c fm \<Rightarrow> cache_node \<Rightarrow> bool" where
  "node_resident s n \<longleftrightarrow>
     registered (cn_ufd n) s \<and> resident (fm_mach s) (cn_ufd n) (cn_hashcode n AND PAGE_MASK) \<noteq> None"

definition lru_resident :: "'c fm \<Rightarrow> bool" where
  "lru_resident s \<longleftrightarrow> lru_wf (fm_lru s) \<and> max_num_items (fm_lru s) < 2 ^ 31 - 2
     \<and> (\<forall>n \<in> set (il (fm_lru s)). node_resident s n)"

definition fm_inv :: "('c \<Rightarrow> ptr set) \<Rightarrow> (machine \<Rightarrow> 'c \<Rightarrow> bool) \<Rightarrow> demands \<Rightarrow> 'c fm \<Rightarrow> bool" where
  "fm_inv owns client_ok D s \<longleftrightarrow> fm_core owns client_ok D s \<and> lru_resident s
     \<and> length (il (fm_lru s)) \<le> max_num_items (fm_lru s) \<and> fm_locks s = {}"

section \<open>Frames\<close>

text \<open>An operation that changes at most the machine and the error flag.\<close>

definition mach_only :: "'c fm \<Rightarrow> 'c fm \<Rightarrow> bool" where
  "mach_only s s' \<longleftrightarrow> s' = s\<lparr>fm_mach := fm_mach s', fm_err := fm_err s'\<rparr>"

lemma mach_only_refl [simp]: "mach_only s s"
  by (simp add: mach_only_def)

lemma mach_only_trans: "mach_only s s' \<Longrightarrow> mach_only s' s'' \<Longrightarrow> mach_only s s''"
  by (cases s; cases s'; cases s'') (auto simp: mach_only_def)

lemma mach_only_fields:
  assumes "mach_only s s'"
  shows "fm_lru s' = fm_lru s" "fm_map s' = fm_map s" "fm_clients s' = fm_clients s"
    "fm_locks s' = fm_locks s" "fm_stats s' = fm_stats s" "fm_read_tmp_page s' = fm_read_tmp_page s"
    "fm_tio s' = fm_tio s" "fm_pc s' = fm_pc s"
  using assms by (cases s; cases s'; simp add: mach_only_def)+

lemma mach_only_log_err [simp]: "mach_only s s' \<Longrightarrow> mach_only s (log_err s')"
  by (cases s; cases s') (auto simp: mach_only_def log_err_def)

lemma mach_only_mach [simp]: "mach_only s s' \<Longrightarrow> mach_only s (s'\<lparr>fm_mach := M\<rparr>)"
  by (cases s; cases s') (auto simp: mach_only_def)

lemma mach_only_recoverable [simp]: "mach_only s s' \<Longrightarrow> mach_only s (log_recoverable_err E s')"
  by (simp add: log_recoverable_err_def)

lemma mach_only_munmap [simp]: "mach_only s s' \<Longrightarrow> mach_only s (fm_munmap E p s')"
  by (simp add: fm_munmap_def split: prod.splits)

lemma log_err_mach [simp]: "fm_mach (log_err s) = fm_mach s"
  by (simp add: log_err_def)

lemma log_recoverable_err_mach [simp]: "fm_mach (log_recoverable_err E s) = fm_mach s"
  by (simp add: log_recoverable_err_def)

lemma fm_munmap_pages:
  assumes "kernel_ok (e_kernel E)"
  shows "bufs (fm_mach (fm_munmap E p s)) = (bufs (fm_mach s))(p := None)"
    and "resident (fm_mach (fm_munmap E p s)) = resident (fm_mach s)"
proof -
  obtain r M where m: "k_munmap (e_kernel E) p (fm_mach s) = (r, M)" by fastforce
  show "bufs (fm_mach (fm_munmap E p s)) = (bufs (fm_mach s))(p := None)"
    "resident (fm_mach (fm_munmap E p s)) = resident (fm_mach s)"
    using munmap_effect [OF assms m] m by (simp_all add: fm_munmap_def)
qed

section \<open>The eviction attempts\<close>

lemma get_local_tmp_page_cases:
  assumes "kernel_ok (e_kernel E)" and "get_local_tmp_page E s = (p, s1)"
  obtains "p = MAP_FAILED" "mach_only s s1" "bufs (fm_mach s1) = bufs (fm_mach s)"
    "resident (fm_mach s1) = resident (fm_mach s)"
  | "p \<noteq> MAP_FAILED" "p \<noteq> NULL" "bufs (fm_mach s) p = None" "mach_only s s1"
    "bufs (fm_mach s1) = (bufs (fm_mach s))(p \<mapsto> zero_page)"
    "resident (fm_mach s1) = resident (fm_mach s)"
proof -
  obtain q M where m: "k_mmap (e_kernel E) (fm_mach s) = (q, M)" by fastforce
  have "MAP_FAILED \<noteq> NULL" by (simp add: MAP_FAILED_def)
  then show thesis
    using assms(2) m that
    by (cases rule: mmap_cases [OF assms(1) m]) (auto simp: get_local_tmp_page_def same_pages_def)
qed

lemma clear_missing:
  "resident M f a = None \<Longrightarrow> (resident M)(f := (resident M f)(a := None)) = resident M"
  by (simp add: fun_upd_idem)

lemma evict_page_cases:
  assumes "kernel_ok (e_kernel E)" and "evict_page E f p a s = (r, s1)"
  obtains "r = 0" "mach_only s s1" "bufs (fm_mach s) p \<noteq> None"
    "bufs (fm_mach s1) = (case resident (fm_mach s) f (a AND PAGE_MASK) of
        None \<Rightarrow> bufs (fm_mach s) | Some pg \<Rightarrow> (bufs (fm_mach s))(p \<mapsto> pg))"
    "resident (fm_mach s1) = (resident (fm_mach s))
        (f := (resident (fm_mach s) f)(a AND PAGE_MASK := None))"
  | "r \<noteq> 0" "mach_only s s1" "bufs (fm_mach s1) = bufs (fm_mach s)"
    "resident (fm_mach s1) = resident (fm_mach s)"
proof -
  obtain e M where m: "k_remap_out (e_kernel E) f p (a AND PAGE_MASK) (fm_mach s) = (e, M)"
    by fastforce
  from assms(2) m that show thesis
    by (cases rule: remap_out_cases [OF assms(1) m])
      (auto simp: evict_page_def Let_def clear_missing split: if_splits)
qed

text \<open>
  What the retry loop leaves behind. On success the temporary page is fresh and holds the evicted
  page; otherwise nothing moved, and the temporary page is still there for the caller to free.
\<close>

definition evicted :: "fd \<Rightarrow> u64 \<Rightarrow> ptr \<Rightarrow> machine \<Rightarrow> machine \<Rightarrow> bool" where
  "evicted f a p M M' \<longleftrightarrow> p \<noteq> NULL \<and> p \<noteq> MAP_FAILED \<and> bufs M p = None
     \<and> bufs M' = (bufs M)(p \<mapsto> (case resident M f a of None \<Rightarrow> zero_page | Some pg \<Rightarrow> pg))
     \<and> resident M' = (resident M)(f := (resident M f)(a := None))"

definition not_evicted :: "ptr \<Rightarrow> machine \<Rightarrow> machine \<Rightarrow> bool" where
  "not_evicted p M M' \<longleftrightarrow> bufs M p = None \<and> (bufs M')(p := None) = bufs M \<and> resident M' = resident M"

lemma evict_switch_mach:
  "evict_switch E r n s = (ret, retry, s') \<Longrightarrow>
     mach_only s s' \<and> fm_mach s' = fm_mach s \<and> ret \<in> {-1, 1, 2} \<and> (retry = 0 \<or> retry = n)"
  by (auto simp: evict_switch_def split: if_splits)

lemma attempt_pages:
  assumes K: "kernel_ok (e_kernel E)" and mf: "bufs (fm_mach s) MAP_FAILED = None"
    and g: "get_local_tmp_page E s = (p, s1)" and e: "evict_page E f p a s1 = (r, s2)"
  shows "p \<noteq> NULL \<and> mach_only s s2
     \<and> (if r = 0 then evicted f (a AND PAGE_MASK) p (fm_mach s) (fm_mach s2)
        else not_evicted p (fm_mach s) (fm_mach s2))"
  using K g
proof (cases rule: get_local_tmp_page_cases)
  case 1
  from K e show ?thesis
  proof (cases rule: evict_page_cases)
    case 1
    then show ?thesis using mf \<open>p = MAP_FAILED\<close> \<open>bufs (fm_mach s1) = _\<close> by simp
  next
    case 2
    then show ?thesis using 1 mf mach_only_trans
      by (auto simp: not_evicted_def fun_upd_idem MAP_FAILED_def)
  qed
next
  case 2
  note p = 2
  from K e show ?thesis
  proof (cases rule: evict_page_cases)
    case 1
    then show ?thesis using p mach_only_trans [OF p(4) 1(2)]
      by (auto simp: evicted_def split: option.splits)
  next
    case 2
    then show ?thesis using p mach_only_trans [OF p(4) 2(2)]
      by (auto simp: not_evicted_def fun_upd_idem)
  qed
qed

lemma evict_attempts_pages:
  assumes "kernel_ok (e_kernel E)" and "bufs (fm_mach s) MAP_FAILED = None" and "0 < n"
  shows "\<exists>ret p s1. evict_attempts E n f a s = Inr (ret, p, s1)
     \<and> mach_only s s1 \<and> ret \<in> {-1, 0, 1, 2}
     \<and> (if ret = 0 then evicted f (a AND PAGE_MASK) p (fm_mach s) (fm_mach s1)
        else not_evicted p (fm_mach s) (fm_mach s1))"
  using assms(2,3)
proof (induction n arbitrary: s)
  case (Suc n s)
  obtain p s1 where g: "get_local_tmp_page E s = (p, s1)" by fastforce
  obtain r s2 where e: "evict_page E f p a s1 = (r, s2)" by fastforce
  note at = attempt_pages [OF assms(1) Suc.prems(1) g e]
  show ?case
  proof (cases "r = 0")
    case True
    then show ?thesis using g e at by simp
  next
    case False
    obtain ret retry s3 where sw: "evict_switch E r n s2 = (ret, retry, s3)"
      by (metis prod_cases3)
    note s3 = evict_switch_mach [OF sw]
    have m3: "mach_only s s3" using at s3 mach_only_trans by blast
    have ne: "not_evicted p (fm_mach s) (fm_mach s3)" using at s3 False by simp
    show ?thesis
    proof (cases "retry = 0")
      case True
      then show ?thesis using g e at sw s3 False m3 ne by (intro exI [of _ ret] exI [of _ p]) auto
    next
      case retry: False
      let ?s = "fm_munmap E p s3"
      have same: "bufs (fm_mach ?s) = bufs (fm_mach s)" "resident (fm_mach ?s) = resident (fm_mach s)"
        using ne fm_munmap_pages [OF assms(1)] by (simp_all add: not_evicted_def)
      have "0 < n" using retry s3 by auto
      from Suc.IH [OF _ this, of ?s] Suc.prems(1) same obtain ret' p' s4 where
        *: "evict_attempts E n f a ?s = Inr (ret', p', s4)" "mach_only ?s s4" "ret' \<in> {-1, 0, 1, 2}"
          "if ret' = 0 then evicted f (a AND PAGE_MASK) p' (fm_mach ?s) (fm_mach s4)
           else not_evicted p' (fm_mach ?s) (fm_mach s4)" by auto
      have "mach_only s s4" using mach_only_trans [OF mach_only_munmap [OF m3] *(2)] .
      then show ?thesis using g e at sw False retry * same
        by (auto simp: evicted_def not_evicted_def)
    qed
  qed
qed simp

text \<open>
  What an eviction leaves in the error flag and in the count of skipped writes, and the one answer of
  the kernel after which the page stays where it is without a report.
\<close>

definition refused :: "kernel \<Rightarrow> fd \<Rightarrow> u64 \<Rightarrow> bool" where
  "refused K f a \<longleftrightarrow> (\<exists>M dst. fst (k_remap_out K f dst a M) = EBUSY)"

lemma log_err_kept [simp]: "fm_err (log_err s)" "fm_err s \<Longrightarrow> fm_err (log_recoverable_err E s)"
  "fm_err s \<Longrightarrow> fm_err (fm_munmap E p s)"
  by (simp_all add: log_err_def log_recoverable_err_def fm_munmap_def split: prod.split)

lemma evict_page_busy:
  assumes "evict_page E f p a s = (r, s')"
  shows "fm_err s \<Longrightarrow> fm_err s'" and "r = EBUSY \<Longrightarrow> refused (e_kernel E) f (a AND PAGE_MASK)"
  using assms by (auto simp: evict_page_def refused_def Let_def errno_defs log_err_def split: prod.splits if_splits
      intro!: exI [of _ p] exI [of _ "fm_mach s"])

lemma evict_switch_busy:
  assumes "evict_switch E r n s = (ret, retry, s')"
  shows "fm_err s \<Longrightarrow> fm_err s'" and "ret = 2 \<Longrightarrow> r = EBUSY"
  using assms by (auto simp: evict_switch_def split: if_splits)

lemma evict_attempts_busy:
  assumes "evict_attempts E n f a s = Inr (ret, p, s')"
  shows "(fm_err s \<longrightarrow> fm_err s') \<and> (ret = 2 \<longrightarrow> refused (e_kernel E) f (a AND PAGE_MASK))"
  using assms
proof (induction n arbitrary: s)
  case (Suc n)
  obtain q s1 where g: "get_local_tmp_page E s = (q, s1)" by fastforce
  obtain r s2 where e: "evict_page E f q a s1 = (r, s2)" by fastforce
  obtain c k s3 where sw: "evict_switch E r n s2 = (c, k, s3)" by (metis prod_cases3)
  have "fm_err s \<Longrightarrow> fm_err s1"
    using g by (auto simp: get_local_tmp_page_def log_err_def split: prod.splits if_splits)
  note err = this evict_page_busy [OF e] evict_switch_busy [OF sw]
  show ?case using Suc.prems Suc.IH [of "fm_munmap E q s3"] g e sw err by (auto split: if_splits)
qed simp

lemma evict_to_externram_busy:
  assumes "evict_to_externram E f a s = Some (ret, s')" "e_cfg E = plain_config" "kernel_ok (e_kernel E)"
    and "bufs (fm_mach s) MAP_FAILED = None"
  shows "fm_err s \<longrightarrow> fm_err s'" and "ret = 2 \<longrightarrow> refused (e_kernel E) f (a AND PAGE_MASK)"
    and "writes_skipped_invalid (fm_stats s') = writes_skipped_invalid (fm_stats s)"
proof -
  obtain r p s1 where at: "evict_attempts E 5 f a s = Inr (r, p, s1)" "mach_only s s1"
    using evict_attempts_pages [OF assms(3,4), of 5 f a] by auto
  note b = evict_attempts_busy [OF at(1)]
  have m: "writes_skipped_invalid (fm_stats (fm_munmap E q t)) = writes_skipped_invalid (fm_stats t)" for q t
    by (simp add: fm_munmap_def log_err_def split: prod.split)
  have s1: "fm_stats s1 = fm_stats s" using mach_only_fields [OF at(2)] by simp
  have "(fm_err s1 \<longrightarrow> fm_err s') \<and> writes_skipped_invalid (fm_stats s') = writes_skipped_invalid (fm_stats s1)
      \<and> (ret = r)"
    using assms(1,2) at(1)
    by (auto simp: evict_to_externram_def evict_store_def evict_write_def fm_writePage_def put_client_def Let_def m
        plain_config_def bind_eq_Some_conv upd_stats_def StatsIncrPageEvicted_def log_err_def split: if_splits prod.splits)
  then show "fm_err s \<longrightarrow> fm_err s'" "ret = 2 \<longrightarrow> refused (e_kernel E) f (a AND PAGE_MASK)"
    "writes_skipped_invalid (fm_stats s') = writes_skipped_invalid (fm_stats s)"
    using b s1 by auto
qed

section \<open>Frames for the clients\<close>

text \<open>The buffers an eviction must leave alone: those of the clients and the one for reads.\<close>

definition owned :: "('c \<Rightarrow> ptr set) \<Rightarrow> demands \<Rightarrow> 'c fm \<Rightarrow> ptr set" where
  "owned owns D s = {q. \<exists>r d. client_get (fm_clients s) r = Some d \<and> q \<in> owns d}
     \<union> (if copies D then {fm_read_tmp_page s} else {})"

lemma fd_client_Some:
  assumes "fm_core owns client_ok D s" "registered f s"
  obtains e c where "hash_find ms_fd f (fm_map s) = Some e" "e \<in> set (fm_map s)" "ms_fd e = f"
    "client_get (fm_clients s) (ms_client e) = Some c" "fd_client f s = Some c"
proof -
  have d: "distinct_keys ms_fd (fm_map s)" using assms(1) by (simp add: fm_core_def)
  then obtain e where e: "hash_find ms_fd f (fm_map s) = Some e"
    using assms(2) fdmap.find_None by (fastforce simp: registered_def)
  then have "e \<in> set (fm_map s)" "ms_fd e = f" using fdmap.find_iff [OF d] by auto
  moreover from this(1) obtain c where "client_get (fm_clients s) (ms_client e) = Some c"
    using assms(1) by (fastforce simp: fm_core_def)
  ultimately show thesis using that e by (simp add: fd_client_def)
qed

lemma fd_client_other:
  assumes "fm_core owns client_ok D s" "hash_find ms_fd f (fm_map s) = Some e"
    "hash_find ms_fd g (fm_map s) = Some e'" "g \<noteq> f"
  shows "ms_client e' \<noteq> ms_client e"
proof -
  have d: "distinct_keys ms_fd (fm_map s)" "distinct_keys ms_client (fm_map s)"
    using assms(1) by (auto simp: fm_core_def)
  have "e \<in> set (fm_map s)" "e' \<in> set (fm_map s)" "e \<noteq> e'"
    using assms(2-4) fdmap.find_iff [OF d(1)] by auto
  with d(2) show ?thesis by (auto simp: distinct_map inj_on_def)
qed

lemma core_key: "fm_core owns client_ok D s \<Longrightarrow> resident (fm_mach s) f a = Some pg \<Longrightarrow> key_ok D a \<and> page_ok D pg"
  by (simp add: fm_core_def)

context extern_ram
begin

lemma core_frame:
  assumes "fm_core owns client_ok D s"
    and "fm_map s' = fm_map s" "fm_clients s' = fm_clients s" "copies D \<Longrightarrow> fm_read_tmp_page s' = fm_read_tmp_page s"
    and "\<And>q. q \<in> owned owns D s \<Longrightarrow> bufs (fm_mach s') q = bufs (fm_mach s) q"
    and "bufs (fm_mach s') MAP_FAILED = None"
    and "\<And>f a pg. resident (fm_mach s') f a = Some pg \<Longrightarrow> resident (fm_mach s) f a = Some pg \<or> key_ok D a \<and> page_ok D pg"
  shows "fm_core owns client_ok D s'" and "remote content s' = remote content s"
proof -
  have c: "client_ok (fm_mach s') c \<and> content (fm_mach s') c = content (fm_mach s) c"
    if "client_get (fm_clients s) p = Some c" for p c
    using that assms(1,5) by (intro client_frame) (auto simp: fm_core_def owned_def)
  have "copies D \<Longrightarrow> bufs (fm_mach s') (fm_read_tmp_page s) = bufs (fm_mach s) (fm_read_tmp_page s)"
    using assms(5) by (simp add: owned_def)
  moreover have "\<forall>f a pg. resident (fm_mach s') f a = Some pg \<longrightarrow> key_ok D a \<and> page_ok D pg"
    using assms(7) core_key [OF assms(1)] by blast
  ultimately show "fm_core owns client_ok D s'" using assms(1-4,6) c by (simp add: fm_core_def)
  show "remote content s' = remote content s"
    using assms(2,3) c by (fastforce simp: remote_def fd_client_def fun_eq_iff split: Option.bind_splits)
qed

lemma owned_mapped:
  "fm_core owns client_ok D s \<Longrightarrow> q \<in> owned owns D s \<Longrightarrow> bufs (fm_mach s) q \<noteq> None \<and> q \<noteq> NULL"
  using owns_mapped by (fastforce simp: fm_core_def owned_def split: if_splits)

text \<open>A call that replaces a client by one that keeps only its own buffers and some that were free.\<close>

lemma core_client:
  assumes core: "fm_core owns client_ok D s" and c: "client_get (fm_clients s) p = Some c"
    and c': "client_ok (fm_mach s) c'" "owns c' \<subseteq> owns c \<union> V" and V: "V \<inter> owned owns D s = {}"
  shows "fm_core owns client_ok D (s\<lparr>fm_clients := client_set p c' (fm_clients s)\<rparr>)"
proof -
  let ?get = "client_get (client_set p c' (fm_clients s))"
  note cg = client_get_set [OF c, of c']
  note parts = core [unfolded fm_core_def]
  have oth: "owns d \<inter> owns c' = {}" if d: "client_get (fm_clients s) q = Some d" "q \<noteq> p" for q d
  proof -
    have "owns d \<inter> owns c = {}" using parts c d by blast
    moreover have "owns d \<subseteq> owned owns D s" using d by (auto simp: owned_def)
    ultimately show ?thesis using c'(2) V by blast
  qed
  have "owns d \<inter> owns e = {}" if "?get q = Some d" "?get r = Some e" "q \<noteq> r" for q r d e
  proof (cases "q = p \<or> r = p")
    case True
    then show ?thesis using that oth [of q d] oth [of r e] by (auto simp: cg split: if_splits)
  next
    case False
    then have "client_get (fm_clients s) q = Some d" "client_get (fm_clients s) r = Some e" using that by (auto simp: cg)
    then show ?thesis using parts that(3) by blast
  qed
  moreover have "fm_read_tmp_page s \<notin> owns d" if "copies D" "?get q = Some d" for q d
  proof (cases "q = p")
    case True
    then have "d = c'" "fm_read_tmp_page s \<notin> owns c" using that parts c by (auto simp: cg)
    moreover have "fm_read_tmp_page s \<notin> V" using V that(1) by (auto simp: owned_def)
    ultimately show ?thesis using c'(2) by blast
  qed (use that parts in \<open>auto simp: cg\<close>)
  moreover have "?get q \<noteq> None" if "client_get (fm_clients s) q \<noteq> None" for q using that by (simp add: cg)
  moreover have "client_ok (fm_mach s) d" if "?get q = Some d" for q d
    using that parts c'(1) by (auto simp: cg split: if_splits)
  ultimately show ?thesis unfolding fm_core_def using parts by simp
qed

text \<open>Writing a fresh buffer through the client of a descriptor.\<close>

lemma write_core:
  assumes core: "fm_core owns client_ok D s" and reg: "registered f s"
    and lk: "fdUpidMap_lock \<notin> fm_locks s" and B: "e_backend E = B"
    and v: "bufs (fm_mach s) v = Some pg" "v \<noteq> NULL" "v \<notin> owned owns D s"
    and key: "key_ok D a" "page_ok D pg"
  obtains ret s' where "evict_write E f a v s
       = Some (if ret \<noteq> NULL then (False, ret, s') else (True, v, s'))"
    "fm_core owns client_ok D s'" "s' = s\<lparr>fm_clients := fm_clients s'\<rparr>"
    "remote content s' = (remote content s)(f := (remote content s f)(a \<mapsto> pg))"
    "ret \<noteq> NULL \<Longrightarrow> ret \<notin> owned owns D s'" "ret \<noteq> NULL \<Longrightarrow> bufs (fm_mach s) ret \<noteq> None"
proof -
  obtain e c where e: "hash_find ms_fd f (fm_map s) = Some e" "e \<in> set (fm_map s)" "ms_fd e = f"
    and c: "client_get (fm_clients s) (ms_client e) = Some c" "fd_client f s = Some c"
    using core reg by (rule fd_client_Some)
  let ?p = "ms_client e"
  have p: "?p \<noteq> NULL" using c(1) by (auto simp: client_get_def split: if_splits)
  have ok: "client_ok (fm_mach s) c" and vc: "v \<notin> owns c"
    using core c(1) v(3) by (auto simp: fm_core_def owned_def)
  obtain ret c' where w: "writePage B a v (fm_mach s, c) = Some (ret, fm_mach s, c')"
    and c': "client_ok (fm_mach s) c'" "content (fm_mach s) c' = (content (fm_mach s) c)(a \<mapsto> pg)"
      "owns c' \<subseteq> insert v (owns c)" "ret \<noteq> NULL \<Longrightarrow> ret \<in> insert v (owns c) \<and> ret \<notin> owns c'"
    using writePage_ok [OF ok key v(1,2) vc] by metis
  let ?s = "s\<lparr>fm_clients := client_set ?p c' (fm_clients s)\<rparr>"
  note cg = client_get_set [OF c(1), of c']
  have disj: "owns d \<inter> insert v (owns c) = {}"
    if "client_get (fm_clients s) q = Some d" "q \<noteq> ?p" for q d
    using core c(1) that v(3) by (auto simp: fm_core_def owned_def)
  have "fm_core owns client_ok D ?s"
    by (rule core_client [OF core c(1) c'(1), where V = "{v}"]) (use c'(3) v(3) in auto)
  moreover have "remote content ?s = (remote content s)(f := (remote content s f)(a \<mapsto> pg))"
  proof (rule ext)+
    fix g b
    show "remote content ?s g b = ((remote content s)(f := (remote content s f)(a \<mapsto> pg))) g b"
      using c e(1) c'(2) fd_client_other [OF core e(1), of g]
      by (cases "hash_find ms_fd g (fm_map s)") (auto simp: remote_def fd_client_def cg)
  qed
  moreover have "ret \<notin> owned owns D ?s" if "ret \<noteq> NULL"
  proof -
    have "copies D \<Longrightarrow> fm_read_tmp_page s \<notin> insert v (owns c)" using core c(1) v(3) by (auto simp: fm_core_def owned_def)
    then show ?thesis using c'(4) [OF that] disj by (fastforce simp: owned_def cg split: if_splits)
  qed
  moreover have "bufs (fm_mach s) ret \<noteq> None" if "ret \<noteq> NULL"
    using c'(4) [OF that] v(1) owns_mapped [OF ok] by auto
  moreover have "evict_write E f a v s = Some (if ret \<noteq> NULL then (False, ret, ?s) else (True, v, ?s))"
    using e(1) p c(1) w lk B
    by (simp add: evict_write_def fm_client_def get_client_by_fd_free fm_writePage_def put_client_def)
  ultimately show thesis using that [of ret ?s] by simp
qed

end

section \<open>Evicting one page\<close>

text \<open>What an operation of the eviction path may change, and what it keeps.\<close>

definition keeps :: "(machine \<Rightarrow> 'c \<Rightarrow> u64 \<Rightarrow> page option) \<Rightarrow> 'c fm \<Rightarrow> 'c fm \<Rightarrow> bool" where
  "keeps content s s' \<longleftrightarrow> logical content s' = logical content s \<and> fm_map s' = fm_map s
     \<and> fm_locks s' = fm_locks s"

lemma keeps_refl [simp]: "keeps content s s"
  by (simp add: keeps_def)

lemma keeps_trans [trans]: "keeps content s s' \<Longrightarrow> keeps content s' s'' \<Longrightarrow> keeps content s s''"
  by (simp add: keeps_def)

lemma plain_config_simps [simp]:
  "\<not> PAGECACHE plain_config" "\<not> PAGECACHE_ZEROPAGE_OPTIMIZATION plain_config"
  "\<not> THREADED_WRITE_TO_EXTERNRAM plain_config" "\<not> THREADED_PREFETCH plain_config"
  "\<not> ASYNREAD plain_config"
  by (simp_all add: plain_config_def)

lemma logical_cong:
  "resident (fm_mach s') = resident (fm_mach s) \<Longrightarrow> remote content s' = remote content s \<Longrightarrow>
     logical content s' = logical content s"
  by (intro ext) (simp add: logical_def cong: option.case_cong)

context extern_ram
begin

lemma munmap_core:
  assumes K: "kernel_ok K" "e_kernel E = K" and core: "fm_core owns client_ok D s"
    and q: "q \<notin> owned owns D s"
  shows "fm_core owns client_ok D (fm_munmap E q s)"
    and "remote content (fm_munmap E q s) = remote content s"
proof -
  have "kernel_ok (e_kernel E)" using K by simp
  note m = fm_munmap_pages [OF this, of q s]
  have f: "fm_map (fm_munmap E q s) = fm_map s" "fm_clients (fm_munmap E q s) = fm_clients s"
    "fm_read_tmp_page (fm_munmap E q s) = fm_read_tmp_page s"
    using mach_only_fields [OF mach_only_munmap [OF mach_only_refl], of E q s] by auto
  have "\<And>r. r \<in> owned owns D s \<Longrightarrow> bufs (fm_mach (fm_munmap E q s)) r = bufs (fm_mach s) r"
    and "bufs (fm_mach (fm_munmap E q s)) MAP_FAILED = None"
    using q m core by (auto simp: fm_core_def)
  from core_frame [OF core f this] m(2)
  show "fm_core owns client_ok D (fm_munmap E q s)" "remote content (fm_munmap E q s) = remote content s"
    by auto
qed

lemma evict_fail_keeps:
  assumes K: "kernel_ok K" "e_kernel E = K" and core: "fm_core owns client_ok D s"
    and mo: "mach_only s s1" and ne: "not_evicted p (fm_mach s) (fm_mach s1)"
  shows "fm_core owns client_ok D (fm_munmap E p s1)" "keeps content s (fm_munmap E p s1)"
    "fm_lru (fm_munmap E p s1) = fm_lru s"
    "resident (fm_mach (fm_munmap E p s1)) = resident (fm_mach s)"
proof -
  let ?s = "fm_munmap E p s1"
  have "kernel_ok (e_kernel E)" using K by simp
  note m = fm_munmap_pages [OF this, of p s1]
  note f = mach_only_fields [OF mach_only_munmap [OF mo], of E p]
  have b: "bufs (fm_mach ?s) = bufs (fm_mach s)" and r: "resident (fm_mach ?s) = resident (fm_mach s)"
    using ne m by (auto simp: not_evicted_def)
  have "bufs (fm_mach ?s) MAP_FAILED = None" using core b by (simp add: fm_core_def)
  note c = core_frame [OF core f(2,3,6) _ this]
  show "fm_core owns client_ok D ?s" using c(1) b r by simp
  show "keeps content s ?s" using c(2) b r f logical_cong [of ?s s content] by (simp add: keeps_def)
  show "fm_lru ?s = fm_lru s" "resident (fm_mach ?s) = resident (fm_mach s)" using f r by auto
qed

lemma evict_ok_keeps:
  assumes K: "kernel_ok K" "e_kernel E = K" "e_backend E = B"
    and core: "fm_core owns client_ok D s" and reg: "registered f s"
    and lk: "fdUpidMap_lock \<notin> fm_locks s" and res: "resident (fm_mach s) f a = Some pg"
    and mo: "mach_only s s1" and ev: "evicted f a p (fm_mach s) (fm_mach s1)"
  obtains skip q s2 where "evict_write E f a p (upd_stats StatsIncrPageEvicted s1) = Some (skip, q, s2)"
    and "\<And>s'. s' = (if skip then s2 else fm_munmap E q s2) \<Longrightarrow>
       fm_core owns client_ok D s' \<and> keeps content s s' \<and> fm_lru s' = fm_lru s
       \<and> resident (fm_mach s') = (resident (fm_mach s))(f := (resident (fm_mach s) f)(a := None))"
proof -
  let ?s = "upd_stats StatsIncrPageEvicted s1"
  note f = mach_only_fields [OF mo]
  have e: "p \<noteq> NULL" "p \<noteq> MAP_FAILED" "bufs (fm_mach s) p = None"
    "bufs (fm_mach s1) = (bufs (fm_mach s))(p \<mapsto> pg)"
    "resident (fm_mach s1) = (resident (fm_mach s))(f := (resident (fm_mach s) f)(a := None))"
    using ev res by (simp_all add: evicted_def)
  have same: "fm_map ?s = fm_map s" "fm_clients ?s = fm_clients s" "fm_mach ?s = fm_mach s1"
    "fm_locks ?s = fm_locks s" "fm_lru ?s = fm_lru s" "fm_read_tmp_page ?s = fm_read_tmp_page s"
    using f by (simp_all add: upd_stats_def)
  have fr: "p \<notin> owned owns D s" using owned_mapped [OF core, of p] e(3) by auto
  then have b: "\<And>q. q \<in> owned owns D s \<Longrightarrow> bufs (fm_mach ?s) q = bufs (fm_mach s) q"
    and b0: "bufs (fm_mach ?s) MAP_FAILED = None"
    using e(2,4) same core by (auto simp: fm_core_def)
  have r: "resident (fm_mach ?s) g b = Some pg' \<Longrightarrow> resident (fm_mach s) g b = Some pg' \<or> key_ok D b \<and> page_ok D pg'" for g b pg'
    using e(5) same(3) by (auto split: if_splits)
  note core1 = core_frame [OF core same(1,2,6) b b0 r]
  have key: "key_ok D a" "page_ok D pg" using core_key [OF core res] by simp_all
  have reg1: "registered f ?s" and lk1: "fdUpidMap_lock \<notin> fm_locks ?s"
    and v: "bufs (fm_mach ?s) p = Some pg" and fr1: "p \<notin> owned owns D ?s"
    using reg lk e(4) fr same by (auto simp: registered_def owned_def)
  obtain ret s2 where w: "evict_write E f a p ?s
       = Some (if ret \<noteq> NULL then (False, ret, s2) else (True, p, s2))"
    and s2: "fm_core owns client_ok D s2" "s2 = ?s\<lparr>fm_clients := fm_clients s2\<rparr>"
      "remote content s2 = (remote content ?s)(f := (remote content ?s f)(a \<mapsto> pg))"
      "ret \<noteq> NULL \<Longrightarrow> ret \<notin> owned owns D s2"
    using write_core [OF core1(1) reg1 lk1 K(3) v e(1) fr1 key] by metis
  have s2f: "fm_map s2 = fm_map s" "fm_mach s2 = fm_mach s1" "fm_locks s2 = fm_locks s" "fm_lru s2 = fm_lru s"
    using same by (subst s2(2); simp)+
  have l2: "logical content s2 = logical content s"
    using e(5) res s2(3) core1(2) by (intro ext) (auto simp: logical_def s2f cong: option.case_cong)
  define s' where "s' = (if ret \<noteq> NULL then fm_munmap E ret s2 else s2)"
  have "fm_core owns client_ok D s'" "remote content s' = remote content s2"
    using s2(1,4) munmap_core [OF K(1,2) s2(1)] by (auto simp: s'_def)
  moreover have "resident (fm_mach s') = resident (fm_mach s2)"
    using fm_munmap_pages(2) [of E ret s2] K by (auto simp: s'_def)
  moreover have "fm_map s' = fm_map s" "fm_locks s' = fm_locks s" "fm_lru s' = fm_lru s"
    using s2f mach_only_fields [OF mach_only_munmap [OF mach_only_refl], of E ret s2]
    by (auto simp: s'_def)
  ultimately have "fm_core owns client_ok D s' \<and> keeps content s s' \<and> fm_lru s' = fm_lru s
     \<and> resident (fm_mach s') = (resident (fm_mach s))(f := (resident (fm_mach s) f)(a := None))"
    using l2 logical_cong [of s' s2 content] s2f(2) e(5) by (simp add: keeps_def)
  then show thesis
    using w that [of "ret = NULL" "if ret \<noteq> NULL then ret else p" s2] by (auto simp: s'_def split: if_splits)
qed

lemma evict_to_externram_keeps:
  assumes K: "kernel_ok K" "e_kernel E = K" "e_backend E = B" "e_cfg E = plain_config"
    and core: "fm_core owns client_ok D s" and reg: "registered f s"
    and lk: "fdUpidMap_lock \<notin> fm_locks s" and al: "page_aligned a"
    and res: "resident (fm_mach s) f a \<noteq> None"
  obtains ret s' where "evict_to_externram E f a s = Some (ret, s')" "ret \<in> {-1, 0, 1, 2}"
    "fm_core owns client_ok D s'" "keeps content s s'" "fm_lru s' = fm_lru s"
    "resident (fm_mach s') = (if ret = 0
       then (resident (fm_mach s))(f := (resident (fm_mach s) f)(a := None)) else resident (fm_mach s))"
proof -
  have k: "kernel_ok (e_kernel E)" and m: "bufs (fm_mach s) MAP_FAILED = None"
    using K core by (auto simp: fm_core_def)
  have a: "a AND PAGE_MASK = a" using al by (rule page_alignedD)
  obtain pg where pg: "resident (fm_mach s) f a = Some pg" using res by auto
  obtain ret p s1 where at: "evict_attempts E 5 f a s = Inr (ret, p, s1)" "mach_only s s1"
    "ret \<in> {-1, 0, 1, 2}"
    "if ret = 0 then evicted f a p (fm_mach s) (fm_mach s1) else not_evicted p (fm_mach s) (fm_mach s1)"
    using evict_attempts_pages [OF k m, of 5 f a] a by auto
  show thesis
  proof (cases "ret = 0")
    case True
    with at(4) have ev: "evicted f a p (fm_mach s) (fm_mach s1)" by simp
    obtain skip q s2 where w: "evict_write E f a p (upd_stats StatsIncrPageEvicted s1) = Some (skip, q, s2)"
      and s2: "\<And>s'. s' = (if skip then s2 else fm_munmap E q s2) \<Longrightarrow>
       fm_core owns client_ok D s' \<and> keeps content s s' \<and> fm_lru s' = fm_lru s
       \<and> resident (fm_mach s') = (resident (fm_mach s))(f := (resident (fm_mach s) f)(a := None))"
      using evict_ok_keeps [OF K(1-3) core reg lk pg at(2) ev] by metis
    have "bufs (fm_mach (upd_stats StatsIncrPageEvicted s1)) p = Some pg"
      using ev pg by (simp add: evicted_def upd_stats_def)
    then have "evict_to_externram E f a s = Some (0, if skip then s2 else fm_munmap E q s2)"
      using at(1) True w K(4) by (simp add: evict_to_externram_def evict_store_def Let_def)
    with s2 [OF refl] show thesis using that by simp
  next
    case False
    with at(4) have ne: "not_evicted p (fm_mach s) (fm_mach s1)" by simp
    have "evict_to_externram E f a s = Some (ret, fm_munmap E p s1)"
      using at(1) False by (simp add: evict_to_externram_def)
    with evict_fail_keeps [OF K(1,2) core at(2) ne] at(3) False show thesis using that by simp
  qed
qed

end

section \<open>Evicting nodes of the LRU buffer\<close>

text \<open>
  The page of a node has left the application, unless an error was reported, a write was counted as
  skipped, or the kernel answers for this page that it is busy, as it does for a page of zeros that is
  shared.
\<close>

definition gone :: "kernel \<Rightarrow> 'c fm \<Rightarrow> 'c fm \<Rightarrow> cache_node \<Rightarrow> bool" where
  "gone K s s' n \<longleftrightarrow> resident (fm_mach s') (cn_ufd n) (cn_hashcode n AND PAGE_MASK) = None \<or> fm_err s'
     \<or> writes_skipped_invalid (fm_stats s') \<noteq> writes_skipped_invalid (fm_stats s)
     \<or> refused K (cn_ufd n) (cn_hashcode n AND PAGE_MASK)"

text \<open>The same in the course of the loop, with the number of writes skipped so far.\<close>

definition skipped :: "kernel \<Rightarrow> nat \<Rightarrow> cache_node set \<Rightarrow> 'c fm \<Rightarrow> 'c fm \<Rightarrow> bool" where
  "skipped K k N s s' \<longleftrightarrow> (fm_err s \<longrightarrow> fm_err s')
     \<and> writes_skipped_invalid (fm_stats s') = writes_skipped_invalid (fm_stats s) + word_of_nat k
     \<and> (\<forall>f a. resident (fm_mach s) f a = None \<longrightarrow> resident (fm_mach s') f a = None)
     \<and> (\<forall>n \<in> N. resident (fm_mach s') (cn_ufd n) (cn_hashcode n AND PAGE_MASK) = None \<or> fm_err s' \<or> 0 < k
          \<or> refused K (cn_ufd n) (cn_hashcode n AND PAGE_MASK))"

lemma skipped_refl: "skipped K 0 {} s s"
  by (simp add: skipped_def)

lemma skipped_trans: "skipped K k N s s' \<Longrightarrow> skipped K l N' s' s'' \<Longrightarrow> skipped K (k + l) (N \<union> N') s s''"
  by (auto simp: skipped_def)

lemma skipped_gone:
  assumes "skipped K k N s s'" "k < 2 ^ 64" "n \<in> N"
  shows "gone K s s' n"
proof -
  have "(word_of_nat k :: u64) \<noteq> 0" if "0 < k"
    using that assms(2) by (simp add: word_of_nat_eq_0_iff nat_dvd_not_less)
  then show ?thesis using assms(1,3) by (auto simp: skipped_def gone_def)
qed

lemma node_pair:
  assumes "node_ok m" "node_ok n" "cn_ufd m = cn_ufd n"
    "cn_hashcode m AND PAGE_MASK = cn_hashcode n AND PAGE_MASK"
  shows "cn_hashcode m = cn_hashcode n"
  using assms unfolding node_ok_def by (metis hash_page_key_masked)

lemma registered_cong: "fm_map s' = fm_map s \<Longrightarrow> registered f s' = registered f s"
  by (simp add: registered_def)

lemma keeps_registered: "keeps content s s' \<Longrightarrow> registered f s' = registered f s"
  by (simp add: keeps_def registered_def)

text \<open>The LRU buffer and the statistics do not occur in the contents or the core invariant.\<close>

lemma core_agree:
  assumes "fm_map s' = fm_map s" "fm_clients s' = fm_clients s" "fm_mach s' = fm_mach s"
    and "fm_read_tmp_page s' = fm_read_tmp_page s"
  shows "fm_core owns client_ok D s' = fm_core owns client_ok D s"
    and "logical content s' = logical content s"
    and "node_resident s' = node_resident s"
    and "registered f s' = registered f s"
proof -
  have "remote content s' = remote content s"
    using assms by (simp add: remote_def fd_client_def fun_eq_iff)
  then show "logical content s' = logical content s" using assms by (intro logical_cong) auto
qed (use assms in \<open>simp_all add: fm_core_def node_resident_def registered_def fun_eq_iff\<close>)

lemma core_put_lru [simp]:
  "fm_core owns client_ok D (put_lru ls s) = fm_core owns client_ok D s"
  "logical content (put_lru ls s) = logical content s"
  "node_resident (put_lru ls s) = node_resident s"
  "registered f (put_lru ls s) = registered f s"
  by (rule core_agree; simp add: put_lru_def)+

lemma core_upd_stats [simp]:
  "fm_core owns client_ok D (upd_stats g s) = fm_core owns client_ok D s"
  "logical content (upd_stats g s) = logical content s"
  "node_resident (upd_stats g s) = node_resident s"
  "registered f (upd_stats g s) = registered f s"
  by (rule core_agree; simp add: upd_stats_def)+

lemma core_log_err [simp]:
  "fm_core owns client_ok D (log_err s) = fm_core owns client_ok D s"
  "logical content (log_err s) = logical content s"
  "node_resident (log_err s) = node_resident s"
  "registered f (log_err s) = registered f s"
  by (rule core_agree; simp add: log_err_def)+

lemma core_locks [simp]:
  "fm_core owns client_ok D (s\<lparr>fm_locks := H\<rparr>) = fm_core owns client_ok D s"
  "logical content (s\<lparr>fm_locks := H\<rparr>) = logical content s"
  "node_resident (s\<lparr>fm_locks := H\<rparr>) = node_resident s"
  "registered f (s\<lparr>fm_locks := H\<rparr>) = registered f s"
  by (rule core_agree; simp)+

lemma frame_fields [simp]:
  "fm_lru (put_lru ls s) = fst ls" "fm_locks (put_lru ls s) = fm_locks s"
  "fm_map (put_lru ls s) = fm_map s" "fm_mach (put_lru ls s) = fm_mach s"
  "fm_lru (upd_stats g s) = fm_lru s" "fm_locks (upd_stats g s) = fm_locks s"
  "fm_map (upd_stats g s) = fm_map s" "fm_mach (upd_stats g s) = fm_mach s"
  "fm_lru (log_err s) = fm_lru s" "fm_locks (log_err s) = fm_locks s" "fm_map (log_err s) = fm_map s"
  by (simp_all add: put_lru_def upd_stats_def log_err_def)

context extern_ram
begin

lemma evict_node_keeps:
  assumes K: "kernel_ok K" "e_kernel E = K" "e_backend E = B" "e_cfg E = plain_config"
    and core: "fm_core owns client_ok D s" and lk: "fdUpidMap_lock \<notin> fm_locks s"
    and n: "node_ok n" "node_resident s n"
  obtains ret s' where
    "evict_to_externram E (cn_ufd n) (cn_hashcode n AND PAGE_MASK) s = Some (ret, s')"
    "ret \<in> {-1, 0, 1, 2}" "fm_core owns client_ok D s'" "keeps content s s'" "fm_lru s' = fm_lru s"
    "\<And>m. node_ok m \<Longrightarrow> node_resident s m \<Longrightarrow> ret \<noteq> 0 \<or> cn_hashcode m \<noteq> cn_hashcode n \<Longrightarrow>
        node_resident s' m"
    "resident (fm_mach s') = (if ret = 0
       then (resident (fm_mach s))(cn_ufd n := (resident (fm_mach s) (cn_ufd n))
              (cn_hashcode n AND PAGE_MASK := None)) else resident (fm_mach s))"
proof -
  have reg: "registered (cn_ufd n) s"
    and res: "resident (fm_mach s) (cn_ufd n) (cn_hashcode n AND PAGE_MASK) \<noteq> None"
    using n(2) by (auto simp: node_resident_def)
  obtain ret s' where e:
    "evict_to_externram E (cn_ufd n) (cn_hashcode n AND PAGE_MASK) s = Some (ret, s')"
    "ret \<in> {-1, 0, 1, 2}" "fm_core owns client_ok D s'" "keeps content s s'" "fm_lru s' = fm_lru s"
    "resident (fm_mach s') = (if ret = 0
       then (resident (fm_mach s))(cn_ufd n := (resident (fm_mach s) (cn_ufd n))
              (cn_hashcode n AND PAGE_MASK := None)) else resident (fm_mach s))"
    using evict_to_externram_keeps [OF K core reg lk page_aligned_mask res] by metis
  have "node_resident s' m" if m: "node_ok m" "node_resident s m"
    "ret \<noteq> 0 \<or> cn_hashcode m \<noteq> cn_hashcode n" for m
    using m n(1) e(4,6) node_pair [OF m(1) n(1)] by (auto simp: node_resident_def keeps_registered)
  with e(1-5) show thesis using e(6) by (rule that)
qed

end

section \<open>Making room\<close>

lemma lockS_free: "l \<notin> fm_locks s \<Longrightarrow> lockS l s = Some (s\<lparr>fm_locks := insert l (fm_locks s)\<rparr>)"
  by (simp add: lockS_def)

lemma unlockS_put_lru:
  "l \<notin> fm_locks s \<Longrightarrow>
     unlockS l (put_lru ls (s\<lparr>fm_locks := insert l (fm_locks s)\<rparr>)) = Some (put_lru ls s)"
  by (cases s) (simp add: unlockS_def put_lru_def)

lemma unlockS_held:
  "fm_locks s = insert l H \<Longrightarrow> l \<notin> H \<Longrightarrow> unlockS l s = Some (s\<lparr>fm_locks := H\<rparr>)"
  by (simp add: unlockS_def)

text \<open>A node that is pushed may be any resident page.\<close>

lemma lru_resident_push:
  assumes "lru_resident s" "node_ok x" "node_resident s x"
    and "il l = lru_insert x (il (fm_lru s))" "max_num_items l = max_num_items (fm_lru s)"
  shows "lru_resident (put_lru (l, st) s)"
  using assms lru_wf_push [of "fm_lru s" x]
    lru.set_push_subset [OF lru_wf_distinct, of "fm_lru s" x]
  by (auto simp: lru_resident_def lru_wf_def)

lemma lru_resident_butlast:
  assumes "lru_resident s"
  shows "lru_resident (put_lru ((fm_lru s)\<lparr>il := butlast (il (fm_lru s))\<rparr>, st) s)"
  using assms lru_wf_butlast [of "fm_lru s"] by (auto simp: lru_resident_def dest: in_set_butlastD)

lemma lru_resident_mono:
  assumes "lru_resident s" "fm_lru s' = fm_lru s"
    and "\<And>m. m \<in> set (il (fm_lru s)) \<Longrightarrow> node_resident s' m"
  shows "lru_resident s'"
  using assms by (simp add: lru_resident_def)

lemma last_hashcode_ne:
  assumes "distinct_keys cn_hashcode xs" "m \<in> set (butlast xs)"
  shows "cn_hashcode m \<noteq> cn_hashcode (last xs)"
proof -
  have "cn_hashcode m \<in> cn_hashcode ` set (butlast xs)" using assms(2) by (rule imageI)
  moreover have "cn_hashcode (last xs) \<notin> cn_hashcode ` set (butlast xs)"
    using assms by (cases xs rule: rev_cases) auto
  ultimately show ?thesis by metis
qed

lemma hd_key_notin_drop:
  assumes "distinct_keys key xs" "0 < k" "xs \<noteq> []"
  shows "key (hd xs) \<notin> key ` set (drop k xs)"
  using assms by (cases xs; cases k) (auto dest: in_set_dropD)

lemma hd_key_ne_last:
  assumes "distinct_keys key xs" "2 \<le> length xs"
  shows "key (last xs) \<noteq> key (hd xs)"
proof -
  have "xs \<noteq> []" using assms(2) by auto
  moreover have "last xs \<in> set (drop 1 xs)"
    using assms(2) by (metis One_nat_def Suc_1 Suc_le_lessD drop_eq_Nil2 last_drop last_in_set linorder_not_le)
  ultimately show ?thesis using hd_key_notin_drop [OF assms(1), of 1] by (metis imageI less_one)
qed

text \<open>The page of the node is resident and is not among the pages past the bound, which go next.\<close>

definition stays :: "'c fm \<Rightarrow> cache_node \<Rightarrow> bool" where
  "stays s x \<longleftrightarrow> node_resident s x
     \<and> cn_hashcode x \<notin> cn_hashcode ` set (drop (max_num_items (fm_lru s)) (il (fm_lru s)))"

lemma stays_agree [simp]:
  "stays (upd_stats g s) x = stays s x" "stays (log_err s) x = stays s x"
  by (simp_all add: stays_def)

lemma stays_fits:
  "length (il (fm_lru s)) \<le> max_num_items (fm_lru s) \<Longrightarrow> node_resident s x \<Longrightarrow> stays s x"
  by (simp add: stays_def)

text \<open>The page at the front stays even if another one is pushed, when there is room for two.\<close>

lemma stays_pushed:
  assumes "distinct_keys cn_hashcode (n # xs)" "xs \<noteq> []" "2 \<le> max_num_items (fm_lru s)"
    and "il (fm_lru s) = n # xs" "cn_hashcode x = cn_hashcode (hd xs)" "node_resident s x"
  shows "stays s x"
proof -
  obtain k where k: "max_num_items (fm_lru s) = Suc k" "0 < k"
    using assms(3) by (cases "max_num_items (fm_lru s)") auto
  then have "cn_hashcode (hd xs) \<notin> cn_hashcode ` set (drop k xs)"
    using assms(1,2) by (intro hd_key_notin_drop) auto
  then show ?thesis using assms k by (simp add: stays_def)
qed

lemma pushed_stays:
  assumes "distinct_keys cn_hashcode xs" "2 \<le> max_num_items (fm_lru s)" "max_num_items (fm_lru s) < length xs"
    and "il (fm_lru s) = lru_insert (last xs) (butlast xs)"
    and "cn_hashcode (hd xs) = cn_hashcode x" "node_resident s x"
  shows "stays s x"
proof -
  obtain y ys where ys: "xs = y # ys @ [last xs]"
    using assms(2,3) by (cases xs; cases "tl xs" rule: rev_cases) auto
  have fr: "cn_hashcode (last xs) \<notin> cn_hashcode ` set (butlast xs)"
    using assms(1) ys by (cases xs rule: rev_cases) auto
  then have "il (fm_lru s) = last xs # butlast xs"
    using assms(4) by (simp add: lru.push_fresh)
  moreover have "butlast xs = y # ys" by (subst ys) (simp add: butlast_append)
  moreover have "hd xs = y" by (subst ys) simp
  moreover have "distinct_keys cn_hashcode (last xs # butlast xs)"
    using fr distinct_butlast [OF assms(1)] by (simp flip: map_butlast)
  ultimately show ?thesis using assms(2,5,6) by (intro stays_pushed [of "last xs" "butlast xs"]) auto
qed

lemma insertCacheNode_push:
  "\<exists>st'. insertCacheNode k f (l, st) = Some (l\<lparr>il := lru_insert (new_node k f) (il l)\<rparr>, st')"
  by (simp add: insertCacheNode_def insertCacheNode_impl_def Let_def)

context extern_ram
begin

text \<open>Evicting the oldest node, after it was taken off the buffer.\<close>

lemma evict_last_keeps:
  assumes K: "kernel_ok K" "e_kernel E = K" "e_backend E = B" "e_cfg E = plain_config"
    and core: "fm_core owns client_ok D s" and lk: "fdUpidMap_lock \<notin> fm_locks s"
    and lr: "lru_resident s" and ne: "il (fm_lru s) \<noteq> []"
    and s1: "s1 = put_lru ((fm_lru s)\<lparr>il := butlast (il (fm_lru s))\<rparr>, st) s"
    and n: "n = last (il (fm_lru s))"
  obtains ret s2 where
    "evict_to_externram E (cn_ufd n) (cn_hashcode n AND PAGE_MASK) s1 = Some (ret, s2)"
    "ret \<in> {-1, 0, 1, 2}" "fm_core owns client_ok D s2" "keeps content s s2" "fm_lru s2 = fm_lru s1"
    "lru_resident s2" "ret \<noteq> 0 \<Longrightarrow> node_resident s2 n" "node_ok n"
    "\<And>m. node_ok m \<Longrightarrow> node_resident s m \<Longrightarrow> cn_hashcode m \<noteq> cn_hashcode n \<Longrightarrow> node_resident s2 m"
proof -
  have wf: "lru_wf (fm_lru s)" and res: "\<forall>m \<in> set (il (fm_lru s)). node_resident s m"
    using lr by (auto simp: lru_resident_def)
  have nin: "n \<in> set (il (fm_lru s))" using ne n by simp
  have ok: "node_ok n" and nr: "node_resident s1 n"
    using nin wf res s1 by (auto simp: lru_wf_def)
  have core1: "fm_core owns client_ok D s1" and lk1: "fdUpidMap_lock \<notin> fm_locks s1"
    and k1: "keeps content s s1" and lr1: "lru_resident s1"
    using core lk lru_resident_butlast [OF lr] s1 by (auto simp: keeps_def)
  obtain ret s2 where e:
    "evict_to_externram E (cn_ufd n) (cn_hashcode n AND PAGE_MASK) s1 = Some (ret, s2)"
    "ret \<in> {-1, 0, 1, 2}" "fm_core owns client_ok D s2" "keeps content s1 s2" "fm_lru s2 = fm_lru s1"
    and m: "\<And>m. node_ok m \<Longrightarrow> node_resident s1 m \<Longrightarrow> ret \<noteq> 0 \<or> cn_hashcode m \<noteq> cn_hashcode n \<Longrightarrow>
        node_resident s2 m"
    using evict_node_keeps [OF K core1 lk1 ok nr] by metis
  have "lru_resident s2"
  proof (rule lru_resident_mono [OF lr1 e(5)])
    fix x assume x: "x \<in> set (il (fm_lru s1))"
    then have xb: "x \<in> set (butlast (il (fm_lru s)))" using s1 by simp
    then have "node_ok x" "node_resident s1 x"
      using wf res s1 in_set_butlastD [OF xb] by (auto simp: lru_wf_def)
    with m last_hashcode_ne [OF lru_wf_distinct [OF wf] xb] n show "node_resident s2 x" by auto
  qed
  moreover have "node_resident s2 n" if "ret \<noteq> 0" using m [OF ok nr] that by simp
  moreover have "node_resident s2 x" if "node_ok x" "node_resident s x" "cn_hashcode x \<noteq> cn_hashcode n" for x
    using m [of x] that s1 by simp
  ultimately show thesis using that e(1-3,5) keeps_trans [OF k1 e(4)] ok by metis
qed

lemma evict_if_needed_room:
  assumes lk: "fm_locks s = {}"
    and room: "length (lru_insert (new_node a f) (il (fm_lru s))) \<le> max_num_items (fm_lru s)"
  shows "evict_if_needed E f a t s
     = Some (0, put_lru ((fm_lru s)\<lparr>il := lru_insert (new_node a f) (il (fm_lru s))\<rparr>,
                         StatsIncrLRUBufferSize (fm_stats s)) s)"
  using insertCacheNodeAndEvict_room [OF room] lk unlockS_put_lru [of lru_lock s]
  by (simp add: evict_if_needed_def lockS_free null_node_def)

text \<open>
  Inserting a resident page and making room for it: it returns, keeps the contents and the
  invariant, and leaves at most one page too many, a page that could not be moved yet.
\<close>

lemma evict_if_needed_keeps:
  assumes K: "kernel_ok K" "e_kernel E = K" "e_backend E = B" "e_cfg E = plain_config"
    and core: "fm_core owns client_ok D s" and lk: "fm_locks s = {}"
    and lr: "lru_resident s" and len: "length (il (fm_lru s)) \<le> max_num_items (fm_lru s)"
    and f: "registered f s" "page_aligned a" "resident (fm_mach s) f a \<noteq> None"
  obtains ret s' where "evict_if_needed E f a t s = Some (ret, s')" "fm_core owns client_ok D s'"
    "lru_resident s'" "keeps content s s'" "max_num_items (fm_lru s') = max_num_items (fm_lru s)"
    "length (il (fm_lru s')) \<le> Suc (max_num_items (fm_lru s))"
    "length (il (fm_lru s)) < max_num_items (fm_lru s) \<or> 2 \<le> max_num_items (fm_lru s) \<Longrightarrow>
       stays s' (new_node a f)"
proof -
  let ?x = "new_node a f" and ?l = "fm_lru s"
  let ?xs = "lru_insert ?x (il ?l)"
  let ?li = "?l\<lparr>il := ?xs\<rparr>"
  have d: "distinct_keys cn_hashcode (il ?l)" using lr by (auto simp: lru_resident_def)
  have xr: "node_resident s ?x"
    using f by (simp add: node_resident_def hash_page_key_page page_alignedD)
  have lx: "length ?xs \<le> Suc (length (il ?l))" and ne: "?xs \<noteq> []"
    using lru.length_push [OF d, of ?x] lru.push_ne [OF d] by auto
  let ?si = "put_lru (?li, StatsIncrLRUBufferSize (fm_stats s)) s"
  have lri: "lru_resident ?si" using lru_resident_push [OF lr node_ok_new xr] by simp
  show thesis
  proof (cases "length ?xs \<le> max_num_items ?l")
    case True
    from evict_if_needed_room [OF lk True] lri that show thesis
      using core xr by (simp add: keeps_def le_SucI True stays_fits)
  next
    case False
    let ?n = "last ?xs" and ?st = "StatsDecrLRUBufferSize (StatsIncrLRUBufferSize (fm_stats s))"
    define l1 where "l1 = ?l\<lparr>il := butlast ?xs\<rparr>"
    define s1 where "s1 = put_lru (l1, ?st) s"
    have s1: "s1 = put_lru ((fm_lru ?si)\<lparr>il := butlast (il (fm_lru ?si))\<rparr>, ?st) ?si"
      by (simp add: s1_def l1_def put_lru_def)
    have l1: "fm_lru s1 = l1" "il l1 = butlast ?xs" "max_num_items l1 = max_num_items ?l"
      by (simp_all add: s1_def l1_def)
    have sz: "length (butlast ?xs) \<le> max_num_items ?l" using lx len by simp
    have ins: "insertCacheNodeAndEvict a f (?l, fm_stats s) = Some (?n, l1, ?st)"
      using insertCacheNodeAndEvict_full [of ?l a f "fm_stats s"] False by (simp add: l1_def)
    have ul: "unlockS lru_lock (put_lru (l1, ?st) (s\<lparr>fm_locks := {lru_lock}\<rparr>)) = Some s1"
      using unlockS_put_lru [of lru_lock s] lk by (simp add: s1_def)
    obtain ret s2 where e:
      "evict_to_externram E (cn_ufd ?n) (cn_hashcode ?n AND PAGE_MASK) s1 = Some (ret, s2)"
      "ret \<in> {-1, 0, 1, 2}" "fm_core owns client_ok D s2" "keeps content ?si s2"
      "fm_lru s2 = l1" "lru_resident s2" "ret \<noteq> 0 \<Longrightarrow> node_resident s2 ?n" "node_ok ?n"
      and mm: "\<And>m. node_ok m \<Longrightarrow> node_resident s m \<Longrightarrow> cn_hashcode m \<noteq> cn_hashcode ?n \<Longrightarrow> node_resident s2 m"
      using evict_last_keeps [OF K _ _ lri _ s1 refl] core lk ne l1(1) by auto
    note m = mm [OF node_ok_new xr]
    have k2: "keeps content s s2" using e(4) by (simp add: keeps_def)
    note step = evict_if_needed_def lockS_free lk ins ul
    note le = sz le_SucI [OF sz]
    have full: "\<not> length (il ?l) < max_num_items ?l" using False lx by simp
    have hd: "cn_hashcode (hd ?xs) = cn_hashcode ?x" using lru.key_hd_push [OF d] .
    have x2: "node_resident s2 ?x" if "2 \<le> max_num_items ?l"
      using that False hd_key_ne_last [OF lru.distinct_push [OF d, of ?x]] m hd by auto
    consider (drop) "cn_hashcode ?n = 0" | (zero) "cn_hashcode ?n \<noteq> 0" "ret = 2"
      | (other) "cn_hashcode ?n \<noteq> 0" "ret \<noteq> 2" by blast
    then show thesis
    proof cases
      case drop
      then have "evict_if_needed E f a t s = Some (0, s1)" by (simp add: step)
      moreover have "lru_resident s1" using lru_resident_butlast [OF lri] s1 by simp
      moreover have "stays s1 ?x" using xr sz l1 by (intro stays_fits) (auto simp: s1_def)
      ultimately show thesis using that core le full l1 by (simp add: keeps_def s1_def)
    next
      case other
      then obtain r s3 where r: "evict_if_needed E f a t s = Some (r, s3)"
        and s3: "s3 = s2 \<or> s3 = upd_stats StatsIncrWriteSkippedInvalid s2 \<or> s3 = log_err s2"
        using e(1,2) by (auto simp: step)
      have "fm_core owns client_ok D s3" "lru_resident s3" "keeps content s s3" "fm_lru s3 = l1"
        using s3 e(3,5,6) k2 by (auto simp: keeps_def lru_resident_def)
      moreover have "node_resident s3 ?x" if "2 \<le> max_num_items ?l" using s3 x2 [OF that] by auto
      ultimately show thesis using that [of r s3] r le full l1 stays_fits [of s3 ?x] by simp
    next
      case zero
      let ?s3 = "upd_stats StatsIncrWriteSkippedZero s2" and ?k = "cn_hashcode ?n AND PAGE_MASK"
      have nn: "new_node ?k (cn_ufd ?n) = ?n" using e(8) by (simp add: node_ok_def)
      obtain st' where i: "insertCacheNode ?k (cn_ufd ?n) (fm_lru ?s3, fm_stats ?s3)
          = Some ((fm_lru ?s3)\<lparr>il := lru_insert ?n (il (fm_lru ?s3))\<rparr>, st')"
        using insertCacheNode_push [of ?k "cn_ufd ?n" "fm_lru ?s3" "fm_stats ?s3"] nn by auto
      let ?l4 = "(fm_lru ?s3)\<lparr>il := lru_insert ?n (il (fm_lru ?s3))\<rparr>"
      have lk3: "fm_locks ?s3 = {}" using e(4) lk by (simp add: keeps_def)
      have "evict_if_needed E f a t s = Some (0, put_lru (?l4, st') ?s3)"
        using zero e(1) i lk3 unlockS_put_lru [of lru_lock ?s3 "(?l4, st')"] by (simp add: step)
      moreover have "lru_resident (put_lru (?l4, st') ?s3)"
        using lru_resident_push [of ?s3 ?n ?l4 st'] e(6-8) zero by (simp add: lru_resident_def)
      moreover have "length (lru_insert ?n (il (fm_lru s2))) \<le> Suc (max_num_items ?l)"
        using lru.length_push [of "il (fm_lru s2)" ?n] e(5,6) sz l1 by (auto simp: lru_resident_def)
      moreover have "stays (put_lru (?l4, st') ?s3) ?x" if "2 \<le> max_num_items ?l"
        by (intro pushed_stays [OF lru.distinct_push [OF d, of ?x]]) (use False that x2 hd e(5) l1 in simp_all)
      ultimately show thesis using that e(3,5) k2 full l1 by (simp add: keeps_def)
    qed
  qed
qed

end

section \<open>Evicting many pages\<close>

lemma rev_take_parts:
  assumes "n \<le> length xs"
  shows "take n (rev xs) = rev (drop (length xs - n) xs)"
  using assms by (simp add: rev_drop)

lemma distinct_keys_take_drop:
  assumes "distinct_keys key xs" "m \<in> set (take k xs)"
  shows "key m \<notin> key ` set (drop k xs)"
proof -
  have "distinct (map key (take k xs) @ map key (drop k xs))"
    using assms(1) by (metis append_take_drop_id map_append)
  then have "key ` set (take k xs) \<inter> key ` set (drop k xs) = {}" by simp
  then show ?thesis using assms(2) by blast
qed

lemma lru_resident_take:
  assumes "lru_resident s"
  shows "lru_resident (put_lru ((fm_lru s)\<lparr>il := take k (il (fm_lru s))\<rparr>, st) s)"
  using assms by (auto simp: lru_resident_def lru_wf_def take_map intro: distinct_take
      dest: in_set_takeD simp flip: take_map)

context extern_ram
begin

lemma evict_multi_loop_keeps:
  assumes K: "kernel_ok K" "e_kernel E = K" "e_backend E = B" "e_cfg E = plain_config"
    and d: "distinct_keys cn_hashcode nodes" "\<forall>n \<in> set nodes. node_ok n"
    and "fm_core owns client_ok D s" "fdUpidMap_lock \<notin> fm_locks s" "lru_resident s"
    and "distinct is" "\<forall>i \<in> set is. i < length nodes \<and> node_resident s (nodes ! i)"
    and "\<forall>m \<in> set (il (fm_lru s)). cn_hashcode m \<notin> cn_hashcode ` set nodes"
  shows "\<exists>cnt' s'. evict_multi_loop E nodes is cnt s = Some (cnt', s') \<and> fm_core owns client_ok D s'
     \<and> keeps content s s' \<and> lru_resident s' \<and> fm_lru s' = fm_lru s
     \<and> (\<forall>m. node_ok m \<longrightarrow> node_resident s m \<longrightarrow> cn_hashcode m \<notin> cn_hashcode ` set nodes \<longrightarrow> node_resident s' m)
     \<and> (\<exists>k \<le> length is. skipped K k ((!) nodes ` set is) s s')"
  using assms(7-)
proof (induction "is" arbitrary: s cnt)
  case Nil
  then show ?case using skipped_refl by fastforce
next
  case (Cons i "is")
  let ?n = "nodes ! i"
  have i: "i < length nodes" "node_resident s ?n" "node_ok ?n" using Cons.prems(5) d(2) by auto
  obtain ret s1 where e:
    "evict_to_externram E (cn_ufd ?n) (cn_hashcode ?n AND PAGE_MASK) s = Some (ret, s1)"
    "ret \<in> {-1, 0, 1, 2}" "fm_core owns client_ok D s1" "keeps content s s1" "fm_lru s1 = fm_lru s"
    and m: "\<And>m. node_ok m \<Longrightarrow> node_resident s m \<Longrightarrow> ret \<noteq> 0 \<or> cn_hashcode m \<noteq> cn_hashcode ?n \<Longrightarrow>
        node_resident s1 m"
    and res: "resident (fm_mach s1) = (if ret = 0
       then (resident (fm_mach s))(cn_ufd ?n := (resident (fm_mach s) (cn_ufd ?n))
              (cn_hashcode ?n AND PAGE_MASK := None)) else resident (fm_mach s))"
    using evict_node_keeps [OF K Cons.prems(1,2) i(3,2)] by metis
  have dj: "cn_hashcode (nodes ! j) \<noteq> cn_hashcode ?n" if "j \<in> set is" for j
    using that d(1) i(1) Cons.prems(4,5) nth_eq_iff_index_eq [OF d(1), of j i] by auto
  have lr1: "lru_resident s1"
  proof (rule lru_resident_mono [OF Cons.prems(3) e(5)])
    fix x assume x: "x \<in> set (il (fm_lru s))"
    then have "node_ok x" "node_resident s x" "cn_hashcode x \<noteq> cn_hashcode ?n"
      using Cons.prems(3,6) i(1) by (auto simp: lru_resident_def lru_wf_def)
    then show "node_resident s1 x" using m by simp
  qed
  define s2 where "s2 = (if ret = 1 then upd_stats StatsIncrWriteSkippedInvalid s1
     else if ret = -1 then log_err s1 else s1)"
  have "kernel_ok (e_kernel E)" "bufs (fm_mach s) MAP_FAILED = None"
    using K(1,2) Cons.prems(1) by (auto simp: fm_core_def)
  note busy = evict_to_externram_busy [OF e(1) K(4) this]
  have sk: "skipped K (if ret = 1 then 1 else 0) {?n} s s2"
    using busy res e(2) K(2)
    by (auto simp: skipped_def s2_def upd_stats_def log_err_def StatsIncrWriteSkippedInvalid_def)
  obtain cnt1 where l: "evict_multi_loop E nodes (i # is) cnt s = evict_multi_loop E nodes is cnt1 s2"
    using e(1,2) i(1) by (auto simp: s2_def)
  have "\<exists>cnt' s'. evict_multi_loop E nodes is cnt1 s2 = Some (cnt', s')
     \<and> fm_core owns client_ok D s' \<and> keeps content s2 s' \<and> lru_resident s' \<and> fm_lru s' = fm_lru s2
     \<and> (\<forall>m. node_ok m \<longrightarrow> node_resident s2 m \<longrightarrow> cn_hashcode m \<notin> cn_hashcode ` set nodes \<longrightarrow> node_resident s' m)
     \<and> (\<exists>k \<le> length is. skipped K k ((!) nodes ` set is) s2 s')"
  proof (rule Cons.IH)
    show "\<forall>j \<in> set is. j < length nodes \<and> node_resident s2 (nodes ! j)"
      using Cons.prems(5) d(2) m dj by (auto simp: s2_def)
  qed (use Cons.prems e lr1 in \<open>auto simp: s2_def keeps_def lru_resident_def\<close>)
  then obtain cnt' s' where ih: "evict_multi_loop E nodes is cnt1 s2 = Some (cnt', s')"
    "fm_core owns client_ok D s'" "keeps content s2 s'" "lru_resident s'" "fm_lru s' = fm_lru s2"
    "\<forall>m. node_ok m \<longrightarrow> node_resident s2 m \<longrightarrow> cn_hashcode m \<notin> cn_hashcode ` set nodes \<longrightarrow> node_resident s' m"
    "\<exists>k \<le> length is. skipped K k ((!) nodes ` set is) s2 s'"
    by blast
  from ih(7) obtain k where "k \<le> length is" "skipped K k ((!) nodes ` set is) s2 s'" by blast
  then have "(if ret = 1 then 1 else 0) + k \<le> length (i # is)"
    "skipped K ((if ret = 1 then 1 else 0) + k) ((!) nodes ` set (i # is)) s s'"
    using skipped_trans [OF sk] by simp_all
  then have sk': "\<exists>k \<le> length (i # is). skipped K k ((!) nodes ` set (i # is)) s s'" by blast
  have "node_resident s2 x"
    if "node_ok x" "node_resident s x" "cn_hashcode x \<notin> cn_hashcode ` set nodes" for x
    using that m [of x] nth_mem [OF i(1)] by (auto simp: s2_def)
  moreover have "keeps content s s2" "fm_lru s2 = fm_lru s" using e(4,5) by (auto simp: s2_def keeps_def)
  ultimately show ?case using l ih(1-6) sk' keeps_trans [of content s s2 s'] by simp
qed

lemma evict_multi_keeps:
  assumes K: "kernel_ok K" "e_kernel E = K" "e_backend E = B" "e_cfg E = plain_config"
    and core: "fm_core owns client_ok D s" and lk: "fdUpidMap_lock \<notin> fm_locks s"
    and lr: "lru_resident s" and len: "length (il (fm_lru s)) < 2 ^ 31"
    and sz: "0 \<le> sz" "sz \<le> int (length (il (fm_lru s)))"
  obtains cnt s' where "evict_to_externram_multi E sz s = Some (cnt, s')" "fm_core owns client_ok D s'"
    "keeps content s s'" "lru_resident s'"
    "fm_lru s' = (fm_lru s)\<lparr>il := take (length (il (fm_lru s)) - nat sz) (il (fm_lru s))\<rparr>"
    "\<And>m. node_ok m \<Longrightarrow> node_resident s m \<Longrightarrow>
        cn_hashcode m \<notin> cn_hashcode ` set (drop (length (il (fm_lru s)) - nat sz) (il (fm_lru s))) \<Longrightarrow>
        node_resident s' m"
    "\<forall>n \<in> set (drop (length (il (fm_lru s)) - nat sz) (il (fm_lru s))). gone K s s' n"
proof -
  let ?xs = "il (fm_lru s)" and ?l = "(fm_lru s)\<lparr>il := take (length (il (fm_lru s)) - nat sz) (il (fm_lru s))\<rparr>"
  let ?ns = "take (nat sz) (rev ?xs)" and ?k = "length ?xs - nat sz"
  obtain st where pop: "popNLRU sz (fm_lru s, fm_stats s) = Some (min sz (int (length ?xs)), ?ns, ?l, st)"
    using popNLRU_nodes [OF len sz(1), of "fm_stats s"] by auto
  have st: "writes_skipped_invalid st = writes_skipped_invalid (fm_stats s)" using popNLRU_skipped [OF pop] .
  let ?s = "put_lru (?l, st) s"
  have ns: "?ns = rev (drop ?k ?xs)" using sz by (intro rev_take_parts) simp
  have d: "distinct_keys cn_hashcode ?xs" and wf: "\<forall>n \<in> set ?xs. node_ok n \<and> node_resident s n"
    using lr by (auto simp: lru_resident_def lru_wf_def)
  have sub: "set ?ns \<subseteq> set ?xs" unfolding ns by (auto dest: in_set_dropD)
  have ln: "length ?ns = nat sz" using sz by simp
  have nr: "node_resident ?s n" if "n \<in> set ?ns" for n using wf sub that by auto
  have dn: "distinct_keys cn_hashcode ?ns" unfolding ns using d by (simp flip: drop_map rev_map)
  have ok: "\<forall>n \<in> set ?ns. node_ok n" using wf sub by blast
  have ix: "\<forall>i \<in> set [0..<nat sz]. i < length ?ns \<and> node_resident ?s (?ns ! i)"
    using ln nr nth_mem [of _ ?ns] by (metis atLeastLessThan_iff set_upt)
  have nm: "\<forall>m \<in> set (il (fm_lru ?s)). cn_hashcode m \<notin> cn_hashcode ` set ?ns"
    using distinct_keys_take_drop [OF d, of _ ?k] unfolding ns by simp
  have "fm_core owns client_ok D ?s" "fdUpidMap_lock \<notin> fm_locks ?s" using core lk by simp_all
  from evict_multi_loop_keeps [OF K dn ok this lru_resident_take [OF lr] distinct_upt ix nm, of 0]
  obtain cnt s' where e: "evict_multi_loop E ?ns [0..<nat sz] 0 ?s = Some (cnt, s')"
    "fm_core owns client_ok D s'" "keeps content ?s s'" "lru_resident s'" "fm_lru s' = fm_lru ?s"
    and m: "\<forall>m. node_ok m \<longrightarrow> node_resident ?s m \<longrightarrow> cn_hashcode m \<notin> cn_hashcode ` set ?ns \<longrightarrow> node_resident s' m"
    and sk: "\<exists>k \<le> length [0..<nat sz]. skipped K k ((!) ?ns ` set [0..<nat sz]) ?s s'"
    by blast
  have "(!) ?ns ` set [0..<nat sz] = set (drop ?k ?xs)"
    using ln set_conv_nth [of ?ns] unfolding ns by (auto simp: image_iff Bex_def)
  moreover have "nat sz < 2 ^ 64" using len sz by (simp add: nat_less_iff)
  ultimately have g: "\<forall>n \<in> set (drop ?k ?xs). gone K ?s s' n"
    using sk skipped_gone by (metis le_less_trans length_upt minus_nat.diff_0)
  show thesis
  proof (rule that)
    show "evict_to_externram_multi E sz s = Some (cnt, s')"
      using pop e(1) by (simp add: evict_to_externram_multi_def)
    show "node_resident s' x" if "node_ok x" "node_resident s x" "cn_hashcode x \<notin> cn_hashcode ` set (drop ?k ?xs)" for x
      using m that unfolding ns by simp
    show "\<forall>n \<in> set (drop ?k ?xs). gone K s s' n" using g st by (simp add: gone_def put_lru_def)
  qed (use e in \<open>simp_all add: keeps_def\<close>)
qed

lemma shrink_lru_keeps:
  assumes K: "kernel_ok K" "e_kernel E = K" "e_backend E = B" "e_cfg E = plain_config"
    and core: "fm_core owns client_ok D s" and lk: "fm_locks s = {}" and lr: "lru_resident s"
    and len: "length (il (fm_lru s)) \<le> Suc (max_num_items (fm_lru s))"
  obtains s' where "shrink_lru E s = Some s'" "fm_core owns client_ok D s'" "lru_resident s'"
    "keeps content s s'" "max_num_items (fm_lru s') = max_num_items (fm_lru s)"
    "length (il (fm_lru s')) \<le> max_num_items (fm_lru s)"
    "\<And>x. node_ok x \<Longrightarrow> stays s x \<Longrightarrow> node_resident s' x"
proof -
  let ?l = "fm_lru s" and ?s = "s\<lparr>fm_locks := {lru_lock}\<rparr>"
  have mx: "max_num_items ?l < 2 ^ 31 - 2" using lr by (simp add: lru_resident_def)
  then have ll: "length (il ?l) < 2 ^ 31" using len by simp
  have num: "getLRUBufferSize ?l - getLRUBufferMaxSize ?l = int (length (il ?l)) - int (max_num_items ?l)"
    using mx ll by (simp add: getLRUBufferSize_def getLRUBufferMaxSize_def)
  show thesis
  proof (cases "length (il ?l) \<le> max_num_items ?l")
    case True
    have "unlockS lru_lock ?s = Some s" using lk by (cases s) (simp add: unlockS_def)
    then have "shrink_lru E s = Some s"
      using True num lk by (simp add: shrink_lru_def lockS_free Let_def)
    with that core lr True show thesis by (simp add: stays_def)
  next
    case False
    let ?n = "int (length (il ?l)) - int (max_num_items ?l)"
    have "lru_resident ?s" using lr by (simp add: lru_resident_def)
    then obtain cnt s1 where e: "evict_to_externram_multi E ?n ?s = Some (cnt, s1)"
      "fm_core owns client_ok D s1" "keeps content ?s s1" "lru_resident s1"
      "fm_lru s1 = ?l\<lparr>il := take (length (il ?l) - nat ?n) (il ?l)\<rparr>"
      and m: "\<And>m. node_ok m \<Longrightarrow> node_resident s m \<Longrightarrow>
        cn_hashcode m \<notin> cn_hashcode ` set (drop (length (il ?l) - nat ?n) (il ?l)) \<Longrightarrow> node_resident s1 m"
      using evict_multi_keeps [OF K, of ?s ?n] core ll False by simp metis
    have "unlockS lru_lock s1 = Some (s1\<lparr>fm_locks := {}\<rparr>)"
      using e(3) by (intro unlockS_held) (auto simp: keeps_def)
    then have "shrink_lru E s = Some (s1\<lparr>fm_locks := {}\<rparr>)"
      using num lk False e(1) by (simp add: shrink_lru_def lockS_free Let_def)
    moreover have n: "length (il ?l) - nat ?n = max_num_items ?l" using False by simp
    moreover have "node_resident s1 x" if "node_ok x" "stays s x" for x
      using m [OF that(1)] that(2) n by (simp add: stays_def)
    ultimately show thesis using that e False lk by (simp add: keeps_def lru_resident_def)
  qed
qed

end

end
