(* ===== verification/Transparency.thy ===== *)
theory Transparency
  imports Eviction
begin

text \<open>
  Handling a fault keeps the logical contents of every page. The lemmas are proved for any store that
  keeps the contract \<open>extern_ram\<close>; the theorems are their instances for the in-process store, for the
  build without page cache and threads.
\<close>

section \<open>Handling a fault\<close>

lemma client_set_id: "client_get cs p = Some c \<Longrightarrow> client_set p c cs = cs"
  by (auto simp: client_get_def client_set_def split: if_splits)

text \<open>The page is resident with its logical contents, and no other page changed.\<close>

definition placed :: "(machine \<Rightarrow> 'c \<Rightarrow> u64 \<Rightarrow> page option) \<Rightarrow> 'c fm \<Rightarrow> fd \<Rightarrow> u64 \<Rightarrow> machine \<Rightarrow> bool" where
  "placed content s f a M \<longleftrightarrow> bufs M = bufs (fm_mach s)
     \<and> resident M f a = Some (logical content s f a)
     \<and> (resident M = resident (fm_mach s)
        \<or> resident (fm_mach s) f a = None
          \<and> resident M = (resident (fm_mach s))(f := (resident (fm_mach s) f)(a \<mapsto> logical content s f a)))"

lemma placed_copy:
  assumes "kernel_ok K" "region_stable K f" and m: "k_copy K f a b (fm_mach s) = (rc, copy, M)"
    and b: "bufs (fm_mach s) b = Some pg" "remote content s f a = Some pg"
  shows "placed content s f a M"
  using assms(1) m
proof (cases rule: copy_cases)
  case (1 pg')
  then show ?thesis using b by (simp add: placed_def logical_def)
next
  case 2
  then have "resident (fm_mach s) f a \<noteq> None" using stable_copy [OF assms(2), of "fm_mach s" a b] b m by auto
  with 2 show ?thesis by (auto simp: placed_def logical_def)
qed

lemma placed_zero:
  assumes "kernel_ok K" "region_stable K f" and m: "k_zeropage K f a (fm_mach s) = (e, M)"
    and b: "remote content s f a = None"
  shows "placed content s f a M"
  using assms(1) m
proof (cases rule: zeropage_cases)
  case 1
  then show ?thesis using b by (simp add: placed_def logical_def)
next
  case 2
  then have "resident (fm_mach s) f a \<noteq> None" using stable_zeropage [OF assms(2), of "fm_mach s" a] m by auto
  with 2 show ?thesis by (auto simp: placed_def logical_def)
qed

context extern_ram
begin

text \<open>A read through a client keeps what the clients hold and returns the page.\<close>

lemma read_core:
  assumes core: "fm_core owns client_ok D s" and c: "client_get (fm_clients s) p = Some c" and key: "key_ok D k"
    and B: "e_backend E = B"
  obtains n b s1 where "fm_readPage E p k (fm_read_tmp_page s) s = Some (n, b, s1)"
    "fm_core owns client_ok D (s1\<lparr>fm_read_tmp_page := b\<rparr>)" "remote content (s1\<lparr>fm_read_tmp_page := b\<rparr>) = remote content s"
    "resident (fm_mach s1) = resident (fm_mach s)"
    "s1 = s\<lparr>fm_mach := fm_mach s1, fm_clients := fm_clients s1\<rparr>"
    "n = 4096 \<and> bufs (fm_mach s1) b = content (fm_mach s) c k \<and> content (fm_mach s) c k \<noteq> None
       \<or> n = 0 \<and> content (fm_mach s) c k = None"
proof -
  have ok: "client_ok (fm_mach s) c" and tmp: "copies D \<Longrightarrow> (\<exists>old. bufs (fm_mach s) (fm_read_tmp_page s) = Some old \<and> page_ok D old) \<and> fm_read_tmp_page s \<notin> owns c"
    using core c by (auto simp: fm_core_def)
  obtain n b M' c' where r: "readPage B k (fm_read_tmp_page s) (fm_mach s, c) = Some (n, b, M', c')" "client_ok M' c'"
    "content M' c' = content (fm_mach s) c" "resident M' = resident (fm_mach s)"
    and fr: "\<forall>q. q \<notin> owns c \<longrightarrow> q \<notin> owns c' \<longrightarrow> copies D \<and> q = fm_read_tmp_page s \<or> bufs M' q = bufs (fm_mach s) q"
      "\<forall>q \<in> owns c'. q \<in> owns c \<or> bufs (fm_mach s) q = None \<and> q \<noteq> MAP_FAILED"
    and b: "copies D \<longrightarrow> b = fm_read_tmp_page s \<and> (\<exists>new. bufs M' (fm_read_tmp_page s) = Some new \<and> page_ok D new)"
    and n: "n = 4096 \<and> bufs M' b = content (fm_mach s) c k \<and> content (fm_mach s) c k \<noteq> None
      \<or> n = 0 \<and> content (fm_mach s) c k = None"
    by (rule readPage_ok [OF ok key tmp])
  let ?cs = "client_set p c' (fm_clients s)"
  let ?s1 = "s\<lparr>fm_mach := M', fm_clients := ?cs\<rparr>"
  let ?s2 = "?s1\<lparr>fm_read_tmp_page := b\<rparr>"
  note cg = client_get_set [OF c, of c'] and parts = core [unfolded fm_core_def]
  have oth: "owns d \<inter> owns c' = {} \<and> client_ok M' d \<and> content M' d = content (fm_mach s) d"
    if d: "client_get (fm_clients s) q = Some d" "q \<noteq> p" for q d
  proof
    have d1: "owns d \<inter> owns c = {}" "client_ok (fm_mach s) d" "copies D \<Longrightarrow> fm_read_tmp_page s \<notin> owns d"
      using parts c d by blast+
    show d2: "owns d \<inter> owns c' = {}" using d1(1,2) fr(2) owns_mapped by blast
    have "bufs M' x = bufs (fm_mach s) x" if "x \<in> owns d" for x using fr(1) d1 d2 that by blast
    then show "client_ok M' d \<and> content M' d = content (fm_mach s) d" by (rule client_frame [OF d1(2)])
  qed
  have get: "client_get ?cs q = Some d \<longleftrightarrow> (if q = p then d = c' else client_get (fm_clients s) q = Some d)" for q d
    by (auto simp: cg)
  have "owns d \<inter> owns d' = {}" if "client_get ?cs q = Some d" "client_get ?cs q' = Some d'" "q \<noteq> q'" for q q' d d'
  proof (cases "q = p \<or> q' = p")
    case True
    then show ?thesis using that oth [of q d] oth [of q' d'] by (auto simp: get)
  next
    case False
    then have "client_get (fm_clients s) q = Some d" "client_get (fm_clients s) q' = Some d'" using that by (auto simp: get)
    then show ?thesis using parts that(3) by blast
  qed
  moreover have "client_ok M' d" if "client_get ?cs q = Some d" for q d
    using that oth [of q d] r(2) by (auto simp: get split: if_splits)
  moreover have "fm_read_tmp_page s \<notin> owns d" if "copies D" "client_get ?cs q = Some d" for q d
  proof (cases "q = p")
    case True
    then show ?thesis using that fr(2) tmp by (auto simp: get)
  qed (use that parts in \<open>auto simp: get\<close>)
  moreover have "bufs M' MAP_FAILED = None"
  proof -
    have "bufs (fm_mach s) MAP_FAILED = None" using parts by blast
    moreover from this have "MAP_FAILED \<notin> owns c" using owns_mapped [OF ok] by blast
    ultimately show ?thesis using fr tmp by fastforce
  qed
  moreover have "client_get ?cs q \<noteq> None" if "client_get (fm_clients s) q \<noteq> None" for q using that by (simp add: cg)
  ultimately have core2: "fm_core owns client_ok D ?s2" unfolding fm_core_def using parts b r(4) by simp
  have "remote content ?s2 g x = remote content s g x" for g x
  proof (cases "hash_find ms_fd g (fm_map s)")
    case (Some e)
    then show ?thesis using c r(3) oth [of "ms_client e"]
      by (cases "ms_client e = p"; cases "client_get (fm_clients s) (ms_client e)") (auto simp: remote_def fd_client_def cg)
  qed (simp add: remote_def fd_client_def)
  then have "remote content ?s2 = remote content s" by (intro ext)
  moreover have "fm_readPage E p k (fm_read_tmp_page s) s = Some (n, b, ?s1)"
    using r(1) c B by (simp add: fm_readPage_def put_client_def)
  ultimately show thesis using that [of n b ?s1] core2 n r(4) by simp
qed

lemma fetch_direct_plain:
  assumes "e_backend E = B" "e_cfg E = plain_config" and core: "fm_core owns client_ok D s"
    and reg: "registered f s" and lk: "fdUpidMap_lock \<notin> fm_locks s" and key: "key_ok D a"
  obtains n s1 where "fetch_direct E f a s = Some (n, -1, s1)" "fm_core owns client_ok D s1"
    "remote content s1 = remote content s" "resident (fm_mach s1) = resident (fm_mach s)"
    "fm_map s1 = fm_map s" "fm_lru s1 = fm_lru s" "fm_locks s1 = fm_locks s"
    "n = 4096 \<and> bufs (fm_mach s1) (fm_read_tmp_page s1) = remote content s f a \<and> remote content s f a \<noteq> None
       \<or> n = 0 \<and> remote content s f a = None"
proof -
  obtain e c where e: "hash_find ms_fd f (fm_map s) = Some e"
    and c: "client_get (fm_clients s) (ms_client e) = Some c" "fd_client f s = Some c"
    using fd_client_Some [OF core reg] by metis
  have cl: "fm_client f s = Some (ms_client e)" "ms_client e \<noteq> NULL"
    using e lk c(1) by (auto simp: fm_client_def get_client_by_fd_free client_get_def split: if_splits)
  have rem: "remote content s f a = content (fm_mach s) c a" using c(2) by (simp add: remote_def)
  obtain n b s1 where r: "fm_readPage E (ms_client e) a (fm_read_tmp_page s) s = Some (n, b, s1)"
    and s1: "fm_core owns client_ok D (s1\<lparr>fm_read_tmp_page := b\<rparr>)" "remote content (s1\<lparr>fm_read_tmp_page := b\<rparr>) = remote content s"
      "resident (fm_mach s1) = resident (fm_mach s)" "s1 = s\<lparr>fm_mach := fm_mach s1, fm_clients := fm_clients s1\<rparr>"
      "n = 4096 \<and> bufs (fm_mach s1) b = content (fm_mach s) c a \<and> content (fm_mach s) c a \<noteq> None
         \<or> n = 0 \<and> content (fm_mach s) c a = None"
    by (rule read_core [OF core c(1) key assms(1)])
  have "fm_map s1 = fm_map s" "fm_lru s1 = fm_lru s" "fm_locks s1 = fm_locks s" by (subst s1(4); simp)+
  moreover have "fetch_direct E f a s = Some (n, -1, s1\<lparr>fm_read_tmp_page := b\<rparr>)"
    using r cl assms(2) by (simp add: fetch_direct_def)
  ultimately show thesis using that s1 rem by simp
qed

lemma logical_page:
  assumes "fm_core owns client_ok D s"
  shows "page_ok D (logical content s f a)"
proof (cases "resident (fm_mach s) f a")
  case None
  show ?thesis
  proof (cases "remote content s f a")
    case (Some pg)
    then obtain c where c: "fd_client f s = Some c" "content (fm_mach s) c a = Some pg"
      by (auto simp: remote_def bind_eq_Some_conv)
    then have "client_ok (fm_mach s) c" using assms by (auto simp: fd_client_def fm_core_def bind_eq_Some_conv)
    then show ?thesis using content_page c(2) Some None by (simp add: logical_def)
  qed (use None zero_page_ok in \<open>simp add: logical_def\<close>)
qed (use core_key [OF assms] in \<open>simp add: logical_def\<close>)

lemma placed_core:
  assumes core: "fm_core owns client_ok D s" and lr: "lru_resident s" and p: "placed content s f a M"
    and key: "key_ok D a"
  shows "fm_core owns client_ok D (s\<lparr>fm_mach := M\<rparr>)" "keeps content s (s\<lparr>fm_mach := M\<rparr>)"
    "lru_resident (s\<lparr>fm_mach := M\<rparr>)"
proof -
  let ?s = "s\<lparr>fm_mach := M\<rparr>"
  have b: "bufs M = bufs (fm_mach s)" using p by (simp add: placed_def)
  then have "bufs (fm_mach ?s) MAP_FAILED = None" using core by (simp add: fm_core_def)
  note c = core_frame [OF core, of ?s, OF _ _ _ _ this]
  have k: "resident (fm_mach ?s) g x = Some pg \<Longrightarrow> resident (fm_mach s) g x = Some pg \<or> key_ok D x \<and> page_ok D pg" for g x pg
    using p key logical_page [OF core] by (auto simp: placed_def split: if_splits)
  show "fm_core owns client_ok D ?s" using c(1) b k by simp
  have "remote content ?s = remote content s" using c(2) b k by simp
  then have "logical content ?s g x = logical content s g x" for g x
    using p by (cases "resident (fm_mach s) g x") (auto simp: placed_def logical_def)
  then show "keeps content s ?s" by (simp add: keeps_def fun_eq_iff)
  show "lru_resident ?s" using lr p
    by (auto simp: placed_def lru_resident_def node_resident_def registered_def)
qed

text \<open>Placing the page and making room, for either kind of page.\<close>

lemma place_then_evict:
  assumes K: "kernel_ok K" "e_kernel E = K" "e_backend E = B" "e_cfg E = plain_config"
    and core: "fm_core owns client_ok D s" and lk: "fm_locks s = {}" and lr: "lru_resident s"
    and len: "length (il (fm_lru s)) \<le> max_num_items (fm_lru s)"
    and f: "registered f s" "page_aligned a" "key_ok D a" and p: "placed content s f a M"
    and s1: "s1 = s\<lparr>fm_mach := M\<rparr> \<or> s1 = log_err (s\<lparr>fm_mach := M\<rparr>)"
  obtains ret s' where "evict_if_needed E f a t s1 = Some (ret, s')" "fm_core owns client_ok D s'"
    "lru_resident s'" "keeps content s s'" "max_num_items (fm_lru s') = max_num_items (fm_lru s)"
    "length (il (fm_lru s')) \<le> Suc (max_num_items (fm_lru s))"
    "length (il (fm_lru s)) < max_num_items (fm_lru s) \<or> 2 \<le> max_num_items (fm_lru s) \<Longrightarrow>
       stays s' (new_node a f)"
proof -
  note pc = placed_core [OF core lr p f(3)]
  have c1: "fm_core owns client_ok D s1" "keeps content s s1" "lru_resident s1" "fm_lru s1 = fm_lru s"
    using s1 pc by (auto simp: keeps_def lru_resident_def)
  have r1: "resident (fm_mach s1) f a = Some (logical content s f a)"
    using s1 p by (auto simp: placed_def)
  have "fm_locks s1 = {}" "registered f s1" using c1(2) lk f(1) by (auto simp: keeps_def registered_def)
  then obtain ret s' where "evict_if_needed E f a t s1 = Some (ret, s')" "fm_core owns client_ok D s'"
    "lru_resident s'" "keeps content s1 s'" "max_num_items (fm_lru s') = max_num_items (fm_lru s1)"
    "length (il (fm_lru s')) \<le> Suc (max_num_items (fm_lru s1))"
    "length (il (fm_lru s1)) < max_num_items (fm_lru s1) \<or> 2 \<le> max_num_items (fm_lru s1) \<Longrightarrow>
       stays s' (new_node a f)"
    using evict_if_needed_keeps [OF K c1(1) _ c1(3) _ _ f(2), of f t] len c1(4) r1 by auto
  then show thesis using that keeps_trans [OF c1(2)] c1(4) r1 by auto
qed

lemma place_page_out_data:
  assumes K: "kernel_ok K" "e_kernel E = K" "e_backend E = B" "e_cfg E = plain_config"
    and st: "region_stable K f"
    and core: "fm_core owns client_ok D s" and lk: "fm_locks s = {}" and lr: "lru_resident s"
    and len: "length (il (fm_lru s)) \<le> max_num_items (fm_lru s)"
    and f: "registered f s" "page_aligned a" "key_ok D a"
    and b: "n = 4096 \<and> bufs (fm_mach s) b = remote content s f a \<and> remote content s f a \<noteq> None
       \<or> n = 0 \<and> remote content s f a = None"
  obtains ret s' where "place_page_out E f a n b s = Some (ret, s')" "fm_core owns client_ok D s'"
    "lru_resident s'" "keeps content s s'" "max_num_items (fm_lru s') = max_num_items (fm_lru s)"
    "length (il (fm_lru s')) \<le> Suc (max_num_items (fm_lru s))"
    "length (il (fm_lru s)) < max_num_items (fm_lru s) \<or> 2 \<le> max_num_items (fm_lru s) \<Longrightarrow>
       stays s' (new_node a f)"
  using b
proof
  assume "n = 4096 \<and> bufs (fm_mach s) b = remote content s f a \<and> remote content s f a \<noteq> None"
  then obtain pg where n: "n = 4096" "bufs (fm_mach s) b = Some pg" "remote content s f a = Some pg"
    by auto
  obtain rc copy M where m: "k_copy K f a b (fm_mach s) = (rc, copy, M)" by (metis prod_cases3)
  note p = placed_copy [OF K(1) st m n(2,3)]
  define s1 where "s1 = (if rc \<noteq> 0 \<and> copy \<noteq> 4096 \<and> \<not> (copy = EBUSY \<or> copy = ENOENT \<or> copy = ESRCH)
     then log_err (s\<lparr>fm_mach := M\<rparr>) else s\<lparr>fm_mach := M\<rparr>)"
  have "s1 = s\<lparr>fm_mach := M\<rparr> \<or> s1 = log_err (s\<lparr>fm_mach := M\<rparr>)" by (auto simp: s1_def)
  then obtain ret s' where e: "evict_if_needed E f a COPY_PAGE s1 = Some (ret, s')"
    "fm_core owns client_ok D s'" "lru_resident s'" "keeps content s s'"
    "max_num_items (fm_lru s') = max_num_items (fm_lru s)"
    "length (il (fm_lru s')) \<le> Suc (max_num_items (fm_lru s))"
    "length (il (fm_lru s)) < max_num_items (fm_lru s) \<or> 2 \<le> max_num_items (fm_lru s) \<Longrightarrow>
       stays s' (new_node a f)"
    using place_then_evict [OF K core lk lr len f p] by metis
  then have "place_data_page E f a b s = Some (ret, upd_stats StatsIncrPlacedPage s')"
    using m K by (auto simp: place_data_page_def s1_def Let_def split: if_splits)
  then show thesis
    using that [of ret "if ret < 0 then log_err (upd_stats StatsIncrPlacedPage s')
       else upd_stats StatsIncrPlacedPage s'"] n e
    by (auto simp: place_page_out_def keeps_def lru_resident_def)
next
  assume n: "n = 0 \<and> remote content s f a = None"
  obtain e M where m: "k_zeropage K f a (fm_mach s) = (e, M)" by fastforce
  note p = placed_zero [OF K(1) st m, of content]
  define s1 where "s1 = (if e = 0 \<or> e = EBUSY \<or> e = ENOENT \<or> e = EINVAL \<or> e = ESRCH
     then s\<lparr>fm_mach := M\<rparr> else log_err (s\<lparr>fm_mach := M\<rparr>))"
  have "s1 = s\<lparr>fm_mach := M\<rparr> \<or> s1 = log_err (s\<lparr>fm_mach := M\<rparr>)" by (auto simp: s1_def)
  then obtain ret s' where e: "evict_if_needed E f a ZERO_PAGE s1 = Some (ret, s')"
    "fm_core owns client_ok D s'" "lru_resident s'" "keeps content s s'"
    "max_num_items (fm_lru s') = max_num_items (fm_lru s)"
    "length (il (fm_lru s')) \<le> Suc (max_num_items (fm_lru s))"
    "length (il (fm_lru s)) < max_num_items (fm_lru s) \<or> 2 \<le> max_num_items (fm_lru s) \<Longrightarrow>
       stays s' (new_node a f)"
    using place_then_evict [OF K core lk lr len f p] n by metis
  then have "place_zero_page E f a s = Some (ret, s')"
    using m K page_alignedD [OF f(2)] by (simp add: place_zero_page_def s1_def Let_def)
  then show thesis using that [of ret "if ret < 0 then log_err s' else s'"] n e
    by (auto simp: place_page_out_def keeps_def lru_resident_def)
qed

text \<open>The whole handler.\<close>

lemma read_from_externram_keeps:
  assumes K: "kernel_ok K" "e_kernel E = K" "e_backend E = B" "e_cfg E = plain_config"
    and st: "region_stable K f" and inv: "fm_inv owns client_ok D s"
    and f: "registered f s" "page_aligned a" "key_ok D a"
  obtains ret s' where "read_from_externram E f a s = Some (ret, s')" "fm_inv owns client_ok D s'"
    "keeps content s s'" "max_num_items (fm_lru s') = max_num_items (fm_lru s)"
    "length (il (fm_lru s)) < max_num_items (fm_lru s) \<or> 2 \<le> max_num_items (fm_lru s) \<Longrightarrow>
       resident (fm_mach s') f a = Some (logical content s f a)"
proof -
  let ?s0 = "upd_stats StatsIncrPageFault s"
  have core0: "fm_core owns client_ok D ?s0" and lr0: "lru_resident ?s0" and lk0: "fm_locks ?s0 = {}"
    and len0: "length (il (fm_lru ?s0)) \<le> max_num_items (fm_lru ?s0)" and reg0: "registered f ?s0"
    using inv f(1) by (auto simp: fm_inv_def lru_resident_def)
  have "fdUpidMap_lock \<notin> fm_locks ?s0" using lk0 by simp
  then obtain n s4 where fe: "fetch_direct E f a ?s0 = Some (n, -1, s4)" "fm_core owns client_ok D s4"
    "remote content s4 = remote content ?s0" "resident (fm_mach s4) = resident (fm_mach ?s0)"
    "fm_map s4 = fm_map ?s0" "fm_lru s4 = fm_lru ?s0" "fm_locks s4 = fm_locks ?s0"
    and b: "n = 4096 \<and> bufs (fm_mach s4) (fm_read_tmp_page s4) = remote content s4 f a \<and> remote content s4 f a \<noteq> None
       \<or> n = 0 \<and> remote content s4 f a = None"
    using fetch_direct_plain [OF K(3,4) core0 reg0 _ f(3)] by metis
  have s4: "fm_lru s4 = fm_lru s" "fm_locks s4 = {}" "registered f s4" "lru_resident s4"
    using fe lk0 reg0 lr0 by (auto simp: registered_def lru_resident_def node_resident_def)
  have k4: "keeps content s s4"
  proof -
    have "logical content s4 = logical content ?s0" using fe(3,4) by (intro logical_cong) auto
    then show ?thesis using fe lk0 inv by (simp add: keeps_def fm_inv_def)
  qed
  have len4: "length (il (fm_lru s4)) \<le> max_num_items (fm_lru s4)" using len0 s4 by simp
  obtain ret s5 where p: "place_page_out E f a n (fm_read_tmp_page s4) s4 = Some (ret, s5)" "fm_core owns client_ok D s5"
    "lru_resident s5" "keeps content s4 s5" "max_num_items (fm_lru s5) = max_num_items (fm_lru s4)"
    "length (il (fm_lru s5)) \<le> Suc (max_num_items (fm_lru s4))"
    "length (il (fm_lru s4)) < max_num_items (fm_lru s4) \<or> 2 \<le> max_num_items (fm_lru s4) \<Longrightarrow>
       stays s5 (new_node a f)"
    using place_page_out_data [OF K st fe(2) s4(2,4) len4 s4(3) f(2,3) b] by metis
  have lk5: "fm_locks s5 = {}" using p(4) s4 by (simp add: keeps_def)
  obtain s8 where h: "shrink_lru E s5 = Some s8" "fm_core owns client_ok D s8" "lru_resident s8"
    "keeps content s5 s8" "max_num_items (fm_lru s8) = max_num_items (fm_lru s5)"
    "length (il (fm_lru s8)) \<le> max_num_items (fm_lru s5)"
    "\<And>x. node_ok x \<Longrightarrow> stays s5 x \<Longrightarrow> node_resident s8 x"
    using shrink_lru_keeps [OF K p(2) lk5 p(3)] p(5,6) by auto
  let ?s9 = "upd_stats (StatsSetLastFaultTime (e_now E)) s8"
  have "read_from_externram E f a s = Some (ret, ?s9)"
    using fe(1) p(1) h(1) K(4) by (simp add: read_from_externram_def Let_def)
  moreover have "keeps content s ?s9"
    using keeps_trans [OF k4 keeps_trans [OF p(4) h(4)]] by (simp add: keeps_def)
  moreover have "fm_inv owns client_ok D ?s9"
    using h(2,3,4,5,6) lk5 by (simp add: fm_inv_def lru_resident_def keeps_def)
  moreover have "resident (fm_mach ?s9) f a = Some (logical content s f a)"
    if "length (il (fm_lru s)) < max_num_items (fm_lru s) \<or> 2 \<le> max_num_items (fm_lru s)"
  proof -
    have "node_resident s8 (new_node a f)" using h(7) [OF node_ok_new] p(7) that s4 by simp
    then have "resident (fm_mach ?s9) f a \<noteq> None"
      using page_alignedD [OF f(2)] by (auto simp: node_resident_def hash_page_key_page)
    then have "resident (fm_mach ?s9) f a = Some (logical content ?s9 f a)"
      unfolding logical_def by (cases "resident (fm_mach ?s9) f a") simp_all
    then show ?thesis using \<open>keeps content s ?s9\<close> by (simp add: keeps_def)
  qed
  ultimately show thesis using that p(5) h(5) s4 by simp
qed

lemma resizeLRUBuffer_keeps:
  assumes K: "kernel_ok K" "e_kernel E = K" "e_backend E = B" "e_cfg E = plain_config"
    and inv: "fm_inv owns client_ok D s" and sz: "0 \<le> sz" "sz < 2 ^ 31 - 2"
  obtains s' where "resizeLRUBuffer E sz s = Some s'" "fm_inv owns client_ok D s'" "keeps content s s'"
    "max_num_items (fm_lru s') = nat sz" "il (fm_lru s') = take (nat sz) (il (fm_lru s))"
    "\<forall>n \<in> set (drop (nat sz) (il (fm_lru s))). gone K s s' n"
proof -
  let ?l = "fm_lru s" and ?s = "s\<lparr>fm_locks := {lru_lock}\<rparr>"
  have i: "fm_core owns client_ok D s" "lru_resident s" "fm_locks s = {}"
    "length (il ?l) \<le> max_num_items ?l" using inv by (auto simp: fm_inv_def)
  have ll: "length (il ?l) < 2 ^ 31" using i by (simp add: lru_resident_def)
  have cap: "size_of_int sz = nat sz" "nat sz < 2 ^ 31 - 2" using sz by simp_all
  have lkd: "lockS lru_lock s = Some ?s" using i(3) by (simp add: lockS_free)
  show thesis
  proof (cases "int (length (il ?l)) < sz")
    case True
    let ?ls = "snd (setLRUBufferSize sz (?l, fm_stats s))"
    have "resizeLRUBuffer E sz s = Some (put_lru ?ls s)"
      using True ll lkd unlockS_put_lru [of lru_lock s ?ls] i(3)
      by (simp add: resizeLRUBuffer_def getLRUBufferSize_def Let_def)
    moreover have "fst ?ls = ?l\<lparr>max_num_items := nat sz\<rparr>" using cap by (simp add: setLRUBufferSize_def)
    ultimately show thesis using that i True cap
      by (simp add: keeps_def fm_inv_def lru_resident_def lru_wf_def)
  next
    case False
    let ?n = "int (length (il ?l)) - sz"
    have "lru_resident ?s" using i(2) by (simp add: lru_resident_def)
    then obtain cnt s1 where e: "evict_to_externram_multi E ?n ?s = Some (cnt, s1)"
      "fm_core owns client_ok D s1" "keeps content ?s s1" "lru_resident s1"
      "fm_lru s1 = ?l\<lparr>il := take (length (il ?l) - nat ?n) (il ?l)\<rparr>"
      "\<forall>n \<in> set (drop (length (il ?l) - nat ?n) (il ?l)). gone K ?s s1 n"
      using evict_multi_keeps [OF K, of ?s ?n] i(1) ll False sz by simp metis
    let ?ls = "snd (setLRUBufferSize sz (fm_lru s1, fm_stats s1))"
    have u: "unlockS lru_lock (put_lru ?ls s1) = Some ((put_lru ?ls s1)\<lparr>fm_locks := {}\<rparr>)"
      using e(3) by (intro unlockS_held) (auto simp: keeps_def)
    have "resizeLRUBuffer E sz s = Some ((put_lru ?ls s1)\<lparr>fm_locks := {}\<rparr>)"
      using False ll lkd e(1) u by (simp add: resizeLRUBuffer_def getLRUBufferSize_def Let_def)
    moreover have "fst ?ls = (fm_lru s1)\<lparr>max_num_items := nat sz\<rparr>"
      using cap by (simp add: setLRUBufferSize_def)
    moreover have n: "length (il ?l) - nat ?n = nat sz" using False sz by simp
    moreover have "writes_skipped_invalid (snd ?ls) = writes_skipped_invalid (fm_stats s1)"
      by (simp add: setLRUBufferSize_def stats_defs)
    then have "\<forall>n \<in> set (drop (nat sz) (il ?l)). gone K s ((put_lru ?ls s1)\<lparr>fm_locks := {}\<rparr>) n"
      using e(6) n by (simp add: gone_def put_lru_def)
    ultimately show thesis using that e(1-5) i(3) cap
      by (simp add: keeps_def fm_inv_def lru_resident_def lru_wf_def)
  qed
qed

end

section \<open>The abstract memory\<close>

text \<open>
  What the applications do to their memory: they load and store pages, and several of them may fault
  on a page, also on one that has been placed meanwhile. The abstract memory is a page for every
  descriptor and address; a fault leaves it alone, a store replaces one page and a load answers with
  the page.
\<close>

datatype event = Fault fd u64 | Load fd u64 | Store fd u64 page

fun event_page :: "event \<Rightarrow> fd \<times> u64" where
  "event_page (Fault f a) = (f, a)"
| "event_page (Load f a) = (f, a)"
| "event_page (Store f a pg) = (f, a)"

fun mem_step :: "event \<Rightarrow> (fd \<Rightarrow> u64 \<Rightarrow> page) \<Rightarrow> page list \<times> (fd \<Rightarrow> u64 \<Rightarrow> page)" where
  "mem_step (Fault f a) m = ([], m)"
| "mem_step (Load f a) m = ([m f a], m)"
| "mem_step (Store f a pg) m = ([], m(f := (m f)(a := pg)))"

fun mem_run :: "event list \<Rightarrow> (fd \<Rightarrow> u64 \<Rightarrow> page) \<Rightarrow> page list \<times> (fd \<Rightarrow> u64 \<Rightarrow> page)" where
  "mem_run [] m = ([], m)"
| "mem_run (e # es) m =
     (let (o1, m1) = mem_step e m; (o2, m2) = mem_run es m1 in (o1 @ o2, m2))"

text \<open>
  The same events on the monitor. An access to a page that is not resident faults first; an access
  whose page is still missing after the handler has returned does not complete.
\<close>

definition touch_page :: "'c env \<Rightarrow> fd \<Rightarrow> u64 \<Rightarrow> 'c fm \<Rightarrow> 'c fm option" where
  "touch_page E f a s =
     (if resident (fm_mach s) f a = None then map_option snd (read_from_externram E f a s) else Some s)"

fun run_event :: "'c env \<Rightarrow> event \<Rightarrow> 'c fm \<Rightarrow> (page list \<times> 'c fm) option" where
  "run_event E (Fault f a) s = map_option (\<lambda>(ret, s'). ([], s')) (read_from_externram E f a s)"
| "run_event E (Load f a) s = do {
     s1 \<leftarrow> touch_page E f a s;
     pg \<leftarrow> resident (fm_mach s1) f a;
     Some ([pg], s1)
   }"
| "run_event E (Store f a pg) s = do {
     s1 \<leftarrow> touch_page E f a s;
     _ \<leftarrow> resident (fm_mach s1) f a;
     Some ([], s1\<lparr>fm_mach := set_resident f a (Some pg) (fm_mach s1)\<rparr>)
   }"

fun run_events :: "'c env \<Rightarrow> event list \<Rightarrow> 'c fm \<Rightarrow> (page list \<times> 'c fm) option" where
  "run_events E [] s = Some ([], s)"
| "run_events E (e # es) s = do {
     (o1, s1) \<leftarrow> run_event E e s;
     (o2, s2) \<leftarrow> run_events E es s1;
     Some (o1 @ o2, s2)
   }"

definition event_ok :: "'c fm \<Rightarrow> event \<Rightarrow> bool" where
  "event_ok s e \<longleftrightarrow> registered (fst (event_page e)) s \<and> page_aligned (snd (event_page e))"

text \<open>The events a store with demands can handle.\<close>

definition event_fits :: "demands \<Rightarrow> event \<Rightarrow> bool" where
  "event_fits D e \<longleftrightarrow> key_ok D (snd (event_page e)) \<and> (case e of Store f a pg \<Rightarrow> page_ok D pg | _ \<Rightarrow> True)"

lemma event_fits_no_demands [simp]: "event_fits no_demands e"
  by (simp add: event_fits_def split: event.split)

context extern_ram
begin

lemma store_keeps:
  assumes "fm_inv owns client_ok D s" "resident (fm_mach s) f a \<noteq> None" "page_ok D pg"
  shows "fm_inv owns client_ok D (s\<lparr>fm_mach := set_resident f a (Some pg) (fm_mach s)\<rparr>)"
    and "logical content (s\<lparr>fm_mach := set_resident f a (Some pg) (fm_mach s)\<rparr>)
       = (logical content s)(f := (logical content s f)(a := pg))"
proof -
  let ?s = "s\<lparr>fm_mach := set_resident f a (Some pg) (fm_mach s)\<rparr>"
  have core: "fm_core owns client_ok D s" using assms by (simp add: fm_inv_def)
  then have "bufs (fm_mach ?s) MAP_FAILED = None" by (simp add: fm_core_def set_resident_def)
  note c = core_frame [OF core, of ?s, OF _ _ _ _ this]
  have k: "resident (fm_mach ?s) g x = Some pg' \<Longrightarrow> resident (fm_mach s) g x = Some pg' \<or> key_ok D x \<and> page_ok D pg'" for g x pg'
    using assms(2,3) core_key [OF core] by (auto simp: set_resident_def split: if_splits)
  have "fm_core owns client_ok D ?s" and r: "remote content ?s = remote content s"
    using c k by (simp_all add: set_resident_def)
  moreover have "lru_resident ?s" using assms
    by (auto simp: fm_inv_def lru_resident_def node_resident_def registered_def set_resident_def)
  ultimately show "fm_inv owns client_ok D ?s" using assms(1) by (simp add: fm_inv_def)
  show "logical content ?s = (logical content s)(f := (logical content s f)(a := pg))"
    using r by (intro ext) (auto simp: logical_def set_resident_def cong: option.case_cong)
qed

lemma touch_page_keeps:
  assumes K: "kernel_ok K" "e_kernel E = K" "e_backend E = B" "e_cfg E = plain_config"
    and st: "region_stable K f" and inv: "fm_inv owns client_ok D s"
    and f: "registered f s" "page_aligned a" "key_ok D a" and two: "2 \<le> max_num_items (fm_lru s)"
  obtains s' where "touch_page E f a s = Some s'" "fm_inv owns client_ok D s'" "keeps content s s'"
    "max_num_items (fm_lru s') = max_num_items (fm_lru s)"
    "resident (fm_mach s') f a = Some (logical content s f a)"
proof (cases "resident (fm_mach s) f a")
  case None
  obtain ret s' where "read_from_externram E f a s = Some (ret, s')" "fm_inv owns client_ok D s'"
    "keeps content s s'" "max_num_items (fm_lru s') = max_num_items (fm_lru s)"
    "resident (fm_mach s') f a = Some (logical content s f a)"
    using two read_from_externram_keeps [OF K st inv f] by metis
  with that None show thesis by (simp add: touch_page_def)
next
  case (Some pg)
  with that inv show thesis by (simp add: touch_page_def logical_def)
qed

text \<open>One event: it completes, and the contents and the answer are those of the abstract memory.\<close>

lemma run_event_refine:
  assumes K: "kernel_ok K" "e_kernel E = K" "e_backend E = B" "e_cfg E = plain_config"
    and st: "\<And>f. region_stable K f" and inv: "fm_inv owns client_ok D s"
    and ok: "event_ok s e" "event_fits D e" and two: "2 \<le> max_num_items (fm_lru s)"
  obtains out s' where "run_event E e s = Some (out, s')" "fm_inv owns client_ok D s'"
    "mem_step e (logical content s) = (out, logical content s')"
    "max_num_items (fm_lru s') = max_num_items (fm_lru s)" "fm_map s' = fm_map s"
proof -
  obtain f a where fa: "event_page e = (f, a)" by fastforce
  then have f: "registered f s" "page_aligned a" "key_ok D a" using ok by (simp_all add: event_ok_def event_fits_def)
  obtain s1 where s1: "touch_page E f a s = Some s1" "fm_inv owns client_ok D s1" "keeps content s s1"
    "max_num_items (fm_lru s1) = max_num_items (fm_lru s)"
    "resident (fm_mach s1) f a = Some (logical content s f a)"
    by (rule touch_page_keeps [OF K st inv f two])
  show thesis
  proof (cases e)
    case (Fault g b)
    obtain ret s' where "read_from_externram E f a s = Some (ret, s')" "fm_inv owns client_ok D s'"
      "keeps content s s'" "max_num_items (fm_lru s') = max_num_items (fm_lru s)"
      by (rule read_from_externram_keeps [OF K st inv f])
    with that Fault fa show thesis by (simp add: keeps_def)
  next
    case (Load g b)
    with that fa s1 show thesis by (simp add: keeps_def)
  next
    case (Store g b pg)
    with that fa s1 ok(2) store_keeps [OF s1(2), of f a pg] show thesis by (simp add: keeps_def event_fits_def)
  qed
qed

lemma run_events_refine:
  assumes K: "kernel_ok K" "e_kernel E = K" "e_backend E = B" "e_cfg E = plain_config"
    and st: "\<And>f. region_stable K f"
    and "fm_inv owns client_ok D s" "\<forall>e \<in> set es. event_ok s e \<and> event_fits D e"
    and "2 \<le> max_num_items (fm_lru s)"
  shows "\<exists>out s'. run_events E es s = Some (out, s') \<and> fm_inv owns client_ok D s'
    \<and> mem_run es (logical content s) = (out, logical content s')"
  using assms(6-)
proof (induction es arbitrary: s)
  case Nil
  then show ?case by simp
next
  case (Cons e es)
  have "event_ok s e" "event_fits D e" using Cons.prems(2) by simp_all
  then obtain o1 s1 where s1: "run_event E e s = Some (o1, s1)" "fm_inv owns client_ok D s1"
    "mem_step e (logical content s) = (o1, logical content s1)"
    "max_num_items (fm_lru s1) = max_num_items (fm_lru s)" "fm_map s1 = fm_map s"
    using run_event_refine [OF K st Cons.prems(1) _ _ Cons.prems(3)] by blast
  have "\<forall>e \<in> set es. event_ok s1 e \<and> event_fits D e" using Cons.prems(2) s1(5) by (simp add: event_ok_def registered_def)
  with Cons.IH [OF s1(2)] s1(4) Cons.prems(3) obtain o2 s2 where
    "run_events E es s1 = Some (o2, s2)" "fm_inv owns client_ok D s2"
    "mem_run es (logical content s1) = (o2, logical content s2)" by auto
  with s1 show ?case by simp
qed

end

section \<open>Theorems for the in-process store\<close>

abbreviation noop_inv :: "noop_client fm \<Rightarrow> bool" where
  "noop_inv \<equiv> fm_inv noop_owns noop_ok no_demands"

abbreviation noop_logical :: "noop_client fm \<Rightarrow> fd \<Rightarrow> u64 \<Rightarrow> page" where
  "noop_logical \<equiv> logical noop_content"

text \<open>
  An example: one application with descriptor 7, resident pages of ones at 4096 and 8192 and room for
  two pages in the LRU buffer.
\<close>

definition plain_env :: "noop_client env" where
  "plain_env = \<lparr>e_cfg = plain_config, e_kernel = sim_kernel, e_backend = noop_backend sim_kernel,
     e_now = (0, 0), e_exit_on_recoverable = False, e_wait_ufhandler = id, e_wait_flushed = id\<rparr>"

definition ones :: page where
  "ones = replicate 4096 1"

definition demo_fm :: "noop_client fm" where
  "demo_fm = \<lparr>fm_lru = \<lparr>il = [new_node 4096 7, new_node 8192 7], max_num_items = 2\<rparr>, fm_stats = stats0,
     fm_pc = newPageCache 1000 10 False, fm_tio = tio_init,
     fm_map = [\<lparr>ms_fd = 7, ms_upid = 1, ms_client = 1\<rparr>], fm_clients = [noop_new],
     fm_mach = set_resident 7 4096 (Some ones) (set_resident 7 8192 (Some ones) machine0), fm_read_tmp_page = 0, fm_locks = {},
     fm_err = False\<rparr>"

lemma plain_env_simps [simp]:
  "e_cfg plain_env = plain_config" "e_kernel plain_env = sim_kernel"
  "e_backend plain_env = noop_backend sim_kernel"
  by (simp_all add: plain_env_def)

lemma masked_pages [simp]:
  "(4096 :: u64) AND PAGE_MASK = 4096" "(8192 :: u64) AND PAGE_MASK = 8192"
  "(12288 :: u64) AND PAGE_MASK = 12288"
  by code_simp+

lemma demo_keys: "hash_page_key 4103 7 = 4103" "hash_page_key 8199 7 = 8199"
  "hash_page_key 4096 7 = 4103" "hash_page_key 8192 7 = 8199"
  "(4103 :: u64) AND PAGE_MASK = 4096" "(8199 :: u64) AND PAGE_MASK = 8192"
  by code_simp+

lemma demo_client: "client_get [noop_new] p = Some c \<longleftrightarrow> p = 1 \<and> c = noop_new"
proof -
  have "unat p \<le> 1 \<longleftrightarrow> p = 0 \<or> p = 1" by (metis le_less less_one unat_1 unat_eq_zero word_unat_eq_iff)
  then show ?thesis by (auto simp: client_get_def not_less)
qed

lemma demo_inv: "noop_inv demo_fm"
proof -
  have "fm_core noop_owns noop_ok no_demands demo_fm"
    by (auto simp: fm_core_def demo_fm_def demo_client machine0_def set_resident_def noop_ok_def noop_new_def
        noop_owns_def client_get_def)
  moreover have "lru_resident demo_fm"
    by (auto simp: lru_resident_def demo_fm_def lru_wf_def node_resident_def registered_def
        demo_keys node_ok_def set_resident_def)
  ultimately show ?thesis by (simp add: fm_inv_def demo_fm_def)
qed

lemma demo_logical:
  "noop_logical demo_fm 7 4096 = ones" "noop_logical demo_fm 7 8192 = ones"
  "noop_logical demo_fm 7 12288 = zero_page"
  by (simp_all add: logical_def demo_fm_def set_resident_def machine0_def remote_def fd_client_def
      hash_find_def client_get_def noop_content_def noop_new_def)

lemma demo_nodes: "il (fm_lru demo_fm) = [new_node 4096 7, new_node 8192 7]"
  by (simp add: demo_fm_def)

lemma demo_bound: "max_num_items (fm_lru demo_fm) = 2"
  by (simp add: demo_fm_def)

lemma demo_registered: "registered 7 demo_fm"
  by (simp add: registered_def demo_fm_def)

text \<open>
  C1. Handling a fault is transparent. In the build without page cache and threads, with the
  in-process store, a fault on a page of a registered descriptor whose region is stable always
  returns, keeps the invariant of the monitor, and leaves the contents of every page of every
  application as they were. If the LRU buffer has room for one more page, or is bounded by two pages
  or more, the faulting page is resident afterwards, with its contents.
\<close>

theorem fault_transparent:
  assumes "kernel_ok K" "e_kernel E = K" "e_backend E = noop_backend K" "e_cfg E = plain_config"
    and "region_stable K f" "noop_inv s" "registered f s" "page_aligned a"
  shows "\<exists>ret s'. read_from_externram E f a s = Some (ret, s') \<and> noop_inv s'
    \<and> noop_logical s' = noop_logical s
    \<and> (length (il (fm_lru s)) < max_num_items (fm_lru s) \<or> 2 \<le> max_num_items (fm_lru s) \<longrightarrow>
         resident (fm_mach s') f a = Some (noop_logical s f a))"
  using noop.read_from_externram_keeps [OF assms no_demands_simps(1)] by (metis keeps_def)

theorem fault_transparent_witness:
  "\<exists>ret s'. read_from_externram plain_env 7 12288 demo_fm = Some (ret, s')
    \<and> noop_logical s' 7 4096 = ones \<and> resident (fm_mach s') 7 12288 = Some zero_page"
proof -
  have "page_aligned 12288" by (simp add: page_aligned_def)
  from fault_transparent [OF sim_kernel_ok _ _ _ sim_kernel_stable demo_inv demo_registered this,
      of plain_env] show ?thesis
    by (auto simp: demo_logical demo_bound)
qed

text \<open>
  C2. The applications see a plain memory. Every sequence of loads, stores and faults on pages of
  registered descriptors completes, whatever the monitor evicts on the way, if the LRU buffer is
  bounded by two pages or more; the loads answer, and the contents are in the end, as those of the
  abstract memory.
\<close>

theorem memory_refinement:
  assumes "kernel_ok K" "e_kernel E = K" "e_backend E = noop_backend K" "e_cfg E = plain_config"
    and "\<And>f. region_stable K f" "noop_inv s" "\<forall>e \<in> set es. event_ok s e"
    and "2 \<le> max_num_items (fm_lru s)"
  shows "\<exists>out s'. run_events E es s = Some (out, s') \<and> noop_inv s'
    \<and> mem_run es (noop_logical s) = (out, noop_logical s')"
  using noop.run_events_refine [OF assms(1-6), of es] assms(7,8) by simp

definition demo_events :: "event list" where
  "demo_events = [Store 7 12288 ones, Load 7 4096, Store 7 4096 zero_page, Load 7 12288, Load 7 4096]"

theorem memory_refinement_witness:
  "map_option fst (run_events plain_env demo_events demo_fm) = Some [ones, ones, zero_page]"
proof -
  have "list_all (event_ok demo_fm) demo_events"
    by (simp add: demo_events_def event_ok_def demo_registered page_aligned_def)
  then show ?thesis
    using memory_refinement [OF sim_kernel_ok _ _ _ sim_kernel_stable demo_inv, of plain_env demo_events]
    by (auto simp: list_all_iff demo_events_def demo_logical demo_bound)
qed

text \<open>
  C5. Resizing the LRU buffer to a bound that is not negative returns, sets the bound and changes the
  contents of no page. The newest nodes up to the bound stay, and the page of every other node is
  evicted: it is no longer resident in its application, so that its contents are those of the store,
  unless an error was reported, a write was counted as skipped, or the kernel answers for this very page
  that it is busy.
\<close>

theorem resize_transparent:
  assumes "kernel_ok K" "e_kernel E = K" "e_backend E = noop_backend K" "e_cfg E = plain_config"
    and "noop_inv s" "0 \<le> sz" "sz < 2 ^ 31 - 2"
  shows "\<exists>s'. resizeLRUBuffer E sz s = Some s' \<and> noop_inv s' \<and> noop_logical s' = noop_logical s
    \<and> max_num_items (fm_lru s') = nat sz \<and> il (fm_lru s') = take (nat sz) (il (fm_lru s))
    \<and> (\<forall>n \<in> set (drop (nat sz) (il (fm_lru s))). gone K s s' n)"
  using noop.resizeLRUBuffer_keeps [OF assms] by (metis keeps_def)

theorem resize_transparent_witness:
  "\<exists>s'. resizeLRUBuffer plain_env 1 demo_fm = Some s' \<and> noop_logical s' 7 8192 = ones
    \<and> max_num_items (fm_lru s') = 1 \<and> il (fm_lru s') = [new_node 4096 7] \<and> gone sim_kernel demo_fm s' (new_node 8192 7)"
  using resize_transparent [OF sim_kernel_ok _ _ _ demo_inv, of plain_env 1]
  by (auto simp: demo_logical demo_nodes)

end
