(* ===== verification/Lock_Balance.thy ===== *)
theory Lock_Balance
  imports Transparency
begin

text \<open>
  The mutexes. Every operation of the fault path, in every combination of the build options, leaves
  the mutexes as it found them when it returns. The lemmas follow the call graph upwards.
\<close>

section \<open>The mutexes as a value\<close>

text \<open>The set is wrapped, so that equations between such values are rewritten as a whole.\<close>

datatype held = Held locks

definition lks :: "'c fm \<Rightarrow> held" where
  "lks s = Held (fm_locks s)"

fun take_lock :: "lock \<Rightarrow> held \<Rightarrow> held" where
  "take_lock l (Held H) = Held (insert l H)"

fun drop_lock :: "lock \<Rightarrow> held \<Rightarrow> held" where
  "drop_lock l (Held H) = Held (H - {l})"

fun free_lock :: "lock \<Rightarrow> held \<Rightarrow> bool" where
  "free_lock l (Held H) \<longleftrightarrow> l \<notin> H"

lemma lks_iff: "lks s' = lks s \<longleftrightarrow> fm_locks s' = fm_locks s"
  by (simp add: lks_def)

lemma drop_take_lock [simp]: "free_lock l h \<Longrightarrow> drop_lock l (take_lock l h) = h"
  by (cases h) simp

lemma lks_locks [simp]: "lks (s\<lparr>fm_mach := M\<rparr>) = lks s" "lks (s\<lparr>fm_read_tmp_page := b\<rparr>) = lks s"
  "lks (s\<lparr>fm_tio := t\<rparr>) = lks s"
  by (simp_all add: lks_def)

lemma lockS_locks: "lockS l s = Some s' \<Longrightarrow> lks s' = take_lock l (lks s) \<and> free_lock l (lks s)"
  by (auto simp: lks_def lockS_def mutex_lock_def split: if_splits)

lemma free_lks: "free_lock l (lks s) \<longleftrightarrow> l \<notin> fm_locks s"
  by (simp add: lks_def)

lemma unlockS_held_before: "unlockS l s = Some s' \<Longrightarrow> \<not> free_lock l (lks s)"
  by (auto simp: lks_def unlockS_def mutex_unlock_def split: if_splits)

lemma unlockS_locks: "unlockS l s = Some s' \<Longrightarrow> lks s' = drop_lock l (lks s)"
  by (auto simp: lks_def unlockS_def mutex_unlock_def split: if_splits)

section \<open>Updates that take no mutex\<close>

named_theorems locks_kept "updates that leave the mutexes alone"

lemma locks_upd [locks_kept]:
  "lks (upd_stats g s) = lks s" "lks (upd_tio h s) = lks s"
  "lks (upd_pc p s) = lks s" "lks (log_err s) = lks s"
  "lks (log_recoverable_err E s) = lks s" "lks (put_lru ls s) = lks s"
  "lks (post_writer s) = lks s" "lks (put_client c mc s) = lks s"
  by (auto simp: lks_def fm_step_defs log_recoverable_err_def put_lru_def post_writer_def put_client_def
      split: prod.splits)

lemma locks_munmap [locks_kept]: "lks (fm_munmap E p s) = lks s"
  by (simp add: fm_munmap_def locks_kept split: prod.splits)

lemma locks_hash [locks_kept]:
  "lks (ph_set h f pi s) = lks s"
  "lks (changeOwnership h f ow z s) = lks s"
  "lks (changeOwnershipWithItr h f ow z s) = lks s"
  "lks (addPageHashNode h f ow s) = lks s"
  "lks (insertPageCacheNode h f p n s) = lks s"
  "lks (updatePageCacheAfterWrite_impl h f z s) = lks s"
  "lks (updatePageCacheAfterSkippedRead h f s) = lks s"
  "lks (updatePageCacheAfterWrite f h s) = lks s"
  "lks (updatePageCacheAfterSkippedWrite f h s) = lks s"
  by (simp_all add: ph_set_def changeOwnership_def changeOwnershipWithItr_def addPageHashNode_def
      insertPageCacheNode_def updatePageCacheAfterWrite_impl_def updatePageCacheAfterSkippedRead_def
      updatePageCacheAfterWrite_def updatePageCacheAfterSkippedWrite_def locks_upd split: option.splits)

section \<open>Calls\<close>

lemmas locks_dest = lockS_locks unlockS_locks

lemmas locks_split = Option.bind_splits if_splits option.splits prod.splits

text \<open>The calls through a client and of the allocator.\<close>

lemma locks_client_calls:
  "fm_readPage E c k b s = Some (n, b', s') \<Longrightarrow> lks s' = lks s"
  "fm_readPage_top E c k b s = Some s' \<Longrightarrow> lks s' = lks s"
  "fm_readPage_bottom E c k b s = Some (n, b', s') \<Longrightarrow> lks s' = lks s"
  "fm_writePage E c k b s = Some (p, s') \<Longrightarrow> lks s' = lks s"
  "fm_readPages E c ks i bs ls s = Some (bs', ls', s') \<Longrightarrow> lks s' = lks s"
  "fm_readPages_top E c ks i s = Some s' \<Longrightarrow> lks s' = lks s"
  "fm_readPages_bottom E c ks i bs ls s = Some (bs', ls', s') \<Longrightarrow> lks s' = lks s"
  "fm_free p s = Some s' \<Longrightarrow> lks s' = lks s"
  by (auto simp: fm_readPage_def fm_readPage_top_def fm_readPage_bottom_def fm_writePage_def
      fm_readPages_def fm_readPages_top_def fm_readPages_bottom_def fm_free_def Let_def locks_kept
      split: locks_split)

section \<open>The page cache\<close>

lemma popLRU_pc_locks: "popLRU_pc s = Some (k, s') \<Longrightarrow> lks s' = lks s"
  by (auto simp: popLRU_pc_def Let_def locks_kept split: locks_split dest!: locks_client_calls)

lemma storePage_locks: "storePageInPageCache h f b n s = Some s' \<Longrightarrow> lks s' = lks s"
  by (auto simp: storePageInPageCache_def Let_def locks_kept split: locks_split
      dest!: locks_client_calls popLRU_pc_locks)

lemma storePages_locks: "storePages_loop hs f is bs ls s = Some s' \<Longrightarrow> lks s' = lks s"
  by (induction "is" arbitrary: s) (auto split: locks_split dest!: storePage_locks)

lemma prefetch_one_locks: "prefetch_one E f a s = Some s' \<Longrightarrow> lks s' = lks s"
  by (auto simp: prefetch_one_def Let_def locks_kept split: locks_split)

lemma prefetch_loop_locks: "prefetch_loop E h f i s = Some s' \<Longrightarrow> lks s' = lks s"
  by (erule prefetch_loop_inv [where P = "\<lambda>x. lks x = lks s"]) (auto dest!: prefetch_one_locks)

lemma prefetch_top_locks: "prefetch_top E h f s = Some s' \<Longrightarrow> lks s' = lks s"
  by (auto simp: prefetch_top_def lock_lists_def unlock_lists_def Let_def locks_kept split: locks_split
      dest!: locks_dest prefetch_loop_locks locks_client_calls)

lemma read_top_locks: "readPageIfInPageCache_top E f h b s = Some s' \<Longrightarrow> lks s' = lks s"
  by (auto simp: readPageIfInPageCache_top_def Let_def locks_kept split: locks_split
      dest!: prefetch_top_locks locks_client_calls)

lemma read_remote_locks: "read_remote E pi f h b s = Some (n, b', s') \<Longrightarrow> lks s' = lks s"
  by (auto simp: read_remote_def read_batch_def fm_read_one_def fm_read_many_def
      storePagesInPageCache_def Let_def locks_kept split: locks_split
      dest!: storePages_locks locks_client_calls)

lemma read_bottom_locks:
  "readPageIfInPageCache_bottom E f h b s = Some (n, b', s') \<Longrightarrow> lks s' = lks s"
  by (auto simp: readPageIfInPageCache_bottom_def read_cached_def Let_def locks_kept split: locks_split
      dest!: read_remote_locks)

lemma readPageIfInPageCache_locks:
  "readPageIfInPageCache E f h b s = Some (n, b', s') \<Longrightarrow> lks s' = lks s"
  by (auto simp: readPageIfInPageCache_def split: locks_split dest!: read_top_locks read_bottom_locks)

section \<open>Eviction\<close>

lemma evict_page_locks: "evict_page E f p a s = (r, s') \<Longrightarrow> lks s' = lks s"
  by (auto simp: evict_page_def Let_def locks_kept split: locks_split)

lemma get_local_tmp_page_locks: "get_local_tmp_page E s = (p, s') \<Longrightarrow> lks s' = lks s"
  by (auto simp: get_local_tmp_page_def locks_kept split: locks_split)

lemma evict_attempts_locks:
  "case evict_attempts E n f a s of Inl s' \<Rightarrow> lks s' = lks s
     | Inr (r, p, s') \<Rightarrow> lks s' = lks s"
proof (induction n arbitrary: s)
  case (Suc n)
  show ?case
  proof (cases "get_local_tmp_page E s")
    case (Pair p s1)
    obtain r s2 where e: "evict_page E f p a s1 = (r, s2)" by fastforce
    obtain ret k s3 where w: "evict_switch E r n s2 = (ret, k, s3)" by (metis prod_cases3)
    have "lks s1 = lks s" "lks s2 = lks s1" "lks s3 = lks s2"
      using get_local_tmp_page_locks [OF Pair] evict_page_locks [OF e] w
      by (auto simp: evict_switch_def locks_kept split: if_splits)
    then show ?thesis using Pair e w Suc [of "fm_munmap E p s3"]
      by (auto simp: locks_kept split: sum.splits)
  qed
qed simp

lemma evict_store_locks: "evict_store E f a p s = Some (k, q, s') \<Longrightarrow> lks s' = lks s"
  by (auto simp: evict_store_def evict_enqueue_def evict_write_def Let_def locks_kept
      split: locks_split dest!: locks_dest locks_client_calls)

lemma evict_to_externram_locks:
  assumes "evict_to_externram E f a s = Some (r, s')"
  shows "lks s' = lks s"
  using assms evict_attempts_locks [where E = E and n = 5 and f = f and a = a and s = s]
  by (auto simp: evict_to_externram_def locks_kept split: sum.splits locks_split
      dest!: evict_store_locks)

lemma evict_if_needed_locks: "evict_if_needed E f a t s = Some (r, s') \<Longrightarrow> lks s' = lks s"
  by (auto simp: evict_if_needed_def Let_def locks_kept split: locks_split
      dest!: locks_dest evict_to_externram_locks)

lemma evict_multi_loop_locks:
  "evict_multi_loop E ns is n s = Some (r, s') \<Longrightarrow> lks s' = lks s"
proof (induction "is" arbitrary: n s)
  case (Cons i "is")
  then show ?case
    by (auto simp: Let_def locks_kept split: locks_split dest!: evict_to_externram_locks Cons.IH)
qed simp

lemma evict_multi_locks: "evict_to_externram_multi E n s = Some (r, s') \<Longrightarrow> lks s' = lks s"
  by (auto simp: evict_to_externram_multi_def locks_kept split: locks_split dest!: evict_multi_loop_locks)

lemma shrink_lru_locks: "shrink_lru E s = Some s' \<Longrightarrow> lks s' = lks s"
  by (auto simp: shrink_lru_def Let_def locks_kept split: locks_split dest!: locks_dest evict_multi_locks)

section \<open>The fault handler\<close>

text \<open>Other threads do not touch what the handler holds while it sleeps.\<close>

definition wait_keeps_locks :: "'c env \<Rightarrow> bool" where
  "wait_keeps_locks E \<longleftrightarrow> (\<forall>s. lks (e_wait_ufhandler E s) = lks s)"

lemma wait_write_list_locks:
  assumes "wait_write_list E f a s = Some (p, s')" "wait_keeps_locks E"
  shows "lks s' = lks s"
proof -
  have "wait_keeps_locks E \<longrightarrow> lks (snd (p, s')) = lks s"
    by (rule wait_write_list.raw_induct
          [where P = "\<lambda>E f a s r. wait_keeps_locks E \<longrightarrow> lks (snd r) = lks s", OF _ assms(1)])
      (fastforce simp: wait_keeps_locks_def Let_def locks_kept split: locks_split dest: locks_dest)
  with assms(2) show ?thesis by simp
qed

lemma wait_prefetch_list_locks:
  assumes "wait_prefetch_list E f a s = Some s'" "wait_keeps_locks E"
  shows "lks s' = lks s"
proof -
  have "wait_keeps_locks E \<longrightarrow> lks s' = lks s"
    by (rule wait_prefetch_list.raw_induct
          [where P = "\<lambda>E f a s r. wait_keeps_locks E \<longrightarrow> lks r = lks s", OF _ assms(1)])
      (fastforce simp: wait_keeps_locks_def Let_def locks_kept split: locks_split dest: locks_dest)
  with assms(2) show ?thesis by simp
qed

lemma fetch_locks:
  "fetch_cached E f a s = Some (n, r, s') \<Longrightarrow> lks s' = lks s"
  "fetch_direct E f a s = Some (n, r, s') \<Longrightarrow> lks s' = lks s"
  by (auto simp: fetch_cached_def fetch_direct_def locks_kept split: locks_split
      dest!: locks_dest read_top_locks read_bottom_locks readPageIfInPageCache_locks
        evict_if_needed_locks locks_client_calls)

lemma place_page_out_locks: "place_page_out E f a n b s = Some (r, s') \<Longrightarrow> lks s' = lks s"
  by (auto simp: place_page_out_def place_data_page_def place_zero_page_def Let_def locks_kept
      split: locks_split dest!: evict_if_needed_locks)

text \<open>A page that is on neither list is not waited for.\<close>

lemma wait_write_list_absent:
  assumes "list_lock \<notin> fm_locks s" "find_write_info f a (fm_tio s) = None"
  shows "wait_write_list E f a s = Some (NULL, upd_tio (\<lambda>t. t\<lparr>isUfhandlerWaiting := False\<rparr>) s)"
  using assms by (subst wait_write_list.simps)
    (cases s, simp add: lockS_free unlockS_def upd_tio_def Let_def)

lemma wait_prefetch_list_absent:
  assumes "list_lock \<notin> fm_locks s" "\<not> exist_prefetch_info f a (fm_tio s)"
  shows "wait_prefetch_list E f a s = Some (upd_tio (\<lambda>t. t\<lparr>isUfhandlerWaiting := False\<rparr>) s)"
  using assms by (subst wait_prefetch_list.simps)
    (cases s, simp add: lockS_free unlockS_def upd_tio_def Let_def)

lemma async_unlock_stuck:
  assumes "wait_keeps_locks E" "ASYNREAD (e_cfg E)" "\<not> THREADED_PREFETCH (e_cfg E)" "read_lock \<notin> fm_locks s"
  shows "read_from_externram E f a s = None"
proof (rule ccontr)
  assume "read_from_externram E f a s \<noteq> None"
  then obtain ret s' where "read_from_externram E f a s = Some (ret, s')" by fastforce
  with assms show False
    by (auto simp: read_from_externram_def Let_def locks_kept free_lks split: locks_split
        dest!: wait_write_list_locks fetch_locks evict_if_needed_locks place_page_out_locks unlockS_held_before)
qed

lemma read_from_externram_locks:
  assumes "wait_keeps_locks E" "read_from_externram E f a s = Some (ret, s')" "read_lock \<notin> fm_locks s"
  shows "lks s' = lks s"
proof -
  have "\<not> ASYNREAD (e_cfg E) \<or> THREADED_PREFETCH (e_cfg E)"
    using async_unlock_stuck [OF assms(1) _ _ assms(3)] assms(2) by fastforce
  then show ?thesis using assms(1,2)
    by (auto simp: read_from_externram_def Let_def locks_kept split: locks_split
        dest!: wait_write_list_locks wait_prefetch_list_locks locks_dest fetch_locks
          evict_if_needed_locks place_page_out_locks shrink_lru_locks)
qed

section \<open>Examples\<close>

text \<open>The build with every option, an empty buffer and a page that was never seen.\<close>

definition all_config :: config where
  "all_config = \<lparr>PAGECACHE = True, PAGECACHE_ZEROPAGE_OPTIMIZATION = True,
     THREADED_WRITE_TO_EXTERNRAM = True, THREADED_PREFETCH = True, ASYNREAD = True\<rparr>"

definition all_env :: "noop_client env" where
  "all_env = plain_env\<lparr>e_cfg := all_config\<rparr>"

definition empty_fm :: "noop_client fm" where
  "empty_fm = demo_fm\<lparr>fm_lru := \<lparr>il = [], max_num_items = 8\<rparr>\<rparr>"

lemma all_env_simps:
  "e_cfg all_env = all_config" "e_kernel all_env = sim_kernel" "e_backend all_env = noop_backend sim_kernel"
  "e_wait_ufhandler all_env = id" "e_now all_env = (0, 0)" "e_exit_on_recoverable all_env = False"
  by (simp_all add: all_env_def plain_env_def)


lemma all_env_run: "\<exists>ret s'. read_from_externram all_env 7 12288 empty_fm = Some (ret, s')"
  by (simp add: read_from_externram_def all_env_simps all_config_def wait_write_list_absent wait_prefetch_list_absent lockS_def unlockS_def Let_def 
   empty_fm_def demo_fm_def upd_stats_def upd_tio_def mutex_lock_def mutex_unlock_def tio_init_def find_write_info_def exist_prefetch_info_def hash_find_def
   fetch_cached_def readPageIfInPageCache_top_def readPageIfInPageCache_bottom_def upd_pc_def count_access_def newPageCache_def ph_find_def
   evict_if_needed_def insertCacheNodeAndEvict_room null_node_def lru_insert_def put_lru_def addPageHashNode_def ph_set_def place_page_out_def place_zero_page_def sim_kernel_def
   set_resident_def machine0_def shrink_lru_def getLRUBufferSize_def getLRUBufferMaxSize_def log_err_def
   cong: if_cong)

section \<open>Theorems\<close>

text \<open>
  C7. Whatever the build options, a fault handler that starts without a mutex ends without one: if
  \<^verbatim>\<open>read_from_externram\<close> returns, it has released every mutex it took, on every path, if the threads
  it waits for leave its mutexes alone.
\<close>

theorem fault_locks_balanced:
  assumes "wait_keeps_locks E" "fm_locks s = {}" "read_from_externram E f a s = Some (ret, s')"
  shows "fm_locks s' = {}"
  using read_from_externram_locks [OF assms(1,3)] assms(2) by (simp add: lks_iff)

theorem fault_locks_balanced_witness:
  "\<exists>ret s'. read_from_externram all_env 7 12288 empty_fm = Some (ret, s') \<and> fm_locks s' = {}"
proof -
  have "wait_keeps_locks all_env" "fm_locks empty_fm = {}"
    by (simp_all add: wait_keeps_locks_def all_env_simps empty_fm_def demo_fm_def)
  then show ?thesis using fault_locks_balanced all_env_run by blast
qed

text \<open>
  C31. A build with asynchronous reads but without the prefetch thread, which the configuration
  allows, unlocks \<^verbatim>\<open>read_lock\<close> in every fault without having locked it: no fault is handled with
  defined behaviour.
\<close>

theorem async_read_needs_prefetch:
  assumes "wait_keeps_locks E" "fm_locks s = {}" "ASYNREAD (e_cfg E)" "\<not> THREADED_PREFETCH (e_cfg E)"
  shows "read_from_externram E f a s = None"
  using assms by (intro async_unlock_stuck) simp_all

theorem async_read_needs_prefetch_witness:
  "read_from_externram (all_env\<lparr>e_cfg := all_config\<lparr>THREADED_PREFETCH := False\<rparr>\<rparr>) 7 12288 empty_fm = None"
  by (rule async_read_needs_prefetch)
    (simp_all add: wait_keeps_locks_def all_env_simps all_config_def empty_fm_def demo_fm_def)

end
