(* ===== verification/Samples.thy ===== *)
theory Samples
  imports Page_Cache_Read
begin

text \<open>Concrete environments and states, over the example kernel and the in-process store.\<close>

definition sample_env :: "config \<Rightarrow> noop_client env" where
  "sample_env cfg = \<lparr>e_cfg = cfg, e_kernel = sim_kernel, e_backend = noop_backend sim_kernel,
     e_now = (0, 0), e_exit_on_recoverable = False, e_wait_ufhandler = id, e_wait_flushed = id\<rparr>"

text \<open>The builds with every option and with the page cache alone.\<close>

definition full_config :: config where
  "full_config = \<lparr>PAGECACHE = True, PAGECACHE_ZEROPAGE_OPTIMIZATION = True,
     THREADED_WRITE_TO_EXTERNRAM = True, THREADED_PREFETCH = True, ASYNREAD = True\<rparr>"

definition cache_config :: config where
  "cache_config = \<lparr>PAGECACHE = True, PAGECACHE_ZEROPAGE_OPTIMIZATION = False,
     THREADED_WRITE_TO_EXTERNRAM = False, THREADED_PREFETCH = False, ASYNREAD = False\<rparr>"

text \<open>One application with descriptor 7 and nothing resident; eight pages fit the LRU buffer.\<close>

definition sample_fm :: "noop_client fm" where
  "sample_fm = \<lparr>fm_lru = \<lparr>il = [], max_num_items = 8\<rparr>, fm_stats = stats0,
     fm_pc = newPageCache 4 10 True, fm_tio = tio_init,
     fm_map = [\<lparr>ms_fd = 7, ms_upid = 1, ms_client = 1\<rparr>], fm_clients = [noop_new],
     fm_mach = machine0, fm_read_tmp_page = 0, fm_locks = {}, fm_err = False\<rparr>"

lemma sample_env_simps [simp]:
  "e_cfg (sample_env c) = c" "e_kernel (sample_env c) = sim_kernel"
  "e_backend (sample_env c) = noop_backend sim_kernel" "e_wait_ufhandler (sample_env c) = id"
  "e_now (sample_env c) = (0, 0)" "e_exit_on_recoverable (sample_env c) = False"
  "e_wait_flushed (sample_env c) = id"
  by (simp_all add: sample_env_def)

lemma sample_fm_simps [simp]:
  "fm_locks sample_fm = {}" "fm_pc sample_fm = newPageCache 4 10 True" "fm_mach sample_fm = machine0"
  "fm_tio sample_fm = tio_init" "fm_clients sample_fm = [noop_new]"
  "fm_map sample_fm = [\<lparr>ms_fd = 7, ms_upid = 1, ms_client = 1\<rparr>]"
  "fm_lru sample_fm = \<lparr>il = [], max_num_items = 8\<rparr>"
  by (simp_all add: sample_fm_def)

end
