(* ===== verification/Page_Cache_Inv.thy ===== *)
theory Page_Cache_Inv
  imports Samples Recency
begin

text \<open>
  The page cache is consistent: a page is in the cache list exactly when the page hash says that the
  cache owns it. Every operation of the C interface keeps that, a page that was stored is handed out
  once without contacting the remote store, the list stays within its bound and the prefetch loop
  stays inside its arrays.
\<close>

section \<open>The recency contract\<close>

interpretation pcl: recency_list pcn_key pc_insert pc_erase pc_find
proof unfold_locales
  fix x :: page_cache_node and xs :: "page_cache_node list"
  assume "pcn_key x \<notin> pcn_key ` set xs"
  then show "pc_insert x xs = x # xs"
    by (simp add: pc_insert_def find_None_keys [THEN iffD2])
next
  fix x y :: page_cache_node and xs :: "page_cache_node list"
  assume "distinct_keys pcn_key xs" "y \<in> set xs" "pcn_key y = pcn_key x"
  moreover from this have "List.find (\<lambda>z. pcn_key z = pcn_key x) xs = Some y"
    by (simp add: find_distinct_keys)
  ultimately show "pc_insert x xs = y # drop_key pcn_key (pcn_key x) xs"
    by (simp add: pc_insert_def del_first_drop_key)
next
  fix xs :: "page_cache_node list" and k
  assume d: "distinct_keys pcn_key xs"
  show "pc_erase k xs = drop_key pcn_key k xs"
  proof (cases "pc_find k xs")
    case None
    then have "k \<notin> pcn_key ` set xs" by (simp add: pc_find_def find_None_keys)
    with None show ?thesis by (simp add: pc_erase_def)
  next
    case (Some y)
    with d show ?thesis by (simp add: pc_erase_def del_first_drop_key)
  qed
next
  fix xs :: "page_cache_node list" and k x
  assume "distinct_keys pcn_key xs"
  then show "pc_find k xs = Some x \<longleftrightarrow> x \<in> set xs \<and> pcn_key x = k"
    by (simp add: pc_find_def find_distinct_keys)
qed

section \<open>Consistency\<close>

text \<open>The pages the hash gives to the cache.\<close>

definition owned_by_cache :: "page_cache \<Rightarrow> (u64 \<times> fd) set" where
  "owned_by_cache p = {k. \<exists>pi. map_of (pagehash p) k = Some pi \<and> ownership pi = OWNERSHIP_PAGE_CACHE}"

definition pc_wf :: "page_cache \<Rightarrow> bool" where
  "pc_wf p \<longleftrightarrow> distinct_keys pcn_key (pc_il p) \<and> distinct_keys fst (pagehash p)
     \<and> pcn_key ` set (pc_il p) = owned_by_cache p"

lemma pc_wf_distinct [dest]: "pc_wf p \<Longrightarrow> distinct_keys pcn_key (pc_il p)"
  by (simp add: pc_wf_def)

lemma pc_wf_new: "pc_wf (newPageCache n m b)"
  by (simp add: pc_wf_def newPageCache_def owned_by_cache_def)

text \<open>Fields that consistency does not look at.\<close>

lemma pc_wf_cong: "pc_il p' = pc_il p \<Longrightarrow> pagehash p' = pagehash p \<Longrightarrow> pc_wf p' = pc_wf p"
  by (simp add: pc_wf_def owned_by_cache_def)

text \<open>One entry of the hash changes.\<close>

definition set_entry :: "u64 \<times> fd \<Rightarrow> PageInfo \<Rightarrow> page_cache \<Rightarrow> page_cache" where
  "set_entry k pi p = p\<lparr>pagehash := AList.update k pi (pagehash p)\<rparr>"

lemma owned_set_entry:
  "owned_by_cache (set_entry k pi p)
     = (if ownership pi = OWNERSHIP_PAGE_CACHE then insert k (owned_by_cache p) else owned_by_cache p - {k})"
  by (auto simp: owned_by_cache_def set_entry_def update_conv')

lemma distinct_set_entry: "distinct_keys fst (pagehash p) \<Longrightarrow> distinct_keys fst (pagehash (set_entry k pi p))"
  by (simp add: set_entry_def distinct_update)

lemma set_entry_il [simp]: "pc_il (set_entry k pi p) = pc_il p"
  by (simp add: set_entry_def)

lemma ph_set_pc: "fm_pc (ph_set h f pi s) = set_entry (h, f) pi (fm_pc s)"
  by (simp add: ph_set_def upd_pc_def set_entry_def)

lemma owned_il [simp]: "owned_by_cache (p\<lparr>pc_il := xs\<rparr>) = owned_by_cache p"
  by (simp add: owned_by_cache_def)

text \<open>
  A page that the cache does not own changes hands elsewhere; a page enters the list and the
  ownership at once; a page leaves both at once.
\<close>

lemma pc_wf_elsewhere:
  assumes "pc_wf p" "k \<notin> owned_by_cache p" "ownership pi \<noteq> OWNERSHIP_PAGE_CACHE"
  shows "pc_wf (set_entry k pi p)"
  using assms by (auto simp: pc_wf_def owned_set_entry distinct_set_entry)

lemma pc_wf_enter:
  assumes "pc_wf p" "pcn_key n = k" "ownership pi = OWNERSHIP_PAGE_CACHE"
  shows "pc_wf (set_entry k pi (p\<lparr>pc_il := pc_insert n (pc_il p)\<rparr>))"
proof -
  have d: "distinct_keys pcn_key (pc_il p)" using assms(1) by (rule pc_wf_distinct)
  show ?thesis
    using assms pcl.distinct_push [OF d] pcl.keys_push [OF d, of n]
      distinct_set_entry [of "p\<lparr>pc_il := pc_insert n (pc_il p)\<rparr>"]
    by (simp add: pc_wf_def owned_set_entry)
qed

lemma pc_wf_leave:
  assumes "pc_wf p" "ownership pi \<noteq> OWNERSHIP_PAGE_CACHE"
  shows "pc_wf (set_entry k pi (p\<lparr>pc_il := pc_erase k (pc_il p)\<rparr>))"
proof -
  have d: "distinct_keys pcn_key (pc_il p)" using assms(1) by (rule pc_wf_distinct)
  then show ?thesis
    using assms pcl.distinct_erase [OF d] distinct_set_entry [of "p\<lparr>pc_il := pc_erase k (pc_il p)\<rparr>"]
    by (auto simp: pc_wf_def owned_set_entry pcl.set_erase)
qed

lemma pc_wf_stays:
  assumes "pc_wf p" "k \<in> owned_by_cache p" "ownership pi = OWNERSHIP_PAGE_CACHE"
  shows "pc_wf (set_entry k pi p)"
  using assms by (auto simp: pc_wf_def owned_set_entry distinct_set_entry insert_absorb)

lemma owned_iff_find:
  assumes "pc_wf p"
  shows "pc_find k (pc_il p) = None \<longleftrightarrow> k \<notin> owned_by_cache p"
  using assms pcl.lookup_None_iff [of "pc_il p" k] by (auto simp: pc_wf_def)

lemma owned_ph_find:
  "(h, f) \<in> owned_by_cache (fm_pc s)
     \<longleftrightarrow> (\<exists>pi. ph_find h f s = Some pi \<and> ownership pi = OWNERSHIP_PAGE_CACHE)"
  by (simp add: owned_by_cache_def ph_find_def)

section \<open>Operations\<close>

named_theorems pc_kept "steps that leave the page cache alone"

lemma pc_frame [pc_kept]:
  "fm_pc (log_err s) = fm_pc s" "fm_pc (upd_stats g s) = fm_pc s" "fm_pc (upd_tio h s) = fm_pc s"
  "fm_pc (put_client c mc s) = fm_pc s" "fm_pc (upd_pc u s) = u (fm_pc s)"
  by (simp_all add: log_err_def upd_stats_def upd_tio_def put_client_def upd_pc_def split: prod.splits)

lemma fm_free_pc: "fm_free p s = Some s' \<Longrightarrow> fm_pc s' = fm_pc s"
  by (auto simp: fm_free_def)

lemma ph_find_cong: "fm_pc s' = fm_pc s \<Longrightarrow> ph_find h f s' = ph_find h f s"
  by (simp add: ph_find_def)

lemma changeOwnership_pc:
  "fm_pc (changeOwnership h f ow z s) = (case ph_find h f s of
     None \<Rightarrow> fm_pc s
   | Some pi \<Rightarrow> set_entry (h, f) (pi\<lparr>ownership := ow, is_zeropage := z\<rparr>) (fm_pc s))"
  "fm_pc (changeOwnershipWithItr h f ow z s) = (case ph_find h f s of
     None \<Rightarrow> fm_pc s
   | Some pi \<Rightarrow> set_entry (h, f) (pi\<lparr>ownership := ow, is_zeropage := z\<rparr>) (fm_pc s))"
  by (simp_all add: changeOwnership_def changeOwnershipWithItr_def ph_set_pc pc_kept split: option.split)

lemma addPageHashNode_pc:
  "fm_pc (addPageHashNode h f ow s)
     = set_entry (h, f) \<lparr>ref_count = 0, ownership = ow, is_zeropage = False\<rparr> (fm_pc s)"
  by (simp add: addPageHashNode_def ph_set_pc)

lemma insertPageCacheNode_pc:
  "fm_pc (insertPageCacheNode h f b n s) = (fm_pc s)\<lparr>pc_il := pc_insert
     \<lparr>pcn_hashcode = h, pcn_fd = f, pcn_address = b, pcn_size = n\<rparr> (pc_il (fm_pc s))\<rparr>"
  by (simp add: insertPageCacheNode_def pc_kept)

text \<open>Taking the oldest page out.\<close>

lemma popLRU_pc_wf:
  assumes "popLRU_pc s = Some (k, s')" "pc_wf (fm_pc s)"
  shows "pc_wf (fm_pc s')" "pc_il (fm_pc s') = butlast (pc_il (fm_pc s))"
proof -
  let ?xs = "pc_il (fm_pc s)"
  let ?n = "last ?xs"
  have ne: "?xs \<noteq> []" using assms(1) by (auto simp: popLRU_pc_def split: if_splits)
  obtain s1 where s1: "fm_free (pcn_address ?n) s = Some s1"
    and s': "s' = changeOwnership (pcn_hashcode ?n) (pcn_fd ?n) OWNERSHIP_EXTERNRAM False
       (upd_pc (\<lambda>p. p\<lparr>pc_il := butlast (pc_il p)\<rparr>) s1)"
    using assms(1) ne by (auto simp: popLRU_pc_def Let_def split: Option.bind_splits)
  have p1: "fm_pc s1 = fm_pc s" using s1 by (rule fm_free_pc)
  have d: "distinct_keys pcn_key ?xs" using assms(2) by (rule pc_wf_distinct)
  have k: "pcn_key ?n = (pcn_hashcode ?n, pcn_fd ?n)" by (simp add: pcn_key_def)
  have e: "butlast ?xs = pc_erase (pcn_hashcode ?n, pcn_fd ?n) ?xs"
    using butlast_drop_key [OF d ne] pcl.erase_drop [OF d] k by simp
  have "pcn_key ?n \<in> owned_by_cache (fm_pc s)" using assms(2) ne by (auto simp: pc_wf_def)
  then obtain pi where pi: "ph_find (pcn_hashcode ?n) (pcn_fd ?n) s = Some pi"
    using k by (auto simp: owned_ph_find)
  have "fm_pc s' = set_entry (pcn_hashcode ?n, pcn_fd ?n)
      (pi\<lparr>ownership := OWNERSHIP_EXTERNRAM, is_zeropage := False\<rparr>)
      ((fm_pc s)\<lparr>pc_il := pc_erase (pcn_hashcode ?n, pcn_fd ?n) ?xs\<rparr>)"
    using pi unfolding s' by (simp add: changeOwnership_pc ph_find_def pc_kept p1 e)
  moreover from this have "pc_wf (fm_pc s')"
    using pc_wf_leave [OF assms(2)] by (simp add: ownership_defs)
  ultimately show "pc_wf (fm_pc s')" "pc_il (fm_pc s') = butlast ?xs" using e by simp_all
qed

lemma pc_modify_keys: "map pcn_key (pc_modify h b n f xs) = map pcn_key xs"
  unfolding pc_modify_def by (induction xs) (auto simp: pcn_key_def)

text \<open>Storing a page: what the list is before the oldest page is dropped.\<close>

definition stored :: "u64 \<Rightarrow> fd \<Rightarrow> ptr \<Rightarrow> int \<Rightarrow> page_cache \<Rightarrow> page_cache \<Rightarrow> bool" where
  "stored h f b n p p' \<longleftrightarrow> pc_wf p' \<and> pc_max_num_items p' = pc_max_num_items p
     \<and> ((h, f) \<notin> owned_by_cache p \<longrightarrow> pc_il p'
          = \<lparr>pcn_hashcode = h, pcn_fd = f, pcn_address = b, pcn_size = n\<rparr> # pc_il p)
     \<and> ((h, f) \<in> owned_by_cache p \<longrightarrow> length (pc_il p') = length (pc_il p))"

lemma set_entry_insert:
  "(set_entry k pi p)\<lparr>pc_il := xs\<rparr> = set_entry k pi (p\<lparr>pc_il := xs\<rparr>)"
  by (simp add: set_entry_def)

lemma stored_new:
  assumes "pc_wf p" "(h, f) \<notin> owned_by_cache p" "ownership pi = OWNERSHIP_PAGE_CACHE"
  shows "stored h f b n p (set_entry (h, f) pi (p\<lparr>pc_il := pc_insert
     \<lparr>pcn_hashcode = h, pcn_fd = f, pcn_address = b, pcn_size = n\<rparr> (pc_il p)\<rparr>))"
proof -
  let ?n = "\<lparr>pcn_hashcode = h, pcn_fd = f, pcn_address = b, pcn_size = n\<rparr>"
  have k: "pcn_key ?n = (h, f)" by (simp add: pcn_key_def)
  then have "pc_insert ?n (pc_il p) = ?n # pc_il p"
    using assms(1,2) by (intro pcl.push_fresh) (simp add: pc_wf_def)
  then show ?thesis using pc_wf_enter [OF assms(1) k assms(3)] assms(2) by (simp add: stored_def set_entry_def)
qed

lemma stored_again:
  assumes "pc_wf p" "(h, f) \<in> owned_by_cache p" "ownership pi = OWNERSHIP_PAGE_CACHE"
  shows "stored h f b n p (set_entry (h, f) pi (p\<lparr>pc_il := pc_modify h b n f (pc_il p)\<rparr>))"
proof -
  let ?p = "p\<lparr>pc_il := pc_modify h b n f (pc_il p)\<rparr>"
  have m: "map pcn_key (pc_il ?p) = map pcn_key (pc_il p)" using pc_modify_keys by simp
  then have "pcn_key ` set (pc_il ?p) = pcn_key ` set (pc_il p)" by (metis list.set_map)
  with m have "pc_wf ?p" using assms(1) by (simp add: pc_wf_def)
  then have "pc_wf (set_entry (h, f) pi ?p)" using assms(2,3) by (intro pc_wf_stays) simp_all
  moreover have "length (pc_modify h b n f (pc_il p)) = length (pc_il p)"
    using pc_modify_keys by (metis length_map)
  ultimately show ?thesis using assms(2) by (simp add: stored_def set_entry_def)
qed

lemma storePage_cases:
  assumes "storePageInPageCache h f b n s = Some s'" "pc_wf (fm_pc s)"
  obtains s1 where "stored h f b n (fm_pc s) (fm_pc s1)"
    "s' = s1 \<and> \<not> pc_isSizeExceeded (fm_pc s1)
     \<or> pc_isSizeExceeded (fm_pc s1) \<and> (\<exists>k. popLRU_pc s1 = Some (k, s'))"
proof -
  let ?p = "fm_pc s" and ?own = "\<lambda>pi. pi\<lparr>ownership := OWNERSHIP_PAGE_CACHE, is_zeropage := False\<rparr>"
  define s0 where "s0 = (if n \<noteq> 4096 then log_err s else s)"
  have p0: "fm_pc s0 = ?p" by (simp add: s0_def pc_kept)
  have "\<exists>s1. stored h f b n ?p (fm_pc s1)
     \<and> (if pc_isSizeExceeded (fm_pc s1) then map_option snd (popLRU_pc s1) else Some s1) = Some s'"
  proof (cases "ph_find h f s0")
    case None
    let ?s1 = "insertPageCacheNode h f b n (addPageHashNode h f OWNERSHIP_PAGE_CACHE s0)"
    have "(h, f) \<notin> owned_by_cache ?p" using None by (simp add: owned_by_cache_def ph_find_def p0)
    then have "stored h f b n ?p (fm_pc ?s1)"
      using stored_new [OF assms(2)] by (simp add: insertPageCacheNode_pc addPageHashNode_pc set_entry_insert p0)
    with assms(1) None show ?thesis by (auto simp: storePageInPageCache_def s0_def [symmetric] Let_def)
  next
    case (Some pi)
    show ?thesis
    proof (cases "pc_find (h, f) (pc_il (fm_pc s0))")
      case None
      let ?s1 = "changeOwnershipWithItr h f OWNERSHIP_PAGE_CACHE False (insertPageCacheNode h f b n s0)"
      have f1: "ph_find h f (insertPageCacheNode h f b n s0) = Some pi"
        using Some by (simp add: ph_find_def insertPageCacheNode_pc)
      have "(h, f) \<notin> owned_by_cache ?p" using None owned_iff_find [OF assms(2)] p0 by simp
      then have "stored h f b n ?p (fm_pc ?s1)"
        using stored_new [OF assms(2), of h f "?own pi"] f1
        by (simp add: changeOwnership_pc insertPageCacheNode_pc p0)
      with assms(1) Some None show ?thesis by (auto simp: storePageInPageCache_def s0_def [symmetric] Let_def)
    next
      case (Some node)
      note ph = \<open>ph_find h f s0 = Some pi\<close>
      obtain s2 where s2: "fm_free (pcn_address node) s0 = Some s2"
        using assms(1) ph Some by (auto simp: storePageInPageCache_def s0_def [symmetric] Let_def split: Option.bind_splits)
      let ?s3 = "log_err (upd_pc (\<lambda>p. p\<lparr>pc_il := pc_modify h b n f (pc_il p)\<rparr>) s2)"
      let ?s1 = "changeOwnershipWithItr h f OWNERSHIP_PAGE_CACHE False ?s3"
      have p2: "fm_pc s2 = ?p" using fm_free_pc [OF s2] p0 by simp
      then have f3: "ph_find h f ?s3 = Some pi" using ph by (simp add: ph_find_def pc_kept p0)
      have "(h, f) \<in> owned_by_cache ?p" using Some owned_iff_find [OF assms(2), of "(h, f)"] p0 by simp
      then have "stored h f b n ?p (fm_pc ?s1)"
        using stored_again [OF assms(2), of h f "?own pi"] f3 by (simp add: changeOwnership_pc pc_kept p2)
      with assms(1) ph Some s2 show ?thesis
        by (auto simp: storePageInPageCache_def s0_def [symmetric] Let_def)
    qed
  qed
  with that show thesis by (auto split: if_splits)
qed

text \<open>Storing keeps consistency and the bound.\<close>

lemma storePage_wf:
  assumes "storePageInPageCache h f b n s = Some s'" "pc_wf (fm_pc s)"
  shows "pc_wf (fm_pc s')"
    and "length (pc_il (fm_pc s)) \<le> pc_max_num_items (fm_pc s) \<Longrightarrow>
         length (pc_il (fm_pc s')) \<le> pc_max_num_items (fm_pc s)"
proof -
  obtain s1 where s1: "stored h f b n (fm_pc s) (fm_pc s1)"
    "s' = s1 \<and> \<not> pc_isSizeExceeded (fm_pc s1)
     \<or> pc_isSizeExceeded (fm_pc s1) \<and> (\<exists>k. popLRU_pc s1 = Some (k, s'))"
    using storePage_cases [OF assms] .
  then have wf1: "pc_wf (fm_pc s1)" by (simp add: stored_def)
  with s1(2) show "pc_wf (fm_pc s')" by (auto dest: popLRU_pc_wf)
  assume "length (pc_il (fm_pc s)) \<le> pc_max_num_items (fm_pc s)"
  then have "length (pc_il (fm_pc s1)) \<le> Suc (pc_max_num_items (fm_pc s))"
    and "pc_max_num_items (fm_pc s1) = pc_max_num_items (fm_pc s)"
    using s1(1) by (auto simp: stored_def)
  with s1(2) show "length (pc_il (fm_pc s')) \<le> pc_max_num_items (fm_pc s)"
    using wf1 by (auto simp: pc_isSizeExceeded_def dest!: popLRU_pc_wf(2))
qed

lemma storePages_wf:
  "storePages_loop hs f is bs ns s = Some s' \<Longrightarrow> pc_wf (fm_pc s) \<Longrightarrow> pc_wf (fm_pc s')"
  by (induction "is" arbitrary: s) (auto split: if_splits Option.bind_splits dest!: storePage_wf(1))

text \<open>A page changes hands between the application and the remote store.\<close>

lemma change_wf:
  assumes "pc_wf (fm_pc s)" "(h, f) \<notin> owned_by_cache (fm_pc s)" "ow \<noteq> OWNERSHIP_PAGE_CACHE"
  shows "pc_wf (fm_pc (changeOwnershipWithItr h f ow z s))"
  using assms by (auto simp: changeOwnership_pc pc_wf_elsewhere split: option.split)

lemma update_wf:
  assumes "pc_wf (fm_pc s)"
  shows "pc_wf (fm_pc (updatePageCacheAfterWrite_impl h f z s))"
    and "pc_wf (fm_pc (updatePageCacheAfterSkippedRead h f s))"
  using assms
  by (auto simp: updatePageCacheAfterWrite_impl_def updatePageCacheAfterSkippedRead_def pc_kept
      owned_ph_find ownership_defs intro!: change_wf split: option.splits)

lemma erase_absent:
  assumes "pc_wf p" "k \<notin> owned_by_cache p"
  shows "p\<lparr>pc_il := pc_erase k (pc_il p)\<rparr> = p"
  using assms pcl.erase_drop [OF pc_wf_distinct [OF assms(1)], of k] by (simp add: pc_wf_def)

lemma leave_wf:
  fixes s s1 :: "'c fm"
  assumes "pc_wf (fm_pc s)" "fm_pc s1 = (fm_pc s)\<lparr>pc_il := pc_erase (h, f) (pc_il (fm_pc s))\<rparr>"
    and "ow \<noteq> OWNERSHIP_PAGE_CACHE"
  shows "pc_wf (fm_pc (changeOwnership h f ow z s1))" "pc_wf (fm_pc (changeOwnershipWithItr h f ow z s1))"
proof -
  have ph: "ph_find h f s1 = ph_find h f s" using assms(2) by (simp add: ph_find_def)
  have "pc_wf (case ph_find h f s1 of None \<Rightarrow> fm_pc s1
     | Some pi \<Rightarrow> set_entry (h, f) (pi\<lparr>ownership := ow, is_zeropage := z\<rparr>) (fm_pc s1))"
  proof (cases "ph_find h f s")
    case None
    then have "(h, f) \<notin> owned_by_cache (fm_pc s)" by (simp add: owned_ph_find)
    then show ?thesis using None ph assms(1,2) erase_absent [OF assms(1)] by simp
  next
    case (Some pi)
    then show ?thesis using ph assms pc_wf_leave [OF assms(1)] by simp
  qed
  then show "pc_wf (fm_pc (changeOwnership h f ow z s1))" "pc_wf (fm_pc (changeOwnershipWithItr h f ow z s1))"
    by (simp_all add: changeOwnership_pc)
qed

lemma invalidate_wf:
  assumes "invalidatePageCache f h s = Some s'" "pc_wf (fm_pc s)"
  shows "pc_wf (fm_pc s')"
proof -
  obtain s1 where s1: "fm_pc s1 = fm_pc s"
    "s' = changeOwnership h f OWNERSHIP_EXTERNRAM False
       (upd_pc (\<lambda>p. p\<lparr>pc_il := pc_erase (h, f) (pc_il p)\<rparr>) s1)"
    using assms(1) by (auto simp: invalidatePageCache_def Let_def split: Option.bind_splits option.splits
        dest: fm_free_pc)
  then show ?thesis by (auto simp: pc_kept ownership_defs intro!: leave_wf [OF assms(2)])
qed

lemma cleanup_wf:
  assumes "cleanup_loop i s = Some s'" "pc_wf (fm_pc s)"
  shows "pc_wf (fm_pc s')"
proof -
  have "pc_wf (fm_pc s) \<longrightarrow> pc_wf (fm_pc s')"
    by (rule cleanup_loop.raw_induct [where P = "\<lambda>i s r. pc_wf (fm_pc s) \<longrightarrow> pc_wf (fm_pc r)", OF _ assms(1)])
      (auto split: if_splits Option.bind_splits dest: popLRU_pc_wf)
  with assms(2) show ?thesis by simp
qed

text \<open>The top half of a read prepares the prefetch and leaves the list and the hash alone.\<close>

definition cache_of :: "'c fm \<Rightarrow> page_cache_node list \<times> ((u64 \<times> fd) \<times> PageInfo) list" where
  "cache_of s = (pc_il (fm_pc s), pagehash (fm_pc s))"

lemma cache_of_wf: "cache_of s' = cache_of s \<Longrightarrow> pc_wf (fm_pc s') = pc_wf (fm_pc s)"
  by (rule pc_wf_cong) (simp_all add: cache_of_def)

lemma cache_of_find: "cache_of s' = cache_of s \<Longrightarrow> ph_find h f s' = ph_find h f s"
  by (simp add: cache_of_def ph_find_def)

lemma cache_frame [simp]:
  "cache_of (log_err s) = cache_of s" "cache_of (upd_stats g s) = cache_of s"
  "cache_of (upd_tio t s) = cache_of s" "cache_of (upd_pc (count_access h) s) = cache_of s"
  "cache_of (upd_pc (\<lambda>p. p\<lparr>numPrefetch := n\<rparr>) s) = cache_of s"
  "cache_of (upd_pc (\<lambda>p. p\<lparr>keys_for_mread := ks p, numPrefetch := n\<rparr>) s) = cache_of s"
  "cache_of (upd_pc (\<lambda>p. p\<lparr>numPrefetch := n, keys_for_mread := ks p\<rparr>) s) = cache_of s"
  "cache_of (upd_pc (\<lambda>p. p\<lparr>bufs_for_mread := bs, lengths_for_mread := ls\<rparr>) s) = cache_of s"
  by (simp_all add: cache_of_def pc_kept count_access_def)

lemma client_calls_cache:
  "fm_readPage E c k b s = Some (n, b', s') \<Longrightarrow> cache_of s' = cache_of s"
  "fm_readPage_top E c k b s = Some s' \<Longrightarrow> cache_of s' = cache_of s"
  "fm_readPage_bottom E c k b s = Some (n, b', s') \<Longrightarrow> cache_of s' = cache_of s"
  "fm_readPages E c ks i bs ls s = Some (bs', ls', s') \<Longrightarrow> cache_of s' = cache_of s"
  "fm_readPages_top E c ks i s = Some s' \<Longrightarrow> cache_of s' = cache_of s"
  "fm_readPages_bottom E c ks i bs ls s = Some (bs', ls', s') \<Longrightarrow> cache_of s' = cache_of s"
  "lockS l s = Some s' \<Longrightarrow> cache_of s' = cache_of s" "unlockS l s = Some s' \<Longrightarrow> cache_of s' = cache_of s"
  by (auto simp: cache_of_def fm_readPage_def fm_readPage_top_def fm_readPage_bottom_def fm_readPages_def
      fm_readPages_top_def fm_readPages_bottom_def lockS_def unlockS_def Let_def pc_kept
      split: Option.bind_splits prod.splits)

lemma prefetch_loop_cache:
  assumes "prefetch_loop E h f i s = Some s'"
  shows "cache_of s' = cache_of s"
  using assms by (rule prefetch_loop_inv [where P = "\<lambda>x. cache_of x = cache_of s"])
    (auto simp: prefetch_one_def Let_def split: if_splits)

lemma prefetch_top_cache: "prefetch_top E h f s = Some s' \<Longrightarrow> cache_of s' = cache_of s"
  by (auto simp: prefetch_top_def lock_lists_def unlock_lists_def Let_def
      split: if_splits Option.bind_splits dest!: client_calls_cache prefetch_loop_cache)

lemma read_top_cache: "readPageIfInPageCache_top E f h b s = Some s' \<Longrightarrow> cache_of s' = cache_of s"
  by (auto simp: readPageIfInPageCache_top_def Let_def
      split: if_splits option.splits Option.bind_splits dest!: client_calls_cache prefetch_top_cache)

text \<open>The bottom half.\<close>

lemma to_app_wf:
  assumes "pc_wf (fm_pc s)" "ph_find h f s = Some pi" "ownership pi \<noteq> OWNERSHIP_PAGE_CACHE"
    and "cache_of s1 = cache_of s"
  shows "pc_wf (fm_pc (changeOwnershipWithItr h f OWNERSHIP_APPLICATION False s1))"
proof -
  have "pc_wf (fm_pc s1)" "ph_find h f s1 = Some pi"
    using assms cache_of_wf [OF assms(4)] cache_of_find [OF assms(4)] by simp_all
  then show ?thesis using assms(3) by (intro change_wf) (auto simp: owned_ph_find ownership_defs)
qed

lemma read_batch_wf:
  assumes "read_batch E c f h b s = Some (n, b', s')" "pc_wf (fm_pc s)"
    and "ph_find h f s = Some pi" "ownership pi \<noteq> OWNERSHIP_PAGE_CACHE"
  shows "pc_wf (fm_pc s')"
proof -
  obtain bs ls s1 where m: "fm_read_many E c s = Some (bs, ls, s1)"
    using assms(1) by (auto simp: read_batch_def split: Option.bind_splits)
  then have c1: "cache_of s1 = cache_of s"
    by (auto simp: fm_read_many_def Let_def split: if_splits dest!: client_calls_cache)
  let ?s2 = "upd_pc (\<lambda>p. p\<lparr>bufs_for_mread := bs, lengths_for_mread := ls\<rparr>) s1"
  let ?s3 = "if bs ! 0 \<noteq> NULL then changeOwnershipWithItr h f OWNERSHIP_APPLICATION False ?s2 else log_err ?s2"
  have c2: "cache_of ?s2 = cache_of s" using c1 by simp
  have w: "pc_wf (fm_pc ?s3)"
    using to_app_wf [OF assms(2-4) c2] cache_of_wf [OF c2] assms(2) by (simp add: pc_kept)
  have "s' = ?s3 \<or> (\<exists>hs bs ls is. storePages_loop hs f is bs ls ?s3 = Some s')"
    using assms(1) m unfolding read_batch_def storePagesInPageCache_def
    by (auto simp: Let_def split: if_splits Option.bind_splits)
  then show ?thesis using w storePages_wf by blast
qed

lemma read_remote_wf:
  assumes "read_remote E pi f h b s = Some (n, b', s')" "pc_wf (fm_pc s)"
    and "ph_find h f s = Some pi" "ownership pi \<noteq> OWNERSHIP_PAGE_CACHE"
  shows "pc_wf (fm_pc s')"
proof -
  note app = to_app_wf [OF assms(2-4)]
  have one: "cache_of s1 = cache_of s" if "fm_read_one E c h b s = Some (n1, b1, s1)" for c n1 b1 s1
    using that by (auto simp: fm_read_one_def split: if_splits dest!: client_calls_cache)
  show ?thesis using assms(1,2)
    by (auto simp: read_remote_def Let_def split: if_splits Option.bind_splits
        intro!: app dest!: one dest: read_batch_wf [OF _ assms(2-4)])
qed

lemma read_cached_wf:
  assumes "read_cached f h b s = (n, b', s')" "pc_wf (fm_pc s)"
  shows "pc_wf (fm_pc s')"
proof -
  have "s' = changeOwnershipWithItr h f OWNERSHIP_APPLICATION False
      (upd_pc (\<lambda>p. p\<lparr>pc_il := pc_erase (h, f) (pc_il p)\<rparr>) s)"
    using assms(1) by (auto simp: read_cached_def Let_def split: option.splits)
  then show ?thesis by (auto simp: pc_kept ownership_defs intro!: leave_wf [OF assms(2)])
qed

lemma read_bottom_wf:
  assumes "readPageIfInPageCache_bottom E f h b s = Some (n, b', s')" "pc_wf (fm_pc s)"
  shows "pc_wf (fm_pc s')"
proof (cases "ph_find h f s")
  case None
  then have "(h, f) \<notin> owned_by_cache (fm_pc s)" by (simp add: owned_ph_find)
  with assms None show ?thesis
    by (auto simp: readPageIfInPageCache_bottom_def addPageHashNode_pc ownership_defs intro!: pc_wf_elsewhere)
next
  case (Some pi)
  with assms show ?thesis
    by (auto simp: readPageIfInPageCache_bottom_def pc_kept ownership_defs split: if_splits
        intro: read_cached_wf dest!: read_remote_wf)
qed

lemma readPage_wf:
  assumes "readPageIfInPageCache E f h b s = Some (n, b', s')" "pc_wf (fm_pc s)"
  shows "pc_wf (fm_pc s')"
  using assms by (auto simp: readPageIfInPageCache_def split: Option.bind_splits
      dest!: read_top_cache [THEN cache_of_wf] intro: read_bottom_wf)

section \<open>Removing a descriptor\<close>

lemma removeUFD_pc_loop_set:
  assumes "removeUFD_pc_loop stale f xs s = Some (n, s')" "distinct_keys pcn_key (pc_il (fm_pc s))"
  shows "distinct_keys pcn_key (pc_il (fm_pc s')) \<and> pagehash (fm_pc s') = pagehash (fm_pc s)
    \<and> set (pc_il (fm_pc s'))
        = {x \<in> set (pc_il (fm_pc s)). pcn_key x \<notin> pcn_key ` {y \<in> set xs. pcn_fd y = f}}"
  using assms
proof (induction xs arbitrary: n s)
  case Nil
  then show ?case by simp
next
  case (Cons x xs)
  show ?case
  proof (cases "pcn_fd x = f")
    case True
    then obtain s1 m where s1: "fm_free (pcn_address x) s = Some s1"
      "removeUFD_pc_loop stale f xs (upd_pc (\<lambda>p. p\<lparr>pc_il := pc_erase (pcn_hashcode x, f) (pc_il p)\<rparr>) s1)
         = Some (m, s')"
      using Cons.prems(1) by (auto simp: Let_def split: Option.bind_splits if_splits)
    let ?s2 = "upd_pc (\<lambda>p. p\<lparr>pc_il := pc_erase (pcn_hashcode x, f) (pc_il p)\<rparr>) s1"
    have p2: "fm_pc ?s2 = (fm_pc s)\<lparr>pc_il := pc_erase (pcn_hashcode x, f) (pc_il (fm_pc s))\<rparr>"
      using fm_free_pc [OF s1(1)] by (simp add: pc_kept)
    have k: "pcn_key x = (pcn_hashcode x, f)" using True by (simp add: pcn_key_def)
    note d = Cons.prems(2)
    have "distinct_keys pcn_key (pc_il (fm_pc ?s2))" using p2 pcl.distinct_erase [OF d] by simp
    note ih = Cons.IH [OF s1(2) this]
    have "{y \<in> set (x # xs). pcn_fd y = f} = insert x {y \<in> set xs. pcn_fd y = f}" using True by auto
    then have im: "pcn_key ` {y \<in> set (x # xs). pcn_fd y = f}
        = insert (pcn_hashcode x, f) (pcn_key ` {y \<in> set xs. pcn_fd y = f})" using k by simp
    show ?thesis unfolding im using ih p2 by (auto simp: pcl.set_erase [OF d])
  next
    case False
    then show ?thesis using Cons.IH Cons.prems by auto
  qed
qed

lemma map_of_filter_key: "map_of (filter (\<lambda>(k, v). Q k) al) k = (if Q k then map_of al k else None)"
  by (induction al) auto

lemma removeUFD_wf:
  assumes "removeUFDFromPageCache stale f s = Some (n, s1)" "removeUFDFromPageHash f s1 = (ks, s')"
    and "pc_wf (fm_pc s)"
  shows "pc_wf (fm_pc s')"
proof -
  let ?Q = "\<lambda>(h, g). g \<noteq> f"
  obtain m where m: "removeUFD_pc_loop stale f (pc_il (fm_pc s)) s = Some (m, s1)"
    using assms(1) by (auto simp: removeUFDFromPageCache_def split: Option.bind_splits)
  note r = removeUFD_pc_loop_set [OF m pc_wf_distinct [OF assms(3)]]
  have e: "(\<lambda>((h, g), pi). g \<noteq> f) = (\<lambda>(k, v :: PageInfo). ?Q k)" by auto
  have p': "fm_pc s' = (fm_pc s1)\<lparr>pagehash := filter (\<lambda>(k, v). ?Q k) (pagehash (fm_pc s))\<rparr>"
    using assms(2) r by (auto simp: removeUFDFromPageHash_def upd_pc_def e)
  have keys: "pcn_key ` set (pc_il (fm_pc s1)) = {k \<in> pcn_key ` set (pc_il (fm_pc s)). ?Q k}"
    using r by (auto simp: pcn_key_def image_iff)
  have "owned_by_cache (fm_pc s') = {k \<in> owned_by_cache (fm_pc s). ?Q k}"
    by (auto simp: owned_by_cache_def p' map_of_filter_key split: if_splits)
  moreover have "distinct_keys fst (pagehash (fm_pc s'))"
    using assms(3) p' by (simp add: pc_wf_def distinct_map_filter)
  ultimately show ?thesis using assms(3) keys r p' by (simp add: pc_wf_def)
qed

section \<open>All states the monitor can reach\<close>

text \<open>
  One step is one call the monitor makes on the page cache, with any arguments, or a step of another
  component. The two calls that forget a descriptor are made under one lock.
\<close>

inductive pc_step :: "'c env \<Rightarrow> 'c fm \<Rightarrow> 'c fm \<Rightarrow> bool" for E :: "'c env" where
  read: "readPageIfInPageCache E f h b s = Some (n, b', s') \<Longrightarrow> pc_step E s s'"
| read_top: "readPageIfInPageCache_top E f h b s = Some s' \<Longrightarrow> pc_step E s s'"
| read_bottom: "readPageIfInPageCache_bottom E f h b s = Some (n, b', s') \<Longrightarrow> pc_step E s s'"
| written: "pc_step E s (updatePageCacheAfterWrite f h s)"
| skipped_write: "pc_step E s (updatePageCacheAfterSkippedWrite f h s)"
| skipped_read: "pc_step E s (updatePageCacheAfterSkippedRead h f s)"
| store: "storePagesInPageCache hs f n bs ls s = Some s' \<Longrightarrow> pc_step E s s'"
| invalidate: "invalidatePageCache f h s = Some s' \<Longrightarrow> pc_step E s s'"
| cleanup: "pageCacheCleanup s = Some s' \<Longrightarrow> pc_step E s s'"
| remove: "removeUFDFromPageCache stale f s = Some (n, s1) \<Longrightarrow> removeUFDFromPageHash f s1 = (ks, s') \<Longrightarrow>
     pc_step E s s'"
| elsewhere: "fm_pc s' = fm_pc s \<Longrightarrow> pc_step E s s'"

inductive pc_reachable :: "'c env \<Rightarrow> 'c fm \<Rightarrow> bool" for E :: "'c env" where
  start: "fm_pc s = newPageCache n m b \<Longrightarrow> pc_reachable E s"
| step: "pc_reachable E s \<Longrightarrow> pc_step E s s' \<Longrightarrow> pc_reachable E s'"

lemma pc_step_wf:
  assumes "pc_step E s s'" "pc_wf (fm_pc s)"
  shows "pc_wf (fm_pc s')"
  using assms
proof cases
  case (read_top f h b)
  then show ?thesis using assms(2) cache_of_wf [OF read_top_cache] by blast
qed (auto simp: updatePageCacheAfterWrite_def updatePageCacheAfterSkippedWrite_def update_wf
    storePagesInPageCache_def pageCacheCleanup_def
    intro: readPage_wf read_bottom_wf storePages_wf invalidate_wf cleanup_wf removeUFD_wf)

lemma pc_reachable_wf: "pc_reachable E s \<Longrightarrow> pc_wf (fm_pc s)"
  by (induction rule: pc_reachable.induct) (auto simp: pc_wf_new intro: pc_step_wf)

lemma stored_found:
  assumes "storePageInPageCache h f b n s = Some s'" "pc_wf (fm_pc s)" "(h, f) \<notin> owned_by_cache (fm_pc s)"
    and "0 < pc_max_num_items (fm_pc s)" "length (pc_il (fm_pc s)) \<le> pc_max_num_items (fm_pc s)"
  shows "pc_find (h, f) (pc_il (fm_pc s')) = Some \<lparr>pcn_hashcode = h, pcn_fd = f, pcn_address = b, pcn_size = n\<rparr>"
proof -
  let ?n = "\<lparr>pcn_hashcode = h, pcn_fd = f, pcn_address = b, pcn_size = n\<rparr>"
  obtain s1 where s1: "stored h f b n (fm_pc s) (fm_pc s1)"
    "s' = s1 \<and> \<not> pc_isSizeExceeded (fm_pc s1)
     \<or> pc_isSizeExceeded (fm_pc s1) \<and> (\<exists>k. popLRU_pc s1 = Some (k, s'))"
    using storePage_cases [OF assms(1,2)] .
  then have il: "pc_il (fm_pc s1) = ?n # pc_il (fm_pc s)" and wf1: "pc_wf (fm_pc s1)"
    and mx: "pc_max_num_items (fm_pc s1) = pc_max_num_items (fm_pc s)"
    using assms(3) by (auto simp: stored_def)
  have "?n \<in> set (pc_il (fm_pc s'))"
    using s1(2)
  proof
    assume "s' = s1 \<and> \<not> pc_isSizeExceeded (fm_pc s1)"
    then show ?thesis using il by simp
  next
    assume a: "pc_isSizeExceeded (fm_pc s1) \<and> (\<exists>k. popLRU_pc s1 = Some (k, s'))"
    then have "pc_il (fm_pc s) \<noteq> []" using assms(4) il mx by (auto simp: pc_isSizeExceeded_def)
    then show ?thesis using a popLRU_pc_wf(2) [OF _ wf1] il by auto
  qed
  moreover have "distinct_keys pcn_key (pc_il (fm_pc s'))"
    using storePage_wf(1) [OF assms(1,2)] by (rule pc_wf_distinct)
  ultimately show ?thesis by (simp add: pcl.lookup_iff pcn_key_def)
qed

section \<open>Prefetching\<close>

text \<open>The loop tries at most 101 pages and each one takes at most one slot.\<close>

lemma prefetch_loop_total:
  assumes "1 \<le> i" "i \<le> 101" "0 \<le> numPrefetch (fm_pc s)" "numPrefetch (fm_pc s) < i"
    and "length (keys_for_mread (fm_pc s)) = MAX_MULTI_READ"
  shows "\<exists>s'. prefetch_loop E h f i s = Some s' \<and> 0 \<le> numPrefetch (fm_pc s') \<and> numPrefetch (fm_pc s') \<le> 101
    \<and> (numPrefetch (fm_pc s) < max 1 (prefetch_size (fm_pc s)) \<longrightarrow>
         numPrefetch (fm_pc s') \<le> max 1 (prefetch_size (fm_pc s)))"
  using assms
proof (induction E h f i s rule: prefetch_loop.induct)
  case (1 E h f i s)
  let ?a = "h + word_of_int i * PAGE_SIZE"
  let ?m = "if prefetch_wanted E f ?a s then prefetch_one E f ?a s else Some s"
  show ?case
  proof (cases "numPrefetch (fm_pc s) < numConseqAcc (fm_pc s)")
    case True
    have "\<exists>s1. ?m = Some s1 \<and> numPrefetch (fm_pc s1) \<in> {numPrefetch (fm_pc s), numPrefetch (fm_pc s) + 1}
       \<and> length (keys_for_mread (fm_pc s1)) = MAX_MULTI_READ \<and> prefetch_size (fm_pc s1) = prefetch_size (fm_pc s)"
      using "1.prems" by (auto simp: prefetch_one_def Let_def pc_kept MAX_MULTI_READ_def)
    then obtain s1 where s1: "?m = Some s1"
      "numPrefetch (fm_pc s1) \<in> {numPrefetch (fm_pc s), numPrefetch (fm_pc s) + 1}"
      "length (keys_for_mread (fm_pc s1)) = MAX_MULTI_READ" "prefetch_size (fm_pc s1) = prefetch_size (fm_pc s)"
      by blast
    let ?stop = "numPrefetch (fm_pc s1) \<ge> prefetch_size (fm_pc s1)"
    have u: "prefetch_loop E h f i s = (if ?stop then Some s1 else if i > 100 then Some s1
        else prefetch_loop E h f (i + 1) s1)"
      using True s1(1) by (subst prefetch_loop.simps) (simp add: Let_def)
    show ?thesis
    proof (cases "?stop \<or> i > 100")
      case True
      then show ?thesis using u s1 "1.prems" by auto
    next
      case False
      then have go: "\<not> ?stop" "\<not> i > 100" by auto
      have "1 \<le> i + 1" "i + 1 \<le> 101" "0 \<le> numPrefetch (fm_pc s1)" "numPrefetch (fm_pc s1) < i + 1"
        using go s1(2) "1.prems" by auto
      from "1.IH" [OF True refl s1(1) go this s1(3)] show ?thesis using u go s1(4) by auto
    qed
  next
    case False
    then have "prefetch_loop E h f i s = Some s" by (subst prefetch_loop.simps) simp
    then show ?thesis using "1.prems" by auto
  qed
qed

section \<open>Emptying the cache\<close>

text \<open>Every buffer of the list may be freed, and no two nodes share one.\<close>

definition buffers_ok :: "'c fm \<Rightarrow> bool" where
  "buffers_ok s \<longleftrightarrow> distinct (map pcn_address (pc_il (fm_pc s)))
     \<and> (\<forall>n \<in> set (pc_il (fm_pc s)). pcn_address n \<noteq> NULL \<and> pcn_address n \<in> mallocd (fm_mach s))"

lemma changeOwnership_mach: "fm_mach (changeOwnership h f ow z s) = fm_mach s"
  by (simp add: changeOwnership_def ph_set_def upd_pc_def log_err_def split: option.split)

lemma popLRU_pc_ok:
  assumes "buffers_ok s" "pc_il (fm_pc s) \<noteq> []"
  obtains k s' where "popLRU_pc s = Some (k, s')" "pc_il (fm_pc s') = butlast (pc_il (fm_pc s))" "buffers_ok s'"
proof -
  let ?xs = "pc_il (fm_pc s)"
  let ?n = "last ?xs"
  have n: "?n \<in> set ?xs" using assms(2) by simp
  have f: "pcn_address ?n \<noteq> NULL" "pcn_address ?n \<in> mallocd (fm_mach s)"
    using assms(1) n by (auto simp: buffers_ok_def)
  define s1 where "s1 = s\<lparr>fm_mach := (fm_mach s)\<lparr>bufs := (bufs (fm_mach s))(pcn_address ?n := None),
     mallocd := mallocd (fm_mach s) - {pcn_address ?n}\<rparr>\<rparr>"
  have s1: "fm_free (pcn_address ?n) s = Some s1" using f by (simp add: fm_free_def c_free_def s1_def)
  let ?s2 = "upd_pc (\<lambda>p. p\<lparr>pc_il := butlast (pc_il p)\<rparr>) s1"
  let ?s' = "changeOwnership (pcn_hashcode ?n) (pcn_fd ?n) OWNERSHIP_EXTERNRAM False ?s2"
  have r: "popLRU_pc s = Some (pcn_hashcode ?n, ?s')" using s1 assms(2) by (simp add: popLRU_pc_def Let_def)
  have il: "pc_il (fm_pc ?s') = butlast ?xs"
    by (simp add: changeOwnership_pc pc_kept s1_def split: option.split)
  have xs: "?xs = butlast ?xs @ [?n]" using assms(2) by simp
  have "distinct (map pcn_address (butlast ?xs) @ [pcn_address ?n])"
    using assms(1) xs unfolding buffers_ok_def by (metis list.map(1) list.map(2) map_append)
  then have d: "distinct (map pcn_address (butlast ?xs))"
    and o: "pcn_address ?n \<notin> pcn_address ` set (butlast ?xs)" by auto
  have ne: "pcn_address x \<noteq> pcn_address ?n" if "x \<in> set (butlast ?xs)" for x
    using o that by (metis imageI)
  have "fm_mach ?s' = fm_mach s1" by (simp add: changeOwnership_mach upd_pc_def)
  then have "buffers_ok ?s'" using assms(1) il d ne
    by (auto simp: buffers_ok_def s1_def dest: in_set_butlastD)
  with that r il show thesis by blast
qed

lemma cleanup_loop_half:
  assumes "buffers_ok s" "length (pc_il (fm_pc s)) < 2 ^ 31"
  shows "\<exists>s'. cleanup_loop (int i) s = Some s'
    \<and> length (pc_il (fm_pc s')) = length (pc_il (fm_pc s)) - (length (pc_il (fm_pc s)) - i + 1) div 2"
  using assms
proof (induction "length (pc_il (fm_pc s)) - i" arbitrary: i s rule: less_induct)
  case less
  let ?n = "length (pc_il (fm_pc s))"
  have sz: "pc_getSize (fm_pc s) = int ?n" using less.prems(2) by (simp add: pc_getSize_def)
  show ?case
  proof (cases "i < ?n")
    case False
    then show ?thesis using sz by (subst cleanup_loop.simps) simp
  next
    case True
    then have "pc_il (fm_pc s) \<noteq> []" by auto
    then obtain k s1 where s1: "popLRU_pc s = Some (k, s1)" "pc_il (fm_pc s1) = butlast (pc_il (fm_pc s))"
      "buffers_ok s1" using popLRU_pc_ok [OF less.prems(1)] by metis
    have len: "length (pc_il (fm_pc s1)) = ?n - 1" using s1(2) by simp
    have "cleanup_loop (int i) s = cleanup_loop (int (Suc i)) s1"
      using sz True s1(1) by (subst cleanup_loop.simps) (simp add: add.commute)
    moreover have "\<exists>s'. cleanup_loop (int (Suc i)) s1 = Some s'
       \<and> length (pc_il (fm_pc s')) = ?n - 1 - (?n - 1 - Suc i + 1) div 2"
      using less.hyps [of s1 "Suc i"] s1(3) len True less.prems(2) by auto
    moreover have "?n - 1 - (?n - 1 - Suc i + 1) div 2 = ?n - (?n - i + 1) div 2"
    proof -
      obtain d where "?n = Suc (i + d)" using True less_imp_Suc_add by blast
      then show ?thesis by (cases d) auto
    qed
    ultimately show ?thesis by metis
  qed
qed

section \<open>An example\<close>

text \<open>A page of the C allocator, and the page cache after it was stored.\<close>

definition buffered_fm :: "noop_client fm" where
  "buffered_fm = sample_fm\<lparr>fm_mach := machine0\<lparr>bufs := [65536 \<mapsto> zero_page], mallocd := {65536}\<rparr>\<rparr>"

definition cached_fm :: "noop_client fm" where
  "cached_fm = buffered_fm\<lparr>fm_pc := (newPageCache 4 10 True)
     \<lparr>pc_il := [\<lparr>pcn_hashcode = 4096, pcn_fd = 7, pcn_address = 65536, pcn_size = 4096\<rparr>],
      pagehash := [((4096, 7), \<lparr>ref_count = 0, ownership = OWNERSHIP_PAGE_CACHE, is_zeropage = False\<rparr>)]\<rparr>\<rparr>"

definition full_cache_fm :: "noop_client fm" where
  "full_cache_fm = sample_fm\<lparr>fm_pc := (newPageCache 4 10 True)
     \<lparr>pc_il := [\<lparr>pcn_hashcode = 8192, pcn_fd = 7, pcn_address = 131072, pcn_size = 4096\<rparr>,
                \<lparr>pcn_hashcode = 4096, pcn_fd = 7, pcn_address = 65536, pcn_size = 4096\<rparr>]\<rparr>,
     fm_mach := machine0\<lparr>mallocd := {65536, 131072}\<rparr>\<rparr>"

lemma buffered_store: "storePageInPageCache 4096 7 65536 4096 buffered_fm = Some cached_fm"
  by (simp add: storePageInPageCache_def buffered_fm_def cached_fm_def ph_find_def newPageCache_def
      insertPageCacheNode_def addPageHashNode_def ph_set_def upd_pc_def pc_insert_def pc_isSizeExceeded_def
      size_of_int_nonneg Let_def)

lemma buffered_reachable: "pc_reachable E buffered_fm"
  by (rule pc_reachable.start [of _ 4 10 True]) (simp add: buffered_fm_def)

lemma cached_reachable: "pc_reachable E cached_fm"
proof (rule pc_reachable.step [OF buffered_reachable])
  show "pc_step E buffered_fm cached_fm"
    by (rule pc_step.store [of "[4096]" 7 1 "[65536]" "[4096]"])
      (simp add: storePagesInPageCache_def buffered_store)
qed

section \<open>Theorems\<close>

text \<open>
  C6. In every state the monitor can reach, the page cache is consistent: no page is in the list
  twice, and a page is in the list exactly when the page hash says that the cache owns it.
\<close>

theorem page_cache_consistent:
  assumes "pc_reachable E s"
  shows "distinct_keys pcn_key (pc_il (fm_pc s))
    \<and> (pc_find (h, f) (pc_il (fm_pc s)) \<noteq> None
         \<longleftrightarrow> (\<exists>pi. ph_find h f s = Some pi \<and> ownership pi = OWNERSHIP_PAGE_CACHE))"
proof -
  have "pc_wf (fm_pc s)" using assms by (rule pc_reachable_wf)
  then show ?thesis using owned_iff_find [of "fm_pc s" "(h, f)"] owned_ph_find [of h f s] by auto
qed

theorem page_cache_consistent_witness:
  "\<exists>pi. ph_find 4096 7 cached_fm = Some pi \<and> ownership pi = OWNERSHIP_PAGE_CACHE"
  using page_cache_consistent [OF cached_reachable, of 4096 7]
  by (simp add: cached_fm_def pc_find_def pcn_key_def)

text \<open>
  C8. A page read ahead is used once and for free: after it was stored, the next read of the page
  returns the stored buffer and length, the page belongs to the application and is gone from the
  cache, and the machine and the clients of the remote store are untouched.
\<close>

theorem store_read_roundtrip:
  assumes "pc_reachable E s" "storePageInPageCache h f b n s = Some s1"
    and "pc_find (h, f) (pc_il (fm_pc s)) = None"
    and "0 < pc_max_num_items (fm_pc s)" "length (pc_il (fm_pc s)) \<le> pc_max_num_items (fm_pc s)"
  shows "\<exists>s2. readPageIfInPageCache E f h buf s1 = Some (n, b, s2)
    \<and> fm_mach s2 = fm_mach s1 \<and> fm_clients s2 = fm_clients s1
    \<and> pc_find (h, f) (pc_il (fm_pc s2)) = None
    \<and> map_option ownership (ph_find h f s2) = Some OWNERSHIP_APPLICATION"
proof -
  let ?node = "\<lparr>pcn_hashcode = h, pcn_fd = f, pcn_address = b, pcn_size = n\<rparr>"
  let ?c = "upd_stats StatsIncrCacheHit (upd_pc (count_access h) s1)"
  have wf: "pc_wf (fm_pc s)" using assms(1) by (rule pc_reachable_wf)
  have wf1: "pc_wf (fm_pc s1)" using storePage_wf(1) [OF assms(2) wf] .
  have fd: "pc_find (h, f) (pc_il (fm_pc s1)) = Some ?node"
    using stored_found [OF assms(2) wf _ assms(4,5)] assms(3) owned_iff_find [OF wf] by simp
  then have "(h, f) \<in> owned_by_cache (fm_pc s1)" using owned_iff_find [OF wf1, of "(h, f)"] by simp
  then obtain pi where pi: "ph_find h f s1 = Some pi" "ownership pi = OWNERSHIP_PAGE_CACHE"
    by (auto simp: owned_ph_find)
  have cc: "cache_of ?c = cache_of s1" by simp
  have fc: "ph_find h f ?c = Some pi" "pc_il (fm_pc ?c) = pc_il (fm_pc s1)"
    using cache_of_find [OF cc] pi cc by (auto simp: cache_of_def)
  let ?s2 = "snd (snd (read_cached f h buf ?c))"
  have "readPageIfInPageCache E f h buf s1 = Some (read_cached f h buf ?c)"
    using pi fc cache_of_find [of "upd_pc (count_access h) s1" s1]
    by (simp add: readPageIfInPageCache_def readPageIfInPageCache_top_def readPageIfInPageCache_bottom_def Let_def)
  moreover have "read_cached f h buf ?c = (n, b, ?s2)" using fd fc by (simp add: read_cached_def Let_def)
  moreover have s2: "?s2 = changeOwnershipWithItr h f OWNERSHIP_APPLICATION False
      (upd_pc (\<lambda>p. p\<lparr>pc_il := pc_erase (h, f) (pc_il p)\<rparr>) ?c)"
    using fd fc by (simp add: read_cached_def Let_def)
  moreover have "pc_find (h, f) (pc_erase (h, f) (pc_il (fm_pc s1))) = None"
    using pcl.lookup_erase [OF pc_wf_distinct [OF wf1]] by simp
  ultimately show ?thesis using fc unfolding s2
    by (auto simp: changeOwnershipWithItr_def ph_set_def ph_find_def upd_pc_def upd_stats_def log_err_def
        count_access_def update_conv' split: option.splits)
qed

theorem store_read_roundtrip_witness:
  "\<exists>s2. readPageIfInPageCache (sample_env cache_config) 7 4096 0 cached_fm = Some (4096, 65536, s2)
    \<and> map_option ownership (ph_find 4096 7 s2) = Some OWNERSHIP_APPLICATION"
  using store_read_roundtrip [OF buffered_reachable buffered_store, of "sample_env cache_config" 0]
  by (auto simp: buffered_fm_def newPageCache_def pc_find_def)

text \<open>
  C9. The prefetch loop stays inside its arrays. Whatever the prefetch size option and however long
  the run of consecutive accesses, it ends, and it collects at most 101 pages and at most as many as
  the option allows, so that the faulting page and the prefetched ones fit the arrays of 200 entries.
\<close>

theorem prefetch_within_arrays:
  assumes "numPrefetch (fm_pc s) = 0" "length (keys_for_mread (fm_pc s)) = MAX_MULTI_READ"
  shows "\<exists>s'. prefetch_loop E h f 1 s = Some s' \<and> 0 \<le> numPrefetch (fm_pc s')
    \<and> numPrefetch (fm_pc s') + 1 < int MAX_MULTI_READ
    \<and> numPrefetch (fm_pc s') \<le> max 1 (prefetch_size (fm_pc s))"
  using prefetch_loop_total [of 1 s E h f] assms by (auto simp: MAX_MULTI_READ_def)

theorem prefetch_within_arrays_witness:
  "\<exists>s'. prefetch_loop (sample_env cache_config) 4096 7 1 sample_fm = Some s'
    \<and> numPrefetch (fm_pc s') + 1 < int MAX_MULTI_READ"
  using prefetch_within_arrays [of sample_fm "sample_env cache_config" 4096 7] by (auto simp: newPageCache_def)

text \<open>
  Cleaning the page cache up empties only half of it: the loop compares its counter with the size
  of the list that shrinks under it, so that of \<open>n\<close> pages the older half goes and \<open>n div 2\<close> stay.
\<close>

lemma pageCacheCleanup_half:
  assumes "buffers_ok s" "length (pc_il (fm_pc s)) < 2 ^ 31"
  shows "\<exists>s'. pageCacheCleanup s = Some s' \<and> length (pc_il (fm_pc s')) = length (pc_il (fm_pc s)) div 2"
proof -
  have "n - (n - 0 + 1) div 2 = n div 2" for n :: nat by presburger
  then show ?thesis using cleanup_loop_half [OF assms, of 0] by (simp add: pageCacheCleanup_def)
qed

lemma pageCacheCleanup_half_witness:
  "\<exists>s'. pageCacheCleanup full_cache_fm = Some s' \<and> length (pc_il (fm_pc s')) = 1"
  using pageCacheCleanup_half [of full_cache_fm] by (simp add: buffers_ok_def full_cache_fm_def)

end
