(* ===== verification/Pollfd_Vector.thy ===== *)
theory Pollfd_Vector
  imports Monitor_Stats "HOL-Library.Multiset"
begin

text \<open>
  \<^verbatim>\<open>monitor/pollfd_vector.c\<close>: the growable array of descriptors the polling thread waits on. The first
  entry is the event descriptor over which new descriptors are announced, the others are the user
  fault descriptors of the applications. The array doubles when it is full, and halves when it is less
  than half full; a removed entry is overwritten by the last one.

  A cell of the array is \<open>None\<close> until it is written, and reading it before that is undefined; the
  empty array stands for the \<^verbatim>\<open>NULL\<close> a failed \<^verbatim>\<open>realloc\<close> leaves behind, and for a freed array. Whether
  the allocator finds the memory is an argument of the operations that allocate. The mutexes of the
  vector are taken by the callers in \<^verbatim>\<open>monitor.c\<close>, not here.
\<close>

section \<open>Data\<close>

record pollfd =
  pfd :: fd
  pevents :: u16
  prevents :: u16

definition POLLIN :: u16 where "POLLIN = 1"
definition POLLERR :: u16 where "POLLERR = 8"

record Pollfd_vector =
  pv_size :: int
  pv_capacity :: int
  reload_addfd :: fd
  pv_list :: "pollfd option list"

definition VECTOR_INITIAL_CAPACITY :: int where
  "VECTOR_INITIAL_CAPACITY = 50"

text \<open>Access to a cell; outside the allocation it is undefined.\<close>

definition cell :: "Pollfd_vector \<Rightarrow> int \<Rightarrow> pollfd option" where
  "cell v i = (if 0 \<le> i \<and> nat i < length (pv_list v) then pv_list v ! nat i else None)"

definition set_cell :: "int \<Rightarrow> pollfd \<Rightarrow> Pollfd_vector \<Rightarrow> Pollfd_vector option" where
  "set_cell i p v =
     (if 0 \<le> i \<and> nat i < length (pv_list v) then Some (v\<lparr>pv_list := (pv_list v)[nat i := Some p]\<rparr>)
      else None)"

definition realloc_cells :: "bool \<Rightarrow> nat \<Rightarrow> pollfd option list \<Rightarrow> pollfd option list" where
  "realloc_cells ok n xs = (if ok then take n xs @ replicate (n - length xs) None else [])"

section \<open>Operations\<close>

text \<open>
  The results of the two \<^verbatim>\<open>pthread_mutex_init\<close> calls are not used: a failure assigns the value the
  variable has already, and the allocation decides.
\<close>

definition pollfd_vector_init ::
  "bool \<Rightarrow> Pollfd_vector \<Rightarrow> MonitorStats \<Rightarrow> int \<times> Pollfd_vector \<times> MonitorStats" where
  "pollfd_vector_init ok v st =
     (if ok then 0 else - 1,
      v\<lparr>pv_size := 0, pv_capacity := VECTOR_INITIAL_CAPACITY,
         pv_list := if ok then replicate (nat VECTOR_INITIAL_CAPACITY) None else []\<rparr>,
      StatsSetNumUFDS 0 st)"

text \<open>The overflow of the signed \<^verbatim>\<open>capacity\<close> is undefined.\<close>

definition pollfd_vector_double :: "bool \<Rightarrow> Pollfd_vector \<Rightarrow> Pollfd_vector option" where
  "pollfd_vector_double ok v =
     (let c = 2 * pv_capacity v in
      if 2 ^ 31 \<le> c then None
      else Some (v\<lparr>pv_capacity := c, pv_list := realloc_cells ok (nat c) (pv_list v)\<rparr>))"

definition pollfd_vector_append ::
  "bool \<Rightarrow> pollfd \<Rightarrow> Pollfd_vector \<Rightarrow> MonitorStats \<Rightarrow> (Pollfd_vector \<times> MonitorStats) option" where
  "pollfd_vector_append ok p v st = do {
     v \<leftarrow> if pv_size v = pv_capacity v then pollfd_vector_double ok v else Some v;
     let v = v\<lparr>pv_size := pv_size v + 1\<rparr>;
     let st = StatsSetNumUFDS (word_of_int (pv_size v - 1)) st;
     v \<leftarrow> set_cell (pv_size v - 1) p v;
     Some (v, st)
   }"

definition pollfd_vector_compact :: "bool \<Rightarrow> Pollfd_vector \<Rightarrow> Pollfd_vector" where
  "pollfd_vector_compact ok v =
     (if VECTOR_INITIAL_CAPACITY < pv_capacity v \<and> pv_size v < pv_capacity v div 2
      then let c = pv_capacity v div 2 in
           v\<lparr>pv_capacity := c, pv_list := realloc_cells ok (nat c) (pv_list v)\<rparr>
      else v)"

text \<open>The search of \<^verbatim>\<open>pollfd_vector_remove\<close>: the first index that holds the descriptor.\<close>

function index_of :: "fd \<Rightarrow> Pollfd_vector \<Rightarrow> int \<Rightarrow> int option option" where
  "index_of f v i =
     (if i < pv_size v
      then do {
        p \<leftarrow> cell v i;
        if pfd p = f then Some (Some i) else index_of f v (i + 1)
      }
      else Some None)"
  by auto
termination by (relation "measure (\<lambda>(f, v, i). nat (pv_size v - i))") auto

declare index_of.simps [simp del]

definition pollfd_vector_remove ::
  "bool \<Rightarrow> fd \<Rightarrow> Pollfd_vector \<Rightarrow> MonitorStats \<Rightarrow> (int \<times> Pollfd_vector \<times> MonitorStats) option" where
  "pollfd_vector_remove ok f v st = do {
     found \<leftarrow> index_of f v 0;
     case found of
       None \<Rightarrow> Some (- 1, v, st)
     | Some i \<Rightarrow> do {
         p \<leftarrow> cell v (pv_size v - 1);
         v \<leftarrow> set_cell i p v;
         let v = v\<lparr>pv_size := pv_size v - 1\<rparr>;
         let st = StatsSetNumUFDS (word_of_int (pv_size v - 1)) st;
         Some (0, pollfd_vector_compact ok v, st)
       }
   }"

text \<open>\<^verbatim>\<open>pollfd_vector_close\<close> as the list of descriptors it passes to \<^verbatim>\<open>close\<close>, in order.\<close>

function pollfd_vector_close_from :: "Pollfd_vector \<Rightarrow> int \<Rightarrow> fd list option" where
  "pollfd_vector_close_from v i =
     (if i < pv_size v
      then do {
        p \<leftarrow> cell v i;
        fs \<leftarrow> pollfd_vector_close_from v (i + 1);
        Some (pfd p # fs)
      }
      else Some [])"
  by auto
termination by (relation "measure (\<lambda>(v, i). nat (pv_size v - i))") auto

declare pollfd_vector_close_from.simps [simp del]

definition pollfd_vector_close :: "Pollfd_vector \<Rightarrow> fd list option" where
  "pollfd_vector_close v = pollfd_vector_close_from v 0"

definition pollfd_vector_free :: "Pollfd_vector \<Rightarrow> Pollfd_vector" where
  "pollfd_vector_free v = v\<lparr>pv_list := []\<rparr>"

definition add_fd ::
  "bool \<Rightarrow> fd \<Rightarrow> Pollfd_vector \<Rightarrow> MonitorStats \<Rightarrow> (Pollfd_vector \<times> MonitorStats) option" where
  "add_fd ok f v st = pollfd_vector_append ok \<lparr>pfd = f, pevents = POLLIN, prevents = 0\<rparr> v st"

definition del_fd ::
  "bool \<Rightarrow> fd \<Rightarrow> Pollfd_vector \<Rightarrow> MonitorStats \<Rightarrow> (int \<times> Pollfd_vector \<times> MonitorStats) option" where
  "del_fd ok f v st = do {
     (r, v, st) \<leftarrow> pollfd_vector_remove ok f v st;
     Some (if r = 0 then 0 else - 1, v, st)
   }"

text \<open>
  \<^verbatim>\<open>init_poll_list\<close> of \<^verbatim>\<open>monitor.c\<close>: the result of \<^verbatim>\<open>eventfd\<close> is an argument, \<open>- 1\<close> is its failure.
\<close>

definition init_poll_list ::
  "bool \<Rightarrow> fd \<Rightarrow> Pollfd_vector \<Rightarrow> MonitorStats \<Rightarrow> (int \<times> Pollfd_vector \<times> MonitorStats) option" where
  "init_poll_list ok efd v st =
     (case pollfd_vector_init ok v st of
        (r, v, st) \<Rightarrow>
          if r < 0 then Some (- 1, v, st)
          else let v = v\<lparr>reload_addfd := efd\<rparr> in
            if reload_addfd v = - 1 then Some (- 1, v, st)
            else do {
              (v, st) \<leftarrow> pollfd_vector_append ok
                 \<lparr>pfd = reload_addfd v, pevents = POLLIN, prevents = 0\<rparr> v st;
              Some (0, v, st)
            })"

section \<open>The contract\<close>

text \<open>
  What the monitor relies on: the vector is a sequence of entries; appending puts an entry at the
  end, and removing overwrites the first match with the last entry.
\<close>

fun swap_remove :: "fd \<Rightarrow> pollfd list \<Rightarrow> pollfd list" where
  "swap_remove f [] = []"
| "swap_remove f (p # ps) =
     (if pfd p = f then (if ps = [] then [] else last ps # butlast ps) else p # swap_remove f ps)"

lemma mset_last_butlast:
  "ps \<noteq> [] \<Longrightarrow> add_mset (pfd (last ps)) (image_mset pfd (mset (butlast ps))) = image_mset pfd (mset ps)"
  by (cases ps rule: rev_cases) auto

lemma swap_remove_mset:
  "image_mset pfd (mset (swap_remove f ps)) = image_mset pfd (mset ps) - {#f#}"
  by (induction ps) (auto simp: mset_last_butlast intro: diff_union_swap)

lemma swap_remove_length:
  "length (swap_remove f ps) = (if f \<in> pfd ` set ps then length ps - 1 else length ps)"
  by (induction ps) (auto simp: Suc_leI length_pos_if_in_set)

lemma swap_remove_absent [simp]: "f \<notin> pfd ` set ps \<Longrightarrow> swap_remove f ps = ps"
  by (induction ps) auto

lemma swap_remove_hd: "ps \<noteq> [] \<Longrightarrow> pfd (hd ps) \<noteq> f \<Longrightarrow> hd (swap_remove f ps) = hd ps \<and> swap_remove f ps \<noteq> []"
  by (cases ps) auto

locale poll_vector =
  fixes wf :: "'v \<Rightarrow> bool" and entries :: "'v \<Rightarrow> pollfd list"
    and append :: "pollfd \<Rightarrow> 'v \<Rightarrow> 'v option" and remove :: "fd \<Rightarrow> 'v \<Rightarrow> (int \<times> 'v) option"
    and room :: nat
  assumes append_entries:
    "wf v \<Longrightarrow> length (entries v) < room \<Longrightarrow>
       \<exists>v'. append p v = Some v' \<and> wf v' \<and> entries v' = entries v @ [p]"
    and remove_entries:
    "wf v \<Longrightarrow> \<exists>v'. remove f v = Some (if f \<in> pfd ` set (entries v) then 0 else - 1, v') \<and> wf v'
       \<and> entries v' = swap_remove f (entries v)"
begin

lemma watched_append:
  assumes "wf v" "length (entries v) < room"
  shows "\<exists>v'. append p v = Some v' \<and> wf v' \<and> length (entries v') = Suc (length (entries v))
    \<and> image_mset pfd (mset (entries v')) = image_mset pfd (mset (entries v)) + {#pfd p#}
    \<and> (entries v \<noteq> [] \<longrightarrow> hd (entries v') = hd (entries v))"
  using append_entries [OF assms, of p] by auto

lemma watched_remove:
  assumes "wf v" "entries v \<noteq> []" "pfd (hd (entries v)) \<noteq> f"
  shows "\<exists>r v'. remove f v = Some (r, v') \<and> wf v' \<and> length (entries v') \<le> length (entries v)
    \<and> image_mset pfd (mset (entries v')) = image_mset pfd (mset (entries v)) - {#f#}
    \<and> entries v' \<noteq> [] \<and> hd (entries v') = hd (entries v)"
  using remove_entries [OF assms(1), of f] swap_remove_hd [OF assms(2,3)]
    swap_remove_mset [of f "entries v"] swap_remove_length [of f "entries v"] by force

end

section \<open>The array implements the contract\<close>

text \<open>The entries in use, and the invariant of the array.\<close>

definition entries_of :: "Pollfd_vector \<Rightarrow> pollfd list" where
  "entries_of v = map the (take (nat (pv_size v)) (pv_list v))"

definition doubled :: "int \<Rightarrow> bool" where
  "doubled c \<longleftrightarrow> (\<exists>k. c = VECTOR_INITIAL_CAPACITY * 2 ^ k)"

lemma doubled_double: "doubled c \<Longrightarrow> doubled (2 * c)"
  unfolding doubled_def by (metis mult.left_commute power_Suc)

lemma doubled_half:
  assumes "doubled c" "c \<noteq> 50"
  shows "doubled (c div 2) \<and> c = 2 * (c div 2)"
proof -
  obtain k where "c = 50 * 2 ^ k" using assms(1) by (auto simp: doubled_def VECTOR_INITIAL_CAPACITY_def)
  with assms(2) obtain j where "c = 2 * (50 * 2 ^ j)" by (cases k) auto
  then show ?thesis by (auto simp: doubled_def VECTOR_INITIAL_CAPACITY_def)
qed

lemma doubled_ge: "doubled c \<Longrightarrow> 50 \<le> c"
  by (auto simp: doubled_def VECTOR_INITIAL_CAPACITY_def)

definition pv_wf :: "Pollfd_vector \<Rightarrow> bool" where
  "pv_wf v \<longleftrightarrow> 0 \<le> pv_size v \<and> pv_size v \<le> pv_capacity v \<and> length (pv_list v) = nat (pv_capacity v)
     \<and> pv_capacity v < 2 ^ 31
     \<and> take (nat (pv_size v)) (pv_list v) = map Some (entries_of v)
     \<and> doubled (pv_capacity v)
     \<and> (pv_capacity v = VECTOR_INITIAL_CAPACITY \<or> pv_capacity v \<le> 2 * pv_size v)"

lemma pv_wfD:
  assumes "pv_wf v"
  shows "0 \<le> pv_size v" "pv_size v \<le> pv_capacity v" "length (pv_list v) = nat (pv_capacity v)"
    "length (entries_of v) = nat (pv_size v)" "50 \<le> pv_capacity v" "pv_capacity v < 2 ^ 31"
    "pv_capacity v = 50 \<or> pv_capacity v \<le> 2 * pv_size v" "doubled (pv_capacity v)"
  using assms by (auto simp: pv_wf_def entries_of_def VECTOR_INITIAL_CAPACITY_def doubled_ge)

lemma cell_entries:
  assumes "pv_wf v" "0 \<le> i" "i < pv_size v"
  shows "cell v i = Some (entries_of v ! nat i)"
proof -
  have "pv_list v ! nat i = take (nat (pv_size v)) (pv_list v) ! nat i" using assms by simp
  also have "\<dots> = Some (entries_of v ! nat i)"
    using assms pv_wfD(4) [OF assms(1)] by (simp add: pv_wf_def)
  finally show ?thesis using assms pv_wfD [OF assms(1)] by (simp add: cell_def)
qed

lemma pv_wfI:
  assumes "pv_list v = map Some ps @ rest" "int (length ps) = pv_size v"
    "int (length ps + length rest) = pv_capacity v" "pv_capacity v < 2 ^ 31"
    "doubled (pv_capacity v)" "pv_capacity v = 50 \<or> pv_capacity v \<le> 2 * pv_size v"
  shows "pv_wf v" "entries_of v = ps"
proof -
  have "nat (pv_size v) = length ps" using assms(2) by simp
  then show e: "entries_of v = ps" using assms(1) by (simp add: entries_of_def comp_def)
  show "pv_wf v"
    using assms \<open>nat (pv_size v) = length ps\<close> unfolding pv_wf_def e VECTOR_INITIAL_CAPACITY_def by auto
qed

lemma pv_wf_cells:
  assumes "pv_wf v"
  obtains rest where "pv_list v = map Some (entries_of v) @ rest"
    "length rest = nat (pv_capacity v - pv_size v)"
proof -
  have "pv_list v = map Some (entries_of v) @ drop (nat (pv_size v)) (pv_list v)"
    using assms append_take_drop_id [of "nat (pv_size v)" "pv_list v"] by (simp add: pv_wf_def)
  then show thesis using that pv_wfD [OF assms] by (simp add: nat_diff_distrib)
qed

lemma set_cell_end:
  assumes "pv_list v = map Some ps @ r # rest" "i = int (length ps)"
  shows "set_cell i p v = Some (v\<lparr>pv_list := map Some (ps @ [p]) @ rest\<rparr>)"
  using assms by (simp add: set_cell_def list_update_append)

lemma append_behaviour:
  assumes "pv_wf v" "length (entries_of v) < 2 ^ 30"
  shows "\<exists>v'. pollfd_vector_append True p v st
      = Some (v', StatsSetNumUFDS (word_of_nat (length (entries_of v))) st)
    \<and> pv_wf v' \<and> entries_of v' = entries_of v @ [p] \<and> reload_addfd v' = reload_addfd v"
proof -
  note wf = pv_wfD [OF assms(1)]
  obtain rest where rest: "pv_list v = map Some (entries_of v) @ rest"
    "length rest = nat (pv_capacity v - pv_size v)" using pv_wf_cells [OF assms(1)] .
  have st: "word_of_int (pv_size v) = (word_of_nat (length (entries_of v)) :: u64)"
    using wf(1,4) by (simp add: of_nat_nat)
  show ?thesis
  proof (cases "pv_size v = pv_capacity v")
    case True
    let ?c = "nat (pv_capacity v)"
    let ?v = "v\<lparr>pv_capacity := 2 * pv_capacity v, pv_list := map Some (entries_of v) @ replicate ?c None\<rparr>"
    let ?v' = "?v\<lparr>pv_size := pv_size v + 1,
        pv_list := map Some (entries_of v @ [p]) @ replicate (?c - 1) None\<rparr>"
    have d: "pollfd_vector_double True v = Some ?v"
      using True rest wf assms(2)
      by (simp add: pollfd_vector_double_def realloc_cells_def Let_def nat_mult_distrib)
    have "replicate ?c (None :: pollfd option) = None # replicate (?c - 1) None"
      using wf by (cases ?c) auto
    then have "set_cell (pv_size v) p (?v\<lparr>pv_size := pv_size v + 1\<rparr>) = Some ?v'"
      using wf by (subst set_cell_end [where ps = "entries_of v"]) auto
    moreover have "pv_wf ?v'" "entries_of ?v' = entries_of v @ [p]"
      using True wf assms(2) doubled_double [OF wf(8)]
      by (auto intro!: pv_wfI [where ps = "entries_of v @ [p]" and rest = "replicate (?c - 1) None"])
    ultimately show ?thesis using True d st by (simp add: pollfd_vector_append_def)
  next
    case False
    then obtain r rs where r: "rest = r # rs" using rest(2) wf by (cases rest) auto
    let ?v' = "v\<lparr>pv_size := pv_size v + 1, pv_list := map Some (entries_of v @ [p]) @ rs\<rparr>"
    have "set_cell (pv_size v) p (v\<lparr>pv_size := pv_size v + 1\<rparr>) = Some ?v'"
      using wf rest r by (subst set_cell_end [where ps = "entries_of v"]) auto
    moreover have "pv_wf ?v'" "entries_of ?v' = entries_of v @ [p]"
      using False wf rest r by (auto intro!: pv_wfI [where ps = "entries_of v @ [p]" and rest = rs])
    ultimately show ?thesis using False st by (simp add: pollfd_vector_append_def)
  qed
qed

text \<open>The search returns the first match.\<close>

lemma index_of_spec:
  assumes "pv_wf v" "0 \<le> i" "i \<le> pv_size v" "\<forall>k<nat i. pfd (entries_of v ! k) \<noteq> f"
  shows "(index_of f v i = Some None \<and> f \<notin> pfd ` set (entries_of v))
    \<or> (\<exists>j<length (entries_of v). index_of f v i = Some (Some (int j)) \<and> pfd (entries_of v ! j) = f
         \<and> (\<forall>k<j. pfd (entries_of v ! k) \<noteq> f))"
  using assms
proof (induction f v i rule: index_of.induct)
  case (1 f v i)
  note wf = pv_wfD [OF 1(2)]
  show ?case
  proof (cases "i < pv_size v")
    case True
    then have c: "cell v i = Some (entries_of v ! nat i)" using cell_entries 1 by blast
    show ?thesis
    proof (cases "pfd (entries_of v ! nat i) = f")
      case True
      then have "index_of f v i = Some (Some i)" using \<open>i < pv_size v\<close> c by (simp add: index_of.simps)
      then show ?thesis using True \<open>i < pv_size v\<close> 1 wf by (intro disjI2 exI [of _ "nat i"]) auto
    next
      case False
      then have "index_of f v i = index_of f v (i + 1)"
        using \<open>i < pv_size v\<close> c by (subst index_of.simps) simp
      moreover have "\<forall>k<nat (i + 1). pfd (entries_of v ! k) \<noteq> f"
        using False 1(5) \<open>0 \<le> i\<close> by (simp add: nat_add_distrib less_Suc_eq all_conj_distrib imp_conjL)
      ultimately show ?thesis using 1(1) [OF \<open>i < pv_size v\<close> c False 1(2)] 1(3) \<open>i < pv_size v\<close> by simp
    qed
  next
    case False
    then have "nat i = length (entries_of v)" using 1 wf by simp
    then have "f \<notin> pfd ` set (entries_of v)" using 1(5) by (auto simp: in_set_conv_nth)
    then show ?thesis using False by (simp add: index_of.simps)
  qed
qed

lemma swap_remove_index:
  assumes "j < length ps" "pfd (ps ! j) = f" "\<forall>k<j. pfd (ps ! k) \<noteq> f"
  shows "swap_remove f ps = butlast (ps[j := last ps])"
  using assms
proof (induction ps arbitrary: j)
  case (Cons p ps)
  show ?case
  proof (cases j)
    case 0
    then show ?thesis using Cons.prems by simp
  next
    case (Suc i)
    have "pfd p \<noteq> f" using Cons.prems(3) Suc by force
    moreover have "swap_remove f ps = butlast (ps[i := last ps])"
      using Cons.prems Suc by (intro Cons.IH) auto
    moreover have "ps \<noteq> []" using Cons.prems Suc by auto
    ultimately show ?thesis using Suc by simp
  qed
qed simp

lemma compact_wf:
  assumes "pv_list v = map Some ps @ rest" "int (length ps) = pv_size v"
    "int (length ps + length rest) = pv_capacity v" "pv_capacity v < 2 ^ 31" "doubled (pv_capacity v)"
    "pv_capacity v = 50 \<or> pv_capacity v \<le> 2 * (pv_size v + 1)"
  shows "pv_wf (pollfd_vector_compact True v) \<and> entries_of (pollfd_vector_compact True v) = ps
    \<and> reload_addfd (pollfd_vector_compact True v) = reload_addfd v"
proof (cases "50 < pv_capacity v \<and> pv_size v < pv_capacity v div 2")
  case True
  let ?c = "pv_capacity v div 2"
  let ?v = "v\<lparr>pv_capacity := ?c, pv_list := map Some ps @ take (nat ?c - length ps) rest\<rparr>"
  have h: "doubled ?c" "pv_capacity v = 2 * ?c" using doubled_half [OF assms(5)] True by auto
  have "length ps \<le> nat ?c" using True assms(2) by linarith
  then have t: "take (nat ?c) (map Some ps) = map Some ps" by simp
  then have "pollfd_vector_compact True v = ?v"
    using True assms by (simp add: pollfd_vector_compact_def VECTOR_INITIAL_CAPACITY_def realloc_cells_def Let_def)
  moreover have "pv_wf ?v" "entries_of ?v = ps"
    using True assms h doubled_ge [OF h(1)]
    by (auto intro!: pv_wfI [where ps = ps and rest = "take (nat ?c - length ps) rest"] simp: min_def)
  ultimately show ?thesis by simp
next
  case False
  then have "pollfd_vector_compact True v = v"
    by (auto simp: pollfd_vector_compact_def VECTOR_INITIAL_CAPACITY_def)
  moreover have "pv_capacity v = 50 \<or> pv_capacity v \<le> 2 * pv_size v"
    using False doubled_ge [OF assms(5)] doubled_half [OF assms(5)] by linarith
  ultimately show ?thesis using pv_wfI [OF assms(1-5)] by simp
qed

lemma remove_behaviour:
  assumes "pv_wf v"
  shows "\<exists>v'. pollfd_vector_remove True f v st
      = Some (if f \<in> pfd ` set (entries_of v) then 0 else - 1, v',
          if f \<in> pfd ` set (entries_of v)
          then StatsSetNumUFDS (word_of_int (int (length (entries_of v)) - 2)) st else st)
    \<and> pv_wf v' \<and> entries_of v' = swap_remove f (entries_of v) \<and> reload_addfd v' = reload_addfd v"
proof -
  note wf = pv_wfD [OF assms]
  let ?es = "entries_of v"
  consider (none) "index_of f v 0 = Some None" "f \<notin> pfd ` set ?es"
    | (found) j where "j < length ?es" "index_of f v 0 = Some (Some (int j))" "pfd (?es ! j) = f"
      "\<forall>k<j. pfd (?es ! k) \<noteq> f"
    using index_of_spec [OF assms, of 0 f] wf(1) by auto
  then show ?thesis
  proof cases
    case none
    then show ?thesis using assms by (simp add: pollfd_vector_remove_def)
  next
    case (found j)
    obtain rest where rest: "pv_list v = map Some ?es @ rest"
      "length rest = nat (pv_capacity v - pv_size v)" using pv_wf_cells [OF assms] .
    let ?us = "?es[j := last ?es]"
    let ?v = "v\<lparr>pv_list := map Some (butlast ?us) @ Some (last ?us) # rest, pv_size := pv_size v - 1\<rparr>"
    have ne: "?es \<noteq> []" "?us \<noteq> []" using found(1) by auto
    have pos: "0 < pv_size v" using found(1) wf(4) by simp
    then have len: "int (length (butlast ?us)) = pv_size v - 1" using wf(4) by (simp add: of_nat_diff)
    have "cell v (pv_size v - 1) = Some (last ?es)"
      using cell_entries [OF assms, of "pv_size v - 1"] ne wf pos by (simp add: last_conv_nth nat_diff_distrib)
    moreover have "map Some ?us @ rest = map Some (butlast ?us) @ Some (last ?us) # rest"
      using append_butlast_last_id [OF ne(2)] by (metis append.assoc append_Cons append_Nil list.simps(8,9) map_append)
    then have "set_cell (int j) (last ?es) v = Some (v\<lparr>pv_list := map Some (butlast ?us) @ Some (last ?us) # rest\<rparr>)"
      using found(1) rest(1) by (simp add: set_cell_def list_update_append map_update)
    ultimately have "pollfd_vector_remove True f v st
      = Some (0, pollfd_vector_compact True ?v, StatsSetNumUFDS (word_of_int (int (length ?es) - 2)) st)"
      using found(2) wf by (simp add: pollfd_vector_remove_def)
    moreover have "pv_wf (pollfd_vector_compact True ?v)
      \<and> entries_of (pollfd_vector_compact True ?v) = butlast ?us
      \<and> reload_addfd (pollfd_vector_compact True ?v) = reload_addfd v"
      using wf(2,6-8) rest(2) len compact_wf [of ?v "butlast ?us" "Some (last ?us) # rest"] by fastforce
    moreover have "f \<in> pfd ` set ?es" using found(1,3) by force
    ultimately show ?thesis using swap_remove_index [OF found(1,3,4)] by simp
  qed
qed

text \<open>
  The vector together with the statistics, as the monitor's globals hold them; the gauge counts the
  entries without the first one.
\<close>

definition pvs_wf :: "Pollfd_vector \<times> MonitorStats \<Rightarrow> bool" where
  "pvs_wf = (\<lambda>(v, st). pv_wf v \<and> registered_UFD_count st = pv_size v - 1 \<and> pv_size v < 2 ^ 31)"

definition pvs_append :: "pollfd \<Rightarrow> Pollfd_vector \<times> MonitorStats \<Rightarrow> (Pollfd_vector \<times> MonitorStats) option" where
  "pvs_append p = (\<lambda>(v, st). pollfd_vector_append True p v st)"

definition pvs_remove ::
  "fd \<Rightarrow> Pollfd_vector \<times> MonitorStats \<Rightarrow> (int \<times> Pollfd_vector \<times> MonitorStats) option" where
  "pvs_remove f = (\<lambda>(v, st). pollfd_vector_remove True f v st)"

lemma registered_set:
  assumes "- 1 \<le> i" "i < 2 ^ 31"
  shows "registered_UFD_count (StatsSetNumUFDS (word_of_int i) st) = i"
proof -
  have "signed_take_bit 31 i = i" using assms by (intro signed_take_bit_int_eq_self) auto
  moreover have "(ucast (word_of_int i :: u64) :: u32) = word_of_int i" by (auto simp: bit_eq_iff bit_simps)
  ultimately show ?thesis by (simp add: StatsSetNumUFDS_def signed_of_int)
qed

lemma pv_wf_size: "pv_wf v \<Longrightarrow> pv_size v = int (length (entries_of v)) \<and> pv_size v < 2 ^ 31"
  using pv_wfD [of v] by simp

interpretation pv: poll_vector pvs_wf "entries_of \<circ> fst" pvs_append pvs_remove "2 ^ 30"
proof
  fix v :: "Pollfd_vector \<times> MonitorStats" and p
  assume v: "pvs_wf v" "length ((entries_of \<circ> fst) v) < 2 ^ 30"
  obtain u st where u: "v = (u, st)" by force
  obtain u' where u': "pollfd_vector_append True p u st
      = Some (u', StatsSetNumUFDS (word_of_nat (length (entries_of u))) st)"
    "pv_wf u'" "entries_of u' = entries_of u @ [p]"
    using append_behaviour [of u p st] v u by (auto simp: pvs_wf_def)
  then show "\<exists>v'. pvs_append p v = Some v' \<and> pvs_wf v' \<and> (entries_of \<circ> fst) v' = (entries_of \<circ> fst) v @ [p]"
    using u v pv_wf_size [OF u'(2)] registered_set [of "int (length (entries_of u))" st]
    by (simp add: pvs_append_def pvs_wf_def)
next
  fix v :: "Pollfd_vector \<times> MonitorStats" and f
  assume v: "pvs_wf v"
  obtain u st where u: "v = (u, st)" by force
  let ?st = "StatsSetNumUFDS (word_of_int (int (length (entries_of u)) - 2)) st"
  let ?in = "f \<in> pfd ` set (entries_of u)"
  obtain u' where u': "pollfd_vector_remove True f u st = Some (if ?in then 0 else - 1, u', if ?in then ?st else st)"
    "pv_wf u'" "entries_of u' = swap_remove f (entries_of u)"
    using remove_behaviour [of u f st] v u by (auto simp: pvs_wf_def)
  have "?in \<Longrightarrow> 1 \<le> length (entries_of u)" by (cases "entries_of u") auto
  then have "pvs_wf (u', if ?in then ?st else st)"
    using u v u' pv_wf_size [OF u'(2)] pv_wf_size [of u] swap_remove_length [of f "entries_of u"]
      registered_set [of "int (length (entries_of u)) - 2" st]
    by (auto simp: pvs_wf_def of_nat_diff)
  then show "\<exists>v'. pvs_remove f v = Some (if f \<in> pfd ` set ((entries_of \<circ> fst) v) then 0 else - 1, v')
      \<and> pvs_wf v' \<and> (entries_of \<circ> fst) v' = swap_remove f ((entries_of \<circ> fst) v)"
    using u u' by (simp add: pvs_remove_def)
qed

section \<open>Sequences of operations\<close>

datatype pv_op = Add fd | Del fd

text \<open>The vector, and the multiset of descriptors it stands for.\<close>

fun pv_exec :: "pv_op list \<Rightarrow> Pollfd_vector \<times> MonitorStats \<Rightarrow> (Pollfd_vector \<times> MonitorStats) option" where
  "pv_exec [] (v, st) = Some (v, st)"
| "pv_exec (Add f # ops) (v, st) = do { (v, st) \<leftarrow> add_fd True f v st; pv_exec ops (v, st) }"
| "pv_exec (Del f # ops) (v, st) = do { (r, v, st) \<leftarrow> del_fd True f v st; pv_exec ops (v, st) }"

fun watch_exec :: "pv_op list \<Rightarrow> fd multiset \<Rightarrow> fd multiset" where
  "watch_exec [] m = m"
| "watch_exec (Add f # ops) m = watch_exec ops (m + {#f#})"
| "watch_exec (Del f # ops) m = watch_exec ops (m - {#f#})"

definition watched :: "Pollfd_vector \<Rightarrow> fd multiset" where
  "watched v = image_mset pfd (mset (entries_of v))"

lemma size_watched: "size (watched v) = length (entries_of v)"
  by (simp add: watched_def)

lemma pv_exec_refines:
  assumes "pvs_wf (v, st)" "entries_of v \<noteq> []" "Del (pfd (hd (entries_of v))) \<notin> set ops"
    "length (entries_of v) + length ops \<le> 2 ^ 30"
  shows "\<exists>v' st'. pv_exec ops (v, st) = Some (v', st') \<and> pvs_wf (v', st')
    \<and> watched v' = watch_exec ops (watched v)
    \<and> entries_of v' \<noteq> [] \<and> hd (entries_of v') = hd (entries_of v)"
  using assms
proof (induction ops arbitrary: v st)
  case (Cons op ops)
  show ?case
  proof (cases op)
    case (Add f)
    have "length (entries_of v) < 2 ^ 30" using Cons.prems(4) by simp
    then obtain v' st' where "add_fd True f v st = Some (v', st')" "pvs_wf (v', st')"
      "length (entries_of v') = Suc (length (entries_of v))" "watched v' = watched v + {#f#}"
      "hd (entries_of v') = hd (entries_of v)"
      using pv.watched_append [OF Cons.prems(1), of "\<lparr>pfd = f, pevents = POLLIN, prevents = 0\<rparr>"] Cons.prems(2)
      by (auto simp: pvs_append_def add_fd_def watched_def)
    then show ?thesis using Cons.IH [of v' st'] Cons.prems Add by force
  next
    case (Del f)
    then have "pfd (hd (entries_of v)) \<noteq> f" using Cons.prems(3) by auto
    then obtain r v' st' where "pollfd_vector_remove True f v st = Some (r, v', st')" "pvs_wf (v', st')"
      "length (entries_of v') \<le> length (entries_of v)" "watched v' = watched v - {#f#}"
      "entries_of v' \<noteq> []" "hd (entries_of v') = hd (entries_of v)"
      using pv.watched_remove [OF Cons.prems(1), of f] Cons.prems(2)
      by (auto simp: pvs_remove_def watched_def)
    then show ?thesis using Cons.IH [of v' st'] Cons.prems Del by (simp add: del_fd_def)
  qed
qed auto

lemma init_poll_list_behaviour:
  assumes "e \<noteq> - 1"
  shows "\<exists>v' st'. init_poll_list True e v st = Some (0, v', st') \<and> pvs_wf (v', st')
    \<and> entries_of v' = [\<lparr>pfd = e, pevents = POLLIN, prevents = 0\<rparr>] \<and> reload_addfd v' = e"
proof -
  let ?v = "v\<lparr>pv_size := 0, pv_capacity := 50, pv_list := replicate 50 None, reload_addfd := e\<rparr>"
  have "doubled 50" unfolding doubled_def VECTOR_INITIAL_CAPACITY_def by (intro exI [of _ 0]) simp
  then have v: "pv_wf ?v" "entries_of ?v = []"
    by (auto intro!: pv_wfI [where ps = "[]" and rest = "replicate 50 None"])
  have "pvs_wf (v', StatsSetNumUFDS 0 st')" if "pv_wf v'" "entries_of v' = [x]" for v' st' x
    using that pv_wf_size [of v'] registered_set [of 0 st'] by (simp add: pvs_wf_def)
  then show ?thesis
    using append_behaviour [OF v(1), of "\<lparr>pfd = e, pevents = POLLIN, prevents = 0\<rparr>" "StatsSetNumUFDS 0 st"]
      v assms
    by (auto simp: init_poll_list_def pollfd_vector_init_def VECTOR_INITIAL_CAPACITY_def Let_def)
qed

lemma close_from:
  assumes "pv_wf v" "0 \<le> i" "i \<le> pv_size v"
  shows "pollfd_vector_close_from v i = Some (map pfd (drop (nat i) (entries_of v)))"
  using assms
proof (induction v i rule: pollfd_vector_close_from.induct)
  case (1 v i)
  note wf = pv_wfD [OF 1(2)]
  show ?case
  proof (cases "i < pv_size v")
    case True
    then have c: "cell v i = Some (entries_of v ! nat i)" using cell_entries 1 by blast
    have "drop (nat i) (entries_of v) = entries_of v ! nat i # drop (nat (i + 1)) (entries_of v)"
      using True 1 wf by (simp add: nat_add_distrib Cons_nth_drop_Suc)
    then show ?thesis using True c 1(1) [OF True c 1(2)] 1(3)
      by (subst pollfd_vector_close_from.simps) simp
  next
    case False
    then show ?thesis using 1 wf by (subst pollfd_vector_close_from.simps) simp
  qed
qed

lemma close_watched:
  assumes "pv_wf v"
  shows "\<exists>fs. pollfd_vector_close v = Some fs \<and> mset fs = watched v"
  using close_from [OF assms, of 0] pv_wfD(1) [OF assms] by (simp add: pollfd_vector_close_def watched_def)

lemma init_exec:
  assumes "init_poll_list True e v st = Some (0, v0, st0)" "e \<noteq> - 1" "Del e \<notin> set ops" "length ops < 2 ^ 30"
  shows "\<exists>v' st'. pv_exec ops (v0, st0) = Some (v', st') \<and> pvs_wf (v', st')
    \<and> watched v' = watch_exec ops {#e#} \<and> map_option pfd (cell v' 0) = Some e"
proof -
  obtain v1 st1 where i: "init_poll_list True e v st = Some (0, v1, st1)" "pvs_wf (v1, st1)"
    "entries_of v1 = [\<lparr>pfd = e, pevents = POLLIN, prevents = 0\<rparr>]"
    using init_poll_list_behaviour [OF assms(2), of v st] by blast
  then have v0: "v1 = v0" "st1 = st0" using assms(1) by auto
  have w: "watched v0 = {#e#}" using i v0 by (simp add: watched_def)
  obtain v' st' where r: "pv_exec ops (v0, st0) = Some (v', st')" "pvs_wf (v', st')"
      "watched v' = watch_exec ops (watched v0)" "entries_of v' \<noteq> []" "hd (entries_of v') = hd (entries_of v0)"
    using pv_exec_refines [of v0 st0 ops] i assms(3,4) v0 by auto
  moreover have "cell v' 0 = Some (hd (entries_of v'))"
    using cell_entries [of v' 0] r pv_wf_size [of v'] by (auto simp: pvs_wf_def hd_conv_nth)
  ultimately show ?thesis using i v0 w by auto
qed

section \<open>Theorems\<close>

text \<open>
  C14. The polling list implements a multiset of descriptors. After \<^verbatim>\<open>init_poll_list\<close>, every sequence of
  \<^verbatim>\<open>add_fd\<close> and \<^verbatim>\<open>del_fd\<close> calls that spares the reload descriptor completes, the list then holds
  exactly the descriptors added and not removed, the reload descriptor is still at index 0, the gauge
  counts the others, and \<^verbatim>\<open>pollfd_vector_close\<close> closes each of them once.
\<close>

theorem pollfd_vector_refines:
  assumes "init_poll_list True e v st = Some (0, v0, st0)" "e \<noteq> - 1" "Del e \<notin> set ops" "length ops < 2 ^ 30"
  shows "\<exists>v' st'. pv_exec ops (v0, st0) = Some (v', st')
    \<and> watched v' = watch_exec ops {#e#} \<and> map_option pfd (cell v' 0) = Some e
    \<and> registered_UFD_count st' = int (size (watched v')) - 1
    \<and> (\<exists>fs. pollfd_vector_close v' = Some fs \<and> mset fs = watched v')"
proof -
  obtain v' st' where r: "pv_exec ops (v0, st0) = Some (v', st')" "pvs_wf (v', st')"
    "watched v' = watch_exec ops {#e#}" "map_option pfd (cell v' 0) = Some e"
    using init_exec [OF assms] by blast
  have "registered_UFD_count st' = int (size (watched v')) - 1"
    using r(2) pv_wf_size [of v'] by (simp add: pvs_wf_def size_watched)
  then show ?thesis using r close_watched [of v'] by (auto simp: pvs_wf_def)
qed

definition unset_vector :: Pollfd_vector where
  "unset_vector = \<lparr>pv_size = 0, pv_capacity = 0, reload_addfd = 0, pv_list = []\<rparr>"

theorem pollfd_vector_refines_witness:
  "\<exists>v0 st0 v' st'. init_poll_list True 3 unset_vector stats0 = Some (0, v0, st0)
    \<and> pv_exec [Add 7, Add 9, Del 7, Del 8] (v0, st0) = Some (v', st') \<and> watched v' = {#3, 9#}"
proof -
  obtain v0 st0 where i: "init_poll_list True 3 unset_vector stats0 = Some (0, v0, st0)"
    using init_poll_list_behaviour [of 3 unset_vector stats0] by auto
  show ?thesis
    using pollfd_vector_refines [OF i, of "[Add 7, Add 9, Del 7, Del 8]"] i by (auto simp: add_mset_commute)
qed

text \<open>
  C35. The array follows the number of descriptors: whatever was added and removed before, it has room
  for the entries in use and never more than twice as many cells as entries or fifty, and its
  capacity is fifty doubled a number of times.
\<close>

theorem pollfd_vector_capacity:
  assumes "init_poll_list True e v st = Some (0, v0, st0)" "e \<noteq> - 1" "Del e \<notin> set ops" "length ops < 2 ^ 30"
    and "pv_exec ops (v0, st0) = Some (v', st')"
  shows "pv_size v' \<le> pv_capacity v' \<and> int (length (pv_list v')) = pv_capacity v'
    \<and> pv_capacity v' \<le> max 50 (2 * pv_size v') \<and> (\<exists>k. pv_capacity v' = 50 * 2 ^ k)"
proof -
  have "pv_wf v'" using init_exec [OF assms(1-4)] assms(5) by (auto simp: pvs_wf_def)
  then show ?thesis using pv_wfD [of v'] by (auto simp: doubled_def VECTOR_INITIAL_CAPACITY_def)
qed

theorem pollfd_vector_capacity_witness:
  "\<exists>v0 st0 v' st'. init_poll_list True 3 unset_vector stats0 = Some (0, v0, st0)
    \<and> pv_exec (map Add [4..60]) (v0, st0) = Some (v', st') \<and> pv_capacity v' \<le> max 50 (2 * pv_size v')"
proof -
  obtain v0 st0 where i: "init_poll_list True 3 unset_vector stats0 = Some (0, v0, st0)"
    using init_poll_list_behaviour [of 3 unset_vector stats0] by auto
  then obtain v' st' where x: "pv_exec (map Add [4..60]) (v0, st0) = Some (v', st')"
    using init_exec [OF i, of "map Add [4..60]"] by auto
  then show ?thesis using pollfd_vector_capacity [OF i _ _ _ x] i x by auto
qed

text \<open>
  The result of \<^verbatim>\<open>realloc\<close> is not checked: when the full list cannot grow, adding a descriptor
  writes through a null pointer.
\<close>

lemma append_unchecked_realloc:
  assumes "pv_size v = pv_capacity v"
  shows "add_fd False f v st = None"
  using assms
  by (simp add: add_fd_def pollfd_vector_append_def pollfd_vector_double_def realloc_cells_def set_cell_def
      Let_def)

lemma append_unchecked_realloc_witness:
  "add_fd False 7 unset_vector stats0 = None"
  by (rule append_unchecked_realloc) (simp add: unset_vector_def)

end
