(* ===== verification/C_Format.thy ===== *)
theory C_Format
  imports FM_Prelude
begin

text \<open>
  The conversions of numbers to text that the sources use to build names and keys: \<^verbatim>\<open>%lx\<close> and \<^verbatim>\<open>%llu\<close>. The
  printed numbers are distinct, and as long as their value says.
\<close>

definition hex_digit :: "nat \<Rightarrow> char" where
  "hex_digit n = ''0123456789abcdef'' ! n"

fun hex :: "nat \<Rightarrow> string" where
  "hex n = (if n < 16 then [hex_digit n] else hex (n div 16) @ [hex_digit (n mod 16)])"

fun decimal :: "nat \<Rightarrow> string" where
  "decimal n = (if n < 10 then [hex_digit n] else decimal (n div 10) @ [hex_digit (n mod 10)])"

declare hex.simps [simp del] decimal.simps [simp del]

lemma hex_digit_inj: "m < 16 \<Longrightarrow> n < 16 \<Longrightarrow> hex_digit m = hex_digit n \<longleftrightarrow> m = n"
  using nth_eq_iff_index_eq [of "''0123456789abcdef''" m n] by (simp add: hex_digit_def)

lemma hex_digit_no_nul: "n < 16 \<Longrightarrow> hex_digit n \<noteq> CHR 0x00"
  using nth_mem [of n "''0123456789abcdef''"] by (auto simp: hex_digit_def)

lemma hex_ne [simp]: "hex n \<noteq> []" "[] \<noteq> hex n"
  by (simp_all add: hex.simps [of n])

lemma hex_inj: "hex m = hex n \<Longrightarrow> m = n"
proof (induction m arbitrary: n rule: hex.induct)
  case (1 m)
  show ?case
  proof (cases "m < 16"; cases "n < 16")
    assume "\<not> m < 16" "\<not> n < 16"
    then have "hex (m div 16) = hex (n div 16)" "hex_digit (m mod 16) = hex_digit (n mod 16)"
      using 1(2) by (simp_all add: hex.simps [of m] hex.simps [of n])
    then have "m div 16 = n div 16" "m mod 16 = n mod 16"
      using 1(1) \<open>\<not> m < 16\<close> by (simp_all add: hex_digit_inj)
    then show ?thesis by (metis div_mod_decomp)
  qed (use 1(2) in \<open>auto simp: hex.simps [of m] hex.simps [of n] hex_digit_inj\<close>)
qed

lemma hex_no_nul: "CHR 0x00 \<notin> set (hex n)"
proof (induction n rule: hex.induct)
  case (1 n)
  show ?case
    using 1 hex_digit_no_nul [of n] hex_digit_no_nul [of "n mod 16"]
    by (cases "n < 16") (auto simp: hex.simps [of n])
qed

lemma length_hex: "length (hex n) \<le> Suc k \<longleftrightarrow> n < 16 ^ Suc k"
proof (induction k arbitrary: n)
  case 0
  show ?case by (simp add: hex.simps [of n])
next
  case (Suc k)
  have "n div 16 < 16 ^ Suc k \<longleftrightarrow> n < 16 ^ Suc (Suc k)" by (simp add: div_less_iff_less_mult mult.commute)
  moreover have "n < 16 ^ Suc (Suc k)" if "n < 16"
  proof -
    have "(16 :: nat) \<le> 16 ^ Suc (Suc k)" by (rule self_le_power) simp_all
    with that show ?thesis by (rule less_le_trans)
  qed
  ultimately show ?case using Suc.IH [of "n div 16"] by (simp add: hex.simps [of n])
qed

end
