(* ===== verification/Zookeeper_Upid.thy ===== *)
theory Zookeeper_Upid
  imports C_Format
begin

text \<open>
  \<^verbatim>\<open>include/zookeeper_upid.h\<close>: the registration of cluster-wide process identifiers (upids) as nodes
  \<^verbatim>\<open>/upids/<hex>\<close> of a Zookeeper service.

  The Zookeeper client library is not code of this repository: its calls are the fields of a record
  \<open>zookeeper\<close> that the definitions take as an argument. A call gets the handle (\<open>False\<close> for \<^verbatim>\<open>NULL\<close>) and
  returns its code, the session events the library delivers to \<^verbatim>\<open>watcher\<close> until the call returns, and the
  new state of the service. What the code relies on is the predicate \<open>zk_ok\<close>.
\<close>

section \<open>The client library\<close>

text \<open>An event: its type, the state of the session and the session id.\<close>

type_synonym zevent = "int \<times> int \<times> int"

record 'z zookeeper =
  z_init :: "string \<Rightarrow> 'z \<Rightarrow> bool \<times> zevent list \<times> 'z"
  z_exists :: "bool \<Rightarrow> string \<Rightarrow> 'z \<Rightarrow> int \<times> zevent list \<times> 'z"
  z_create :: "bool \<Rightarrow> string \<Rightarrow> 'z \<Rightarrow> int \<times> zevent list \<times> 'z"
  z_delete :: "bool \<Rightarrow> string \<Rightarrow> 'z \<Rightarrow> int \<times> zevent list \<times> 'z"
  z_close :: "'z \<Rightarrow> 'z"
  z_pause :: "'z \<Rightarrow> zevent list \<times> 'z"

definition ZOK :: int where "ZOK = 0"
definition ZNONODE :: int where "ZNONODE = - 101"
definition ZOO_SESSION_EVENT :: int where "ZOO_SESSION_EVENT = - 1"
definition ZOO_CONNECTED_STATE :: int where "ZOO_CONNECTED_STATE = 3"
definition ZOO_AUTH_FAILED_STATE :: int where "ZOO_AUTH_FAILED_STATE = - 113"
definition ZOO_EXPIRED_SESSION_STATE :: int where "ZOO_EXPIRED_SESSION_STATE = - 112"

definition ZOOKEEPER_UPID_OK :: int where "ZOOKEEPER_UPID_OK = 0"
definition ZOOKEEPER_UPID_EXIST :: int where "ZOOKEEPER_UPID_EXIST = 1"
definition ZOOKEEPER_UPID_ERR :: int where "ZOOKEEPER_UPID_ERR = 2"

lemmas zk_consts = ZOK_def ZNONODE_def ZOOKEEPER_UPID_OK_def ZOOKEEPER_UPID_EXIST_def ZOOKEEPER_UPID_ERR_def

section \<open>State and watcher\<close>

text \<open>
  The static variables of the header: whether there is a handle, the session id, and whether the
  session is lost. \<open>zk_err\<close> is set by \<^verbatim>\<open>log_err\<close>.
\<close>

record zk_local =
  zh :: bool
  myid :: int
  shutdownThisThing :: bool
  zk_err :: bool

definition initialize :: "zk_local \<Rightarrow> zk_local" where
  "initialize l = l\<lparr>zh := False, myid := 0, shutdownThisThing := False\<rparr>"

definition watcher :: "'z zookeeper \<Rightarrow> zevent \<Rightarrow> zk_local \<times> 'z \<Rightarrow> zk_local \<times> 'z" where
  "watcher Z = (\<lambda>(type, state, id) (l, z).
     if type = ZOO_SESSION_EVENT
     then if state = ZOO_CONNECTED_STATE
          then (if myid l = 0 \<or> myid l \<noteq> id then l\<lparr>myid := id\<rparr> else l, z)
          else if state = ZOO_AUTH_FAILED_STATE \<or> state = ZOO_EXPIRED_SESSION_STATE
          then (l\<lparr>zh := False, shutdownThisThing := True, zk_err := True\<rparr>, z_close Z z)
          else (l, z)
     else (l, z))"

definition deliver :: "'z zookeeper \<Rightarrow> zk_local \<Rightarrow> zevent list \<times> 'z \<Rightarrow> zk_local \<times> 'z" where
  "deliver Z l = (\<lambda>(evs, z). fold (watcher Z) evs (l, z))"

definition zoo_exists :: "'z zookeeper \<Rightarrow> string \<Rightarrow> zk_local \<times> 'z \<Rightarrow> int \<times> zk_local \<times> 'z" where
  "zoo_exists Z path = (\<lambda>(l, z). case z_exists Z (zh l) path z of (rc, r) \<Rightarrow> (rc, deliver Z l r))"

definition zoo_create :: "'z zookeeper \<Rightarrow> string \<Rightarrow> zk_local \<times> 'z \<Rightarrow> int \<times> zk_local \<times> 'z" where
  "zoo_create Z path = (\<lambda>(l, z). case z_create Z (zh l) path z of (rc, r) \<Rightarrow> (rc, deliver Z l r))"

definition zoo_delete :: "'z zookeeper \<Rightarrow> string \<Rightarrow> zk_local \<times> 'z \<Rightarrow> int \<times> zk_local \<times> 'z" where
  "zoo_delete Z path = (\<lambda>(l, z). case z_delete Z (zh l) path z of (rc, r) \<Rightarrow> (rc, deliver Z l r))"

text \<open>\<^verbatim>\<open>usleep\<close> and \<^verbatim>\<open>sleep\<close>: the library goes on delivering events.\<close>

definition zoo_pause :: "'z zookeeper \<Rightarrow> zk_local \<times> 'z \<Rightarrow> zk_local \<times> 'z" where
  "zoo_pause Z = (\<lambda>(l, z). deliver Z l (z_pause Z z))"

definition zoo_close :: "'z zookeeper \<Rightarrow> zk_local \<times> 'z \<Rightarrow> zk_local \<times> 'z" where
  "zoo_close Z = (\<lambda>(l, z). (l, z_close Z z))"

section \<open>Paths\<close>

definition upidPath :: string where
  "upidPath = ''/upids''"

definition upidFullPath :: "u64 \<Rightarrow> string" where
  "upidFullPath upid = upidPath @ ''/'' @ hex (unat upid)"

section \<open>Registration\<close>

text \<open>
  The body of the inner loop: \<open>Some r\<close> is a \<^verbatim>\<open>return\<close>, \<open>None\<close> is the jump to \<^verbatim>\<open>add_retry\<close>.
\<close>

definition add_body :: "'z zookeeper \<Rightarrow> u64 \<Rightarrow> zk_local \<times> 'z \<Rightarrow> int option \<times> zk_local \<times> 'z" where
  "add_body Z upid s =
     (let (rc, s) = zoo_exists Z upidPath s;
          (rc, s) = (if rc = ZNONODE then zoo_create Z upidPath s else (rc, s))
      in if rc \<noteq> ZOK then (None, s)
         else let (rc, s) = zoo_exists Z (upidFullPath upid) s in
           if rc = ZOK then (Some ZOOKEEPER_UPID_EXIST, zoo_close Z s)
           else if rc = ZNONODE
           then let (rc, s) = zoo_create Z (upidFullPath upid) s in
             if rc = ZOK then (Some ZOOKEEPER_UPID_OK, zoo_close Z s) else (None, s)
           else (None, s))"

partial_function (option) add_loop ::
  "'z zookeeper \<Rightarrow> u64 \<Rightarrow> zk_local \<times> 'z \<Rightarrow> (int option \<times> zk_local \<times> 'z) option" where
  "add_loop Z upid s =
     (if shutdownThisThing (fst s) then Some (None, s)
      else case add_body Z upid s of
        (Some r, s1) \<Rightarrow> Some (Some r, s1)
      | (None, s1) \<Rightarrow> add_loop Z upid (zoo_pause Z s1))"

text \<open>\<open>connect\<close> is the test of the handle and the call of \<^verbatim>\<open>zookeeper_init\<close> at the start of an attempt.\<close>

definition connect :: "'z zookeeper \<Rightarrow> string \<Rightarrow> zk_local \<times> 'z \<Rightarrow> zk_local \<times> 'z" where
  "connect Z hp = (\<lambda>(l, z).
     if zh l then (l, z)
     else case z_init Z hp z of (h, r) \<Rightarrow> deliver Z (l\<lparr>zh := h\<rparr>) r)"

fun add_attempts :: "'z zookeeper \<Rightarrow> string \<Rightarrow> u64 \<Rightarrow> nat \<Rightarrow> zk_local \<times> 'z \<Rightarrow> (int \<times> zk_local \<times> 'z) option" where
  "add_attempts Z hp upid 0 s = Some (ZOOKEEPER_UPID_ERR, if zh (fst s) then zoo_close Z s else s)"
| "add_attempts Z hp upid (Suc n) s =
     (let s = connect Z hp s in
      if \<not> zh (fst s) then add_attempts Z hp upid n (zoo_pause Z s)
      else case add_loop Z upid s of
        None \<Rightarrow> None
      | Some (Some r, s) \<Rightarrow> Some (r, s)
      | Some (None, s) \<Rightarrow> add_attempts Z hp upid n (zoo_pause Z s))"

definition add_upid ::
  "'z zookeeper \<Rightarrow> string \<Rightarrow> u64 \<Rightarrow> zk_local \<times> 'z \<Rightarrow> (int \<times> zk_local \<times> 'z) option" where
  "add_upid Z hp upid = (\<lambda>(l, z). add_attempts Z hp upid 10 (initialize l, z))"

section \<open>Removal\<close>

text \<open>\<open>Some (Some r)\<close> is a \<^verbatim>\<open>return\<close>, \<open>Some None\<close> the jump to \<^verbatim>\<open>del_out\<close>, \<open>None\<close> another round.\<close>

definition del_body :: "'z zookeeper \<Rightarrow> u64 \<Rightarrow> zk_local \<times> 'z \<Rightarrow> int option option \<times> zk_local \<times> 'z" where
  "del_body Z upid s =
     (let (rc, s) = zoo_exists Z (upidFullPath upid) s in
      if rc \<noteq> ZOK then (Some None, s)
      else let (rc, s) = zoo_delete Z (upidFullPath upid) s in
        if rc = ZOK then (Some (Some ZOOKEEPER_UPID_OK), zoo_close Z s) else (None, s))"

partial_function (option) del_loop ::
  "'z zookeeper \<Rightarrow> u64 \<Rightarrow> zk_local \<times> 'z \<Rightarrow> (int option option \<times> zk_local \<times> 'z) option" where
  "del_loop Z upid s =
     (if shutdownThisThing (fst s) then Some (None, s)
      else case del_body Z upid s of
        (Some r, s1) \<Rightarrow> Some (Some r, s1)
      | (None, s1) \<Rightarrow> del_loop Z upid (zoo_pause Z s1))"

definition del_out :: "'z zookeeper \<Rightarrow> zk_local \<times> 'z \<Rightarrow> int \<times> zk_local \<times> 'z" where
  "del_out Z s = (ZOOKEEPER_UPID_ERR, if zh (fst s) then zoo_close Z s else s)"

fun del_attempts :: "'z zookeeper \<Rightarrow> string \<Rightarrow> u64 \<Rightarrow> nat \<Rightarrow> zk_local \<times> 'z \<Rightarrow> (int \<times> zk_local \<times> 'z) option" where
  "del_attempts Z hp upid 0 s = Some (del_out Z s)"
| "del_attempts Z hp upid (Suc n) s =
     (let s = connect Z hp s in
      if \<not> zh (fst s) then del_attempts Z hp upid n (zoo_pause Z s)
      else case del_loop Z upid s of
        None \<Rightarrow> None
      | Some (Some (Some r), s) \<Rightarrow> Some (r, s)
      | Some (Some None, s) \<Rightarrow> Some (del_out Z s)
      | Some (None, s) \<Rightarrow> del_attempts Z hp upid n (zoo_pause Z s))"

definition del_upid ::
  "'z zookeeper \<Rightarrow> string \<Rightarrow> u64 \<Rightarrow> zk_local \<times> 'z \<Rightarrow> (int \<times> zk_local \<times> 'z) option" where
  "del_upid Z hp upid = (\<lambda>(l, z). del_attempts Z hp upid 10 (initialize l, z))"

section \<open>Documented behaviour\<close>

text \<open>
  Events that keep the session. \<open>nodes\<close> are the paths that exist; the nodes the code creates are
  persistent, so that closing the session keeps them. A node can be created below an existing one, and
  deleted when nothing is below it.
\<close>

definition calm :: "zevent list \<Rightarrow> bool" where
  "calm evs \<longleftrightarrow> (\<forall>(type, state, id) \<in> set evs.
     state \<noteq> ZOO_AUTH_FAILED_STATE \<and> state \<noteq> ZOO_EXPIRED_SESSION_STATE)"

definition zk_ok :: "'z zookeeper \<Rightarrow> ('z \<Rightarrow> string set) \<Rightarrow> bool" where
  "zk_ok Z nodes \<longleftrightarrow> (\<forall>z.
       (\<forall>hp. \<exists>evs z'. z_init Z hp z = (True, evs, z') \<and> calm evs \<and> nodes z' = nodes z)
     \<and> (\<forall>p. \<exists>evs z'. z_exists Z True p z = (if p \<in> nodes z then ZOK else ZNONODE, evs, z')
          \<and> calm evs \<and> nodes z' = nodes z)
     \<and> (\<forall>p. p \<notin> nodes z \<longrightarrow> p = upidPath \<or> upidPath \<in> nodes z \<longrightarrow>
          (\<exists>evs z'. z_create Z True p z = (ZOK, evs, z') \<and> calm evs \<and> nodes z' = insert p (nodes z)))
     \<and> (\<forall>p. p \<in> nodes z \<longrightarrow> p \<noteq> upidPath \<longrightarrow>
          (\<exists>evs z'. z_delete Z True p z = (ZOK, evs, z') \<and> calm evs \<and> nodes z' = nodes z - {p}))
     \<and> nodes (z_close Z z) = nodes z)"

definition upid_known :: "('z \<Rightarrow> string set) \<Rightarrow> 'z \<Rightarrow> u64 \<Rightarrow> bool" where
  "upid_known nodes z upid \<longleftrightarrow> upidFullPath upid \<in> nodes z"

section \<open>Paths are distinct\<close>

lemma upidFullPath_inj [simp]: "upidFullPath u = upidFullPath v \<longleftrightarrow> u = v"
  using hex_inj by (auto simp: upidFullPath_def word_unat_eq_iff)

lemma upidFullPath_ne [simp]: "upidFullPath u \<noteq> upidPath" "upidPath \<noteq> upidFullPath u"
  by (simp_all add: upidFullPath_def)

section \<open>Registration with a live session\<close>

lemma deliver_calm:
  assumes "calm evs"
  obtains i where "deliver Z l (evs, z) = (l\<lparr>myid := i\<rparr>, z)"
proof -
  have "\<exists>i. fold (watcher Z) evs (l, z) = (l\<lparr>myid := i\<rparr>, z)"
    using assms
  proof (induction evs arbitrary: l)
    case Nil
    show ?case by (intro exI [of _ "myid l"]) simp
  next
    case (Cons e evs)
    obtain t st id where e: "e = (t, st, id)" by (cases e)
    have "watcher Z e (l, z) = (l\<lparr>myid := if t = ZOO_SESSION_EVENT \<and> st = ZOO_CONNECTED_STATE then id else myid l\<rparr>, z)"
      using Cons.prems by (auto simp: watcher_def calm_def e)
    then obtain i where "watcher Z e (l, z) = (l\<lparr>myid := i\<rparr>, z)" by blast
    then show ?case using Cons.IH [of "l\<lparr>myid := i\<rparr>"] Cons.prems by (auto simp: calm_def)
  qed
  then show thesis using that by (auto simp: deliver_def)
qed

text \<open>A local state with a handle and a session.\<close>

definition live :: "zk_local \<Rightarrow> bool" where
  "live l \<longleftrightarrow> zh l \<and> \<not> shutdownThisThing l"

lemma live_myid [simp]: "live (l\<lparr>myid := i\<rparr>) = live l"
  by (simp add: live_def)

lemma zoo_exists_ok:
  assumes "zk_ok Z nodes" "live l"
  obtains l' z' where "zoo_exists Z p (l, z) = (if p \<in> nodes z then ZOK else ZNONODE, l', z')"
    "live l'" "nodes z' = nodes z"
proof -
  obtain evs z' where e: "z_exists Z True p z = (if p \<in> nodes z then ZOK else ZNONODE, evs, z')"
    "calm evs" "nodes z' = nodes z" using assms(1) unfolding zk_ok_def by metis
  obtain i where "deliver Z l (evs, z') = (l\<lparr>myid := i\<rparr>, z')" using deliver_calm [OF e(2)] .
  then show thesis using that [of "l\<lparr>myid := i\<rparr>" z'] e assms(2) by (simp add: zoo_exists_def live_def)
qed

lemma zoo_create_ok:
  assumes "zk_ok Z nodes" "live l" "p \<notin> nodes z" "p = upidPath \<or> upidPath \<in> nodes z"
  obtains l' z' where "zoo_create Z p (l, z) = (ZOK, l', z')" "live l'" "nodes z' = insert p (nodes z)"
proof -
  obtain evs z' where e: "z_create Z True p z = (ZOK, evs, z')" "calm evs" "nodes z' = insert p (nodes z)"
    using assms(1,3,4) unfolding zk_ok_def by metis
  obtain i where "deliver Z l (evs, z') = (l\<lparr>myid := i\<rparr>, z')" using deliver_calm [OF e(2)] .
  then show thesis using that [of "l\<lparr>myid := i\<rparr>" z'] e assms(2) by (simp add: zoo_create_def live_def)
qed

lemma zoo_delete_ok:
  assumes "zk_ok Z nodes" "live l" "p \<in> nodes z" "p \<noteq> upidPath"
  obtains l' z' where "zoo_delete Z p (l, z) = (ZOK, l', z')" "live l'" "nodes z' = nodes z - {p}"
proof -
  obtain evs z' where e: "z_delete Z True p z = (ZOK, evs, z')" "calm evs" "nodes z' = nodes z - {p}"
    using assms(1,3,4) unfolding zk_ok_def by metis
  obtain i where "deliver Z l (evs, z') = (l\<lparr>myid := i\<rparr>, z')" using deliver_calm [OF e(2)] .
  then show thesis using that [of "l\<lparr>myid := i\<rparr>" z'] e assms(2) by (simp add: zoo_delete_def live_def)
qed

lemma connect_ok:
  assumes "zk_ok Z nodes"
  obtains l' z' where "connect Z hp (initialize l, z) = (l', z')" "live l'" "nodes z' = nodes z"
proof -
  obtain evs z' where e: "z_init Z hp z = (True, evs, z')" "calm evs" "nodes z' = nodes z"
    using assms unfolding zk_ok_def by metis
  obtain i where "deliver Z ((initialize l)\<lparr>zh := True\<rparr>) (evs, z')
      = ((initialize l)\<lparr>zh := True, myid := i\<rparr>, z')" using deliver_calm [OF e(2)] .
  then show thesis using that [of "(initialize l)\<lparr>zh := True, myid := i\<rparr>" z'] e
    by (simp add: connect_def initialize_def live_def)
qed

lemma add_body_ok:
  assumes "zk_ok Z nodes" "live l"
  obtains l' z' where "add_body Z u (l, z) = (Some (if upid_known nodes z u then ZOOKEEPER_UPID_EXIST
      else ZOOKEEPER_UPID_OK), l', z')" "nodes z' = insert (upidFullPath u) (insert upidPath (nodes z))"
proof -
  obtain l1 z1 where 1: "zoo_exists Z upidPath (l, z) = (if upidPath \<in> nodes z then ZOK else ZNONODE, l1, z1)"
    "live l1" "nodes z1 = nodes z" using zoo_exists_ok [OF assms] .
  obtain l2 z2 where 2: "(if upidPath \<in> nodes z then (ZOK, l1, z1) else zoo_create Z upidPath (l1, z1)) = (ZOK, l2, z2)"
    "live l2" "nodes z2 = insert upidPath (nodes z)"
  proof (cases "upidPath \<in> nodes z")
    case True
    then show thesis using that [of l1 z1] 1 by (simp add: insert_absorb)
  next
    case False
    then show thesis using zoo_create_ok [OF assms(1) 1(2), of upidPath z1] that 1(3) by metis
  qed
  obtain l3 z3 where 3: "zoo_exists Z (upidFullPath u) (l2, z2)
      = (if upidFullPath u \<in> nodes z2 then ZOK else ZNONODE, l3, z3)" "live l3" "nodes z3 = nodes z2"
    using zoo_exists_ok [OF assms(1) 2(2)] .
  have close: "nodes (z_close Z x) = nodes x" for x using assms(1) by (simp add: zk_ok_def)
  have r: "upid_known nodes z u \<longleftrightarrow> upidFullPath u \<in> nodes z2" by (auto simp: upid_known_def 2(3))
  have b: "add_body Z u (l, z) =
      (if upidFullPath u \<in> nodes z2 then (Some ZOOKEEPER_UPID_EXIST, l3, z_close Z z3)
       else let (rc, s) = zoo_create Z (upidFullPath u) (l3, z3) in
         if rc = ZOK then (Some ZOOKEEPER_UPID_OK, zoo_close Z s) else (None, s))"
    using 1 2(1) 3(1) by (auto simp: add_body_def Let_def zk_consts zoo_close_def split: if_splits)
  show thesis
  proof (cases "upidFullPath u \<in> nodes z2")
    case True
    then have "nodes (z_close Z z3) = insert (upidFullPath u) (insert upidPath (nodes z))"
      using close [of z3] 3(3) 2(3) by blast
    then show thesis using True by (intro that [of l3 "z_close Z z3"]) (simp_all add: b r)
  next
    case False
    then have n: "upidFullPath u \<notin> nodes z3" "upidFullPath u = upidPath \<or> upidPath \<in> nodes z3"
      using 2(3) 3(3) by auto
    obtain l4 z4 where "zoo_create Z (upidFullPath u) (l3, z3) = (ZOK, l4, z4)" "live l4"
      "nodes z4 = insert (upidFullPath u) (nodes z3)" using zoo_create_ok [OF assms(1) 3(2) n] .
    then show thesis using False
      by (intro that [of l4 "z_close Z z4"]) (simp_all add: b r zoo_close_def close 2(3) 3(3))
  qed
qed

lemma add_upid_ok:
  assumes "zk_ok Z nodes"
  shows "\<exists>l' z'. add_upid Z hp u (l, z)
      = Some (if upid_known nodes z u then ZOOKEEPER_UPID_EXIST else ZOOKEEPER_UPID_OK, l', z')
    \<and> nodes z' = insert (upidFullPath u) (insert upidPath (nodes z))"
proof -
  obtain l1 z1 where 1: "connect Z hp (initialize l, z) = (l1, z1)" "live l1" "nodes z1 = nodes z"
    using connect_ok [OF assms] .
  obtain l2 z2 where 2: "add_body Z u (l1, z1) = (Some (if upid_known nodes z u then ZOOKEEPER_UPID_EXIST
      else ZOOKEEPER_UPID_OK), l2, z2)" "nodes z2 = insert (upidFullPath u) (insert upidPath (nodes z))"
    using add_body_ok [OF assms 1(2), of u z1] 1(3) by (auto simp: upid_known_def)
  have "add_loop Z u (l1, z1) = Some (Some (if upid_known nodes z u then ZOOKEEPER_UPID_EXIST
      else ZOOKEEPER_UPID_OK), l2, z2)"
    using 1(2) 2(1) by (subst add_loop.simps) (simp add: live_def)
  then show ?thesis using 1 2(2) by (simp add: add_upid_def eval_nat_numeral live_def)
qed

lemma del_body_ok:
  assumes "zk_ok Z nodes" "live l"
  obtains l' z' where "del_body Z u (l, z) = (Some (if upid_known nodes z u then Some ZOOKEEPER_UPID_OK else None), l', z')"
    "nodes z' = nodes z - {upidFullPath u}"
proof -
  obtain l1 z1 where 1: "zoo_exists Z (upidFullPath u) (l, z)
      = (if upidFullPath u \<in> nodes z then ZOK else ZNONODE, l1, z1)" "live l1" "nodes z1 = nodes z"
    using zoo_exists_ok [OF assms] .
  show thesis
  proof (cases "upidFullPath u \<in> nodes z")
    case True
    then have n: "upidFullPath u \<in> nodes z1" "upidFullPath u \<noteq> upidPath" using 1(3) by auto
    obtain l2 z2 where "zoo_delete Z (upidFullPath u) (l1, z1) = (ZOK, l2, z2)" "live l2"
      "nodes z2 = nodes z1 - {upidFullPath u}" using zoo_delete_ok [OF assms(1) 1(2) n] .
    moreover have "nodes (z_close Z z2) = nodes z2" using assms(1) by (simp add: zk_ok_def)
    ultimately show thesis using True 1 that [of l2 "z_close Z z2"]
      by (simp add: del_body_def upid_known_def zoo_close_def)
  next
    case False
    then show thesis using 1 that [of l1 z1] by (simp add: del_body_def upid_known_def zk_consts)
  qed
qed

lemma del_upid_ok:
  assumes "zk_ok Z nodes"
  shows "\<exists>l' z'. del_upid Z hp u (l, z)
      = Some (if upid_known nodes z u then ZOOKEEPER_UPID_OK else ZOOKEEPER_UPID_ERR, l', z')
    \<and> nodes z' = nodes z - {upidFullPath u}"
proof -
  obtain l1 z1 where 1: "connect Z hp (initialize l, z) = (l1, z1)" "live l1" "nodes z1 = nodes z"
    using connect_ok [OF assms] .
  obtain l2 z2 where 2: "del_body Z u (l1, z1) = (Some (if upid_known nodes z u then Some ZOOKEEPER_UPID_OK
      else None), l2, z2)" "nodes z2 = nodes z - {upidFullPath u}"
    using del_body_ok [OF assms 1(2), of u z1] 1(3) by (auto simp: upid_known_def)
  have "del_loop Z u (l1, z1) = Some (Some (if upid_known nodes z u then Some ZOOKEEPER_UPID_OK else None), l2, z2)"
    using 1(2) 2(1) by (subst del_loop.simps) (simp add: live_def)
  moreover have "nodes (z_close Z x) = nodes x" for x using assms by (simp add: zk_ok_def)
  ultimately show ?thesis using 1 2(2)
    by (simp add: del_upid_def eval_nat_numeral live_def del_out_def zoo_close_def)
qed

section \<open>Registration without a service\<close>

text \<open>
  A service that cannot be reached: the library hands out a handle, keeps trying to connect, and
  answers every call with an error.
\<close>

definition zk_unreachable :: "'z zookeeper \<Rightarrow> bool" where
  "zk_unreachable Z \<longleftrightarrow> (\<forall>z.
       (\<forall>hp. \<exists>evs z'. z_init Z hp z = (True, evs, z') \<and> calm evs)
     \<and> (\<forall>p. \<exists>rc evs z'. z_exists Z True p z = (rc, evs, z') \<and> rc \<noteq> ZOK \<and> rc \<noteq> ZNONODE \<and> calm evs)
     \<and> (\<exists>evs z'. z_pause Z z = (evs, z') \<and> calm evs))"

lemma add_body_unreachable:
  assumes "zk_unreachable Z" "live l"
  obtains l' z' where "add_body Z u (l, z) = (None, l', z')" "live l'"
proof -
  obtain rc evs z' where e: "z_exists Z True upidPath z = (rc, evs, z')" "rc \<noteq> ZOK" "rc \<noteq> ZNONODE" "calm evs"
    using assms(1) unfolding zk_unreachable_def by metis
  obtain i where "deliver Z l (evs, z') = (l\<lparr>myid := i\<rparr>, z')" using deliver_calm [OF e(4)] .
  then show thesis using that [of "l\<lparr>myid := i\<rparr>" z'] e assms(2)
    by (simp add: add_body_def zoo_exists_def live_def)
qed

lemma zoo_pause_unreachable:
  assumes "zk_unreachable Z" "live l"
  obtains l' z' where "zoo_pause Z (l, z) = (l', z')" "live l'"
proof -
  obtain evs z' where e: "z_pause Z z = (evs, z')" "calm evs"
    using assms(1) unfolding zk_unreachable_def by metis
  obtain i where "deliver Z l (evs, z') = (l\<lparr>myid := i\<rparr>, z')" using deliver_calm [OF e(2)] .
  then show thesis using that [of "l\<lparr>myid := i\<rparr>" z'] e assms(2) by (simp add: zoo_pause_def)
qed

lemma add_loop_unreachable:
  assumes un: "zk_unreachable Z" and "live (fst s)"
  shows "add_loop Z u s = None"
proof (rule ccontr)
  assume "add_loop Z u s \<noteq> None"
  then obtain y where y: "add_loop Z u s = Some y" by blast
  have "Z' = Z \<longrightarrow> \<not> live (fst s)" if "add_loop Z' u' s = Some y" for Z' u' s y
  proof (rule add_loop.raw_induct [where P = "\<lambda>Z' u' s y. Z' = Z \<longrightarrow> \<not> live (fst s)", OF _ that])
    fix f Z' u' s y
    assume IH: "\<And>Z' u' s y. f Z' u' s = Some y \<Longrightarrow> Z' = Z \<longrightarrow> \<not> live (fst s)"
      and st: "(if shutdownThisThing (fst s) then Some (None, s)
        else case add_body Z' u' s of (Some r, s1) \<Rightarrow> Some (Some r, s1)
          | (None, s1) \<Rightarrow> f Z' u' (zoo_pause Z' s1)) = Some y"
    show "Z' = Z \<longrightarrow> \<not> live (fst s)"
    proof (intro impI notI)
      assume Z: "Z' = Z" and l: "live (fst s)"
      obtain l1 z1 where 1: "add_body Z u' s = (None, l1, z1)" "live l1"
        using add_body_unreachable [OF un l, of u' "snd s"] by auto
      obtain l2 z2 where 2: "zoo_pause Z (l1, z1) = (l2, z2)" "live l2"
        using zoo_pause_unreachable [OF un 1(2)] .
      have "f Z' u' (l2, z2) = Some y" using st Z l 1 2 by (simp add: live_def)
      then show False using IH Z 2(2) by fastforce
    qed
  qed
  with y assms(2) show False by blast
qed

lemma add_attempts_lost:
  assumes "shutdownThisThing l"
  shows "\<exists>s'. add_attempts Z hp u n (l, z) = Some (ZOOKEEPER_UPID_ERR, s')"
  using assms
proof (induction n arbitrary: l z)
  case (Suc n)
  have w: "shutdownThisThing (fst (fold (watcher Z) evs (l, z)))" if "shutdownThisThing l" for evs l z
    using that by (induction evs arbitrary: l z) (auto simp: watcher_def)
  then have d: "shutdownThisThing (fst (deliver Z l r))" if "shutdownThisThing l" for l r
    using that by (cases r) (simp add: deliver_def)
  obtain l1 z1 where 1: "connect Z hp (l, z) = (l1, z1)" by force
  then have s1: "shutdownThisThing l1"
    using Suc.prems d [of "l\<lparr>zh := h\<rparr>" r for h r] by (auto simp: connect_def split: if_splits prod.splits) (metis fst_conv)
  obtain l2 z2 where 2: "zoo_pause Z (l1, z1) = (l2, z2)" by force
  then have "shutdownThisThing l2" using s1 d [of l1 "z_pause Z z1"] by (simp add: zoo_pause_def)
  moreover have "add_loop Z u (l1, z1) = Some (None, l1, z1)" using s1 by (simp add: add_loop.simps)
  ultimately show ?case using Suc.IH 1 2 by (simp add: Let_def)
qed simp

section \<open>Example services\<close>

text \<open>A service that answers at once, its state the set of existing paths, and one that never does.\<close>

definition sim_zk :: "string set zookeeper" where
  "sim_zk = \<lparr>z_init = (\<lambda>hp z. (True, [], z)),
     z_exists = (\<lambda>h p z. (if p \<in> z then ZOK else ZNONODE, [], z)),
     z_create = (\<lambda>h p z. (if p \<in> z then - 110 else ZOK, [], insert p z)),
     z_delete = (\<lambda>h p z. (if p \<in> z then ZOK else ZNONODE, [], z - {p})),
     z_close = id, z_pause = (\<lambda>z. ([], z))\<rparr>"

definition dead_zk :: "unit zookeeper" where
  "dead_zk = \<lparr>z_init = (\<lambda>hp z. (True, [], z)), z_exists = (\<lambda>h p z. (- 4, [], z)),
     z_create = (\<lambda>h p z. (- 4, [], z)), z_delete = (\<lambda>h p z. (- 4, [], z)),
     z_close = id, z_pause = (\<lambda>z. ([], z))\<rparr>"

definition zk_local0 :: zk_local where
  "zk_local0 = \<lparr>zh = False, myid = 0, shutdownThisThing = False, zk_err = False\<rparr>"

lemma sim_zk_ok: "zk_ok sim_zk id"
  by (auto simp: zk_ok_def sim_zk_def calm_def)

lemma dead_zk_unreachable: "zk_unreachable dead_zk"
  by (simp add: zk_unreachable_def dead_zk_def calm_def zk_consts)

section \<open>Theorems\<close>

text \<open>
  C26. While the session lives, \<^verbatim>\<open>add_upid\<close> returns, reports whether the upid was registered already, and
  afterwards exactly this upid is registered in addition to the others; \<^verbatim>\<open>del_upid\<close> returns, reports
  whether it was registered, and removes exactly this upid. Distinct upids never share a node.
\<close>

theorem upid_registry:
  assumes "zk_ok Z nodes"
  shows "\<exists>l1 z1 l2 z2.
      add_upid Z hp u (l, z) = Some (if upid_known nodes z u then ZOOKEEPER_UPID_EXIST else ZOOKEEPER_UPID_OK, l1, z1)
    \<and> (\<forall>v. upid_known nodes z1 v \<longleftrightarrow> v = u \<or> upid_known nodes z v)
    \<and> del_upid Z hp u (l, z) = Some (if upid_known nodes z u then ZOOKEEPER_UPID_OK else ZOOKEEPER_UPID_ERR, l2, z2)
    \<and> (\<forall>v. upid_known nodes z2 v \<longleftrightarrow> v \<noteq> u \<and> upid_known nodes z v)"
  using add_upid_ok [OF assms, of hp u l z] del_upid_ok [OF assms, of hp u l z]
  by (auto simp: upid_known_def)

theorem upid_registry_witness:
  "\<exists>l1 z1. add_upid sim_zk ''10.0.1.1:2181'' 255 (zk_local0, {''/upids'', ''/upids/fe''}) = Some (0, l1, z1)
    \<and> upid_known id z1 255 \<and> upid_known id z1 254"
proof -
  have p: "upidFullPath 255 = ''/upids/ff''" "upidFullPath 254 = ''/upids/fe''"
    by (simp_all add: upidFullPath_def upidPath_def hex.simps hex_digit_def)
  have r: "\<not> upid_known id {''/upids'', ''/upids/fe''} 255" "upid_known id {''/upids'', ''/upids/fe''} 254"
    by (simp_all add: upid_known_def p)
  show ?thesis
    using upid_registry [OF sim_zk_ok, of "''10.0.1.1:2181''" 255 zk_local0 "{''/upids'', ''/upids/fe''}"]
    by (auto simp: r ZOOKEEPER_UPID_OK_def)
qed

text \<open>
  The bound of ten attempts does not bound \<^verbatim>\<open>add_upid\<close>: while the service cannot be reached and the
  session is not declared lost, the inner loop retries for ever and the caller never returns.
\<close>

lemma add_upid_unreachable_hangs:
  assumes "zk_unreachable Z"
  shows "add_upid Z hp u (l, z) = None"
proof -
  obtain evs z' where e: "z_init Z hp z = (True, evs, z')" "calm evs"
    using assms unfolding zk_unreachable_def by metis
  obtain i where "deliver Z ((initialize l)\<lparr>zh := True\<rparr>) (evs, z') = ((initialize l)\<lparr>zh := True, myid := i\<rparr>, z')"
    using deliver_calm [OF e(2)] .
  then have c: "connect Z hp (initialize l, z) = ((initialize l)\<lparr>zh := True, myid := i\<rparr>, z')"
    using e by (simp add: connect_def initialize_def)
  have "add_loop Z u ((initialize l)\<lparr>zh := True, myid := i\<rparr>, z') = None"
    using assms by (rule add_loop_unreachable) (simp add: live_def initialize_def)
  then show ?thesis by (simp add: add_upid_def eval_nat_numeral c Let_def)
qed

lemma add_upid_unreachable_hangs_witness:
  "add_upid dead_zk ''10.0.1.1:2181'' 255 (zk_local0, ()) = None"
  by (rule add_upid_unreachable_hangs [OF dead_zk_unreachable])

text \<open>
  A lost session is not recovered: once the watcher has seen it expire, all remaining attempts
  reconnect without asking again, and the registration fails.
\<close>

lemma session_lost_is_final:
  assumes "shutdownThisThing l"
  shows "\<exists>s'. add_attempts Z hp u n (l, z) = Some (ZOOKEEPER_UPID_ERR, s')"
  using assms by (rule add_attempts_lost)

lemma session_lost_is_final_witness:
  "\<exists>s'. add_attempts sim_zk ''10.0.1.1:2181'' 255 9 (zk_local0\<lparr>shutdownThisThing := True\<rparr>, {}) = Some (2, s')"
  using session_lost_is_final [of "zk_local0\<lparr>shutdownThisThing := True\<rparr>"] by (simp add: ZOOKEEPER_UPID_ERR_def)

end
