(* ===== verification/Userfault_Flush.thy ===== *)
theory Userfault_Flush
  imports Userfault Zookeeper_Upid
begin

text \<open>
  The part of \<^verbatim>\<open>lib/userfault/userfault.c\<close> that forgets an application: flushing or deleting its pages,
  removing its descriptor from the map and its upid from Zookeeper, for processes that died
  (\<^verbatim>\<open>purgeDeadUpids\<close>) and for a process named by the user (\<^verbatim>\<open>removePid\<close>); and the queries over the map.

  Besides the environment of the fault handler these operations take a \<open>site\<close>: the Zookeeper client and
  its address, the line of \<^verbatim>\<open>/etc/machine-id\<close>, and two facts about undefined behaviour of the C++ part:
  whether the link of a freed list node still reads as before, and whether the value that
  \<^verbatim>\<open>removeUFDFromPageHash\<close> of \<^verbatim>\<open>PageCacheWrapper.cc\<close> does not return is found by its caller none the less.
  The C allocator is assumed to find the memory for the lists that are returned.
\<close>

record 'z site =
  si_zk :: "'z zookeeper"
  si_conn :: string
  si_machine_id :: "u8 list"
  si_stale :: bool
  si_value_kept :: bool

type_synonym ('c, 'z) mon = "'c fm \<times> zk_local \<times> 'z"

definition FLUSH_TO_EXTERNRAM :: int where "FLUSH_TO_EXTERNRAM = 0"
definition DELETE_FROM_EXTERNRAM :: int where "DELETE_FROM_EXTERNRAM = 1"

section \<open>Pages\<close>

text \<open>The inner declaration of \<^verbatim>\<open>ret\<close> hides the outer one: with a client the result is always 0.\<close>

definition delete_from_externram :: "'c env \<Rightarrow> fd \<Rightarrow> ptr \<Rightarrow> u64 \<Rightarrow> 'c fm \<Rightarrow> (int \<times> 'c fm) option" where
  "delete_from_externram E ufd client pageaddr s =
     (if client \<noteq> NULL
      then do { (r, s) \<leftarrow> fm_removePage E client pageaddr s; Some (0, s) }
      else Some (- 1, log_err s))"

fun flush_loop :: "'c env \<Rightarrow> fd \<Rightarrow> u64 list \<Rightarrow> 'c fm \<Rightarrow> 'c fm option" where
  "flush_loop E ufd [] s = Some s"
| "flush_loop E ufd (a # as) s = do {
     (ret, s) \<leftarrow> evict_to_externram E ufd a s;
     flush_loop E ufd as (if ret = 0 \<or> ret = 2 then s else log_err s)
   }"

fun delete_loop :: "'c env \<Rightarrow> fd \<Rightarrow> ptr \<Rightarrow> u64 list \<Rightarrow> 'c fm \<Rightarrow> 'c fm option" where
  "delete_loop E ufd client [] s = Some s"
| "delete_loop E ufd client (a # as) s = do {
     (ret, s) \<leftarrow> delete_from_externram E ufd client a s;
     if ret = 0 then delete_loop E ufd client as s
     else if ret = - 1 then Some s
     else delete_loop E ufd client as (log_err s)
   }"

text \<open>The part of \<^verbatim>\<open>flush_buffers\<close> under \<^verbatim>\<open>PAGECACHE\<close>.\<close>

definition flush_page_cache :: "'c env \<Rightarrow> 'z site \<Rightarrow> fd \<Rightarrow> ptr \<Rightarrow> int \<Rightarrow> 'c fm \<Rightarrow> (int \<times> 'c fm) option" where
  "flush_page_cache E S ufd client mode s = do {
     s \<leftarrow> lockS pagecache_lock s;
     (n, s) \<leftarrow> removeUFDFromPageCache (si_stale S) ufd s;
     let s = (if n < 0 then log_err s else s);
     let (page_list, s) = removeUFDFromPageHash ufd s;
     let num_pages = int_of_size (length page_list);
     let s = (if num_pages < 0 then log_err s else s);
     s \<leftarrow> unlockS pagecache_lock s;
     if num_pages > 0 \<and> \<not> si_value_kept S then None
     else do {
       s \<leftarrow> if mode = DELETE_FROM_EXTERNRAM
            then delete_loop E ufd client (take (nat num_pages) page_list) s else Some s;
       Some (num_pages, s)
     }
   }"

definition flush_buffers :: "'c env \<Rightarrow> 'z site \<Rightarrow> fd \<Rightarrow> ptr \<Rightarrow> int \<Rightarrow> 'c fm \<Rightarrow> (int \<times> 'c fm) option" where
  "flush_buffers E S ufd client mode s = do {
     s \<leftarrow> lockS lru_lock s;
     (page_list, ls) \<leftarrow> removeUFDFromLRU (si_stale S) ufd (fm_lru s, fm_stats s);
     let num_pages = int_of_size (length page_list);
     s \<leftarrow> unlockS lru_lock (put_lru ls s);
     let s = (if num_pages < 0 then log_err s else s);
     s \<leftarrow> if mode = FLUSH_TO_EXTERNRAM then flush_loop E ufd (take (nat num_pages) page_list) s
          else Some s;
     if PAGECACHE (e_cfg E) then flush_page_cache E S ufd client mode s else Some (num_pages, s)
   }"

definition flush_write_list :: "'c env \<Rightarrow> 'c fm \<Rightarrow> 'c fm option" where
  "flush_write_list E s =
     (if THREADED_WRITE_TO_EXTERNRAM (e_cfg E)
      then do {
        s \<leftarrow> lockS flush_write_needed_lock s;
        let s = upd_tio (\<lambda>t. t\<lparr>flushWriteListNeeded := True\<rparr>) s;
        s \<leftarrow> unlockS flush_write_needed_lock s;
        Some (e_wait_flushed E (post_writer s))
      }
      else Some s)"

definition flush_ufd :: "'c env \<Rightarrow> 'z site \<Rightarrow> fd \<Rightarrow> ptr \<Rightarrow> 'c fm \<Rightarrow> (int \<times> 'c fm) option" where
  "flush_ufd E S ufd client s =
     (if client \<noteq> NULL
      then do {
        (n, s) \<leftarrow> flush_buffers E S ufd client DELETE_FROM_EXTERNRAM s;
        Some (if n < 0 then - 1 else 0, s)
      }
      else Some (- 1, s))"

section \<open>Applications\<close>

definition remove_upid :: "'z site \<Rightarrow> u64 \<Rightarrow> ('c, 'z) mon \<Rightarrow> (int \<times> ('c, 'z) mon) option" where
  "remove_upid S upid = (\<lambda>(s, z). do {
     s \<leftarrow> lockS zh_lock s;
     (r, z) \<leftarrow> del_upid (si_zk S) (si_conn S) upid z;
     s \<leftarrow> unlockS zh_lock s;
     Some (if r < 0 then - 1 else 0, s, z)
   })"

text \<open>
  The loop over the map keeps the successor before the body deletes the entry. The upid is copied into an
  array of bytes, and \<^verbatim>\<open>*upid\<close> is the first of them.
\<close>

fun purge_loop :: "'c env \<Rightarrow> 'z site \<Rightarrow> map_struct list \<Rightarrow> ('c, 'z) mon \<Rightarrow> (fd list \<times> ('c, 'z) mon) option" where
  "purge_loop E S [] m = Some ([], m)"
| "purge_loop E S (c # cs) m =
     (if upid_node (ms_upid c) = get_node_id (si_machine_id S)
       \<and> k_getpgid (e_kernel E) (upid_pid (ms_upid c)) (fm_mach (fst m)) < 0
      then do {
        let s = (fst m)\<lparr>fm_map := snd (del_fd_from_map (ms_fd c) (fm_map (fst m)))\<rparr>;
        s \<leftarrow> unlockS fdUpidMap_lock s;
        (r, s) \<leftarrow> if ms_client c \<noteq> NULL then flush_ufd E S (ms_fd c) (ms_client c) s else Some (0, s);
        (r, s, z) \<leftarrow> remove_upid S (upid_deref (ms_upid c)) (s, snd m);
        s \<leftarrow> lockS fdUpidMap_lock s;
        (fds, m) \<leftarrow> purge_loop E S cs (s, z);
        Some (ms_fd c # fds, m)
      }
      else purge_loop E S cs m)"

definition purgeDeadUpids :: "'c env \<Rightarrow> 'z site \<Rightarrow> ('c, 'z) mon \<Rightarrow> (fd list \<times> ('c, 'z) mon) option" where
  "purgeDeadUpids E S = (\<lambda>(s, z). do {
     s \<leftarrow> flush_write_list E s;
     s \<leftarrow> lockS fdUpidMap_lock s;
     (fds, s, z) \<leftarrow> purge_loop E S (fm_map s) (s, z);
     s \<leftarrow> unlockS fdUpidMap_lock s;
     Some (fds, s, z)
   })"

definition listPids :: "'z site \<Rightarrow> 'c fm \<Rightarrow> (u32 list \<times> 'c fm) option" where
  "listPids S s = do {
     s \<leftarrow> lockS fdUpidMap_lock s;
     let pids = map (\<lambda>c. upid_pid (ms_upid c))
       (filter (\<lambda>c. upid_node (ms_upid c) = get_node_id (si_machine_id S)) (fm_map s));
     s \<leftarrow> unlockS fdUpidMap_lock s;
     Some (pids, s)
   }"

text \<open>The result is the code and the descriptor of the last entry the loop looked at.\<close>

fun removePid_loop :: "'c env \<Rightarrow> 'z site \<Rightarrow> u32 \<Rightarrow> map_struct list \<Rightarrow> fd \<Rightarrow> ('c, 'z) mon
     \<Rightarrow> (int \<times> fd \<times> ('c, 'z) mon) option" where
  "removePid_loop E S pid [] temp_fd m = Some (0, temp_fd, m)"
| "removePid_loop E S pid (c # cs) temp_fd m =
     (if upid_node (ms_upid c) = get_node_id (si_machine_id S) \<and> upid_pid (ms_upid c) = pid
      then do {
        let (r, mp) = del_fd_from_map (ms_fd c) (fm_map (fst m));
        let rc = (if r < 0 then - 1 else 0 :: int);
        s \<leftarrow> unlockS fdUpidMap_lock ((fst m)\<lparr>fm_map := mp\<rparr>);
        (r, s) \<leftarrow> if ms_client c \<noteq> NULL then flush_ufd E S (ms_fd c) (ms_client c) s else Some (- 1, s);
        let rc = (if r < 0 then - 1 else rc);
        (r, m) \<leftarrow> remove_upid S (upid_deref (ms_upid c)) (s, snd m);
        let rc = (if r < 0 then - 1 else rc);
        Some (rc, ms_fd c, m)
      }
      else removePid_loop E S pid cs (ms_fd c) m)"

definition removePid :: "'c env \<Rightarrow> 'z site \<Rightarrow> u32 \<Rightarrow> ('c, 'z) mon \<Rightarrow> (int \<times> ('c, 'z) mon) option" where
  "removePid E S pidToRemove = (\<lambda>(s, z). do {
     s \<leftarrow> lockS fdUpidMap_lock s;
     (rc, temp_fd, s, z) \<leftarrow> removePid_loop E S pidToRemove (fm_map s) 0 (s, z);
     s \<leftarrow> unlockS fdUpidMap_lock s;
     Some (if temp_fd = 0 then - 1 else rc, s, z)
   })"

text \<open>
  The virtual function \<^verbatim>\<open>getUsage\<close> of the client is an argument. The base class, and with it the
  in-process store and the memcached one, has an empty body for a function that returns a value.
\<close>

definition base_getUsage :: "'c \<Rightarrow> int option" where
  "base_getUsage c = None"

definition getExternRAMUsage :: "'z site \<Rightarrow> ('c \<Rightarrow> int option) \<Rightarrow> 'c fm \<Rightarrow> (int \<times> 'c fm) option" where
  "getExternRAMUsage S getUsage s = do {
     s \<leftarrow> lockS fdUpidMap_lock s;
     let fd = (case List.find (\<lambda>c. upid_node (ms_upid c) = get_node_id (si_machine_id S)) (fm_map s) of
                 None \<Rightarrow> - 1 | Some c \<Rightarrow> ms_fd c);
     s \<leftarrow> unlockS fdUpidMap_lock s;
     if fd > 0
     then do {
       client \<leftarrow> fm_client fd s;
       if client \<noteq> NULL
       then do {
         c \<leftarrow> client_get (fm_clients s) client;
         n \<leftarrow> getUsage c;
         Some (n, s)
       }
       else Some (0, s)
     }
     else Some (0, s)
   }"

end
