(* ===== verification/Flush_Props.thy ===== *)
theory Flush_Props
  imports Userfault_Flush Lock_Balance Page_Cache_Inv
begin

text \<open>
  What forgetting an application does: the mutexes stay balanced except where \<^verbatim>\<open>removePid\<close> unlocks
  twice, a sweep removes exactly the dead processes, and a flush leaves no trace of a descriptor in the
  buffers nor in the in-process store.
\<close>

section \<open>Mutexes\<close>

lemma removePage_locks: "fm_removePage E c k s = Some (r, s') \<Longrightarrow> lks s' = lks s"
  by (auto simp: fm_removePage_def Let_def locks_kept split: locks_split)

lemma delete_locks: "delete_from_externram E f c a s = Some (r, s') \<Longrightarrow> lks s' = lks s"
  by (auto simp: delete_from_externram_def locks_kept split: locks_split dest!: removePage_locks)

lemma delete_loop_locks: "delete_loop E f c as s = Some s' \<Longrightarrow> lks s' = lks s"
proof (induction as arbitrary: s)
  case (Cons a as)
  then show ?case by (auto simp: locks_kept split: locks_split dest!: delete_locks Cons.IH)
qed simp

lemma flush_loop_locks: "flush_loop E f as s = Some s' \<Longrightarrow> lks s' = lks s"
proof (induction as arbitrary: s)
  case (Cons a as)
  then show ?case by (auto simp: locks_kept split: locks_split dest!: evict_to_externram_locks Cons.IH)
qed simp

lemma removeUFD_pc_loop_locks: "removeUFD_pc_loop st f xs s = Some (n, s') \<Longrightarrow> lks s' = lks s"
proof (induction xs arbitrary: n s)
  case (Cons x xs)
  then show ?case by (auto simp: locks_kept Let_def split: locks_split dest!: locks_client_calls Cons.IH)
qed simp

lemma flush_page_cache_locks: "flush_page_cache E S f c m s = Some (n, s') \<Longrightarrow> lks s' = lks s"
  by (auto simp: flush_page_cache_def removeUFDFromPageCache_def removeUFDFromPageHash_def Let_def locks_kept
      split: locks_split dest!: locks_dest removeUFD_pc_loop_locks delete_loop_locks)

lemma flush_buffers_locks: "flush_buffers E S f c m s = Some (n, s') \<Longrightarrow> lks s' = lks s"
  by (auto simp: flush_buffers_def Let_def locks_kept split: locks_split
      dest!: locks_dest flush_page_cache_locks flush_loop_locks)

lemma flush_ufd_locks: "flush_ufd E S f c s = Some (n, s') \<Longrightarrow> lks s' = lks s"
  by (auto simp: flush_ufd_def split: locks_split dest!: flush_buffers_locks)

lemma remove_upid_locks: "remove_upid S u (s, z) = Some (r, s', z') \<Longrightarrow> lks s' = lks s"
  by (auto simp: remove_upid_def split: locks_split dest!: locks_dest)

lemma lks_map [simp]: "lks (s\<lparr>fm_map := m\<rparr>) = lks s"
  by (simp add: lks_def)

text \<open>The entry of a process on this node.\<close>

definition entry_of :: "'z site \<Rightarrow> u32 \<Rightarrow> map_struct \<Rightarrow> bool" where
  "entry_of S pid c \<longleftrightarrow> upid_node (ms_upid c) = get_node_id (si_machine_id S) \<and> upid_pid (ms_upid c) = pid"

lemma removePid_loop_found:
  assumes "removePid_loop E S pid cs t (s, z) = Some (rc, t', s', z')" "\<exists>c \<in> set cs. entry_of S pid c"
  shows "lks s' = drop_lock fdUpidMap_lock (lks s)"
  using assms
proof (induction cs arbitrary: t)
  case (Cons c cs)
  show ?case
  proof (cases "entry_of S pid c")
    case True
    then show ?thesis using Cons.prems(1)
      by (auto simp: entry_of_def Let_def split: locks_split dest!: locks_dest flush_ufd_locks remove_upid_locks)
  next
    case False
    then have "removePid_loop E S pid (c # cs) t (s, z) = removePid_loop E S pid cs (ms_fd c) (s, z)"
      by (auto simp: entry_of_def)
    then show ?thesis using Cons.IH [of "ms_fd c"] Cons.prems False by auto
  qed
qed simp

lemma removePid_loop_absent:
  assumes "\<forall>c \<in> set cs. \<not> entry_of S pid c"
  shows "removePid_loop E S pid cs t m = Some (0, if cs = [] then t else ms_fd (last cs), m)"
  using assms by (induction cs arbitrary: t) (auto simp: entry_of_def)

lemma lockS_map: "lockS l s = Some s' \<Longrightarrow> fm_map s' = fm_map s"
  by (auto simp: lockS_def)

section \<open>Zookeeper\<close>

lemma del_loop_OK:
  assumes "del_loop Z u s = Some (r, s')"
  shows "\<forall>x. r = Some (Some x) \<longrightarrow> x = ZOOKEEPER_UPID_OK"
proof -
  have "\<forall>x. fst (r, s') = Some (Some x) \<longrightarrow> x = ZOOKEEPER_UPID_OK"
    by (rule del_loop.raw_induct [where P = "\<lambda>Z u s r. \<forall>x. fst r = Some (Some x) \<longrightarrow> x = ZOOKEEPER_UPID_OK", OF _ assms])
      (auto simp: del_body_def Let_def split: if_splits option.splits prod.splits)
  then show ?thesis by simp
qed

lemma del_attempts_code:
  "del_attempts Z hp u n s = Some (r, s') \<Longrightarrow> r = ZOOKEEPER_UPID_OK \<or> r = ZOOKEEPER_UPID_ERR"
  by (induction n arbitrary: s)
    (auto simp: Let_def del_out_def split: if_splits option.splits prod.splits dest: del_loop_OK)

lemma remove_upid_zero:
  assumes "remove_upid S u (s, z) = Some (r, m)"
  shows "r = 0"
  using assms
  by (auto simp: remove_upid_def del_upid_def zk_consts split: Option.bind_splits prod.splits dest!: del_attempts_code)

lemma remove_upid_ok:
  assumes "zk_ok (si_zk S) nodes" "zh_lock \<notin> fm_locks s"
  shows "\<exists>z'. remove_upid S u (s, z) = Some (0, s, z') \<and> nodes (snd z') = nodes (snd z) - {upidFullPath u}"
  using del_upid_ok [OF assms(1), of "si_conn S" u "fst z" "snd z"] assms(2)
  by (auto simp: remove_upid_def lockS_def unlockS_def zk_consts insert_Diff_if)

section \<open>A sweep without the page cache\<close>

lemma flush_ufd_plain:
  assumes "\<not> PAGECACHE (e_cfg E)" "si_stale S" "lru_wf (fm_lru s)" "lru_lock \<notin> fm_locks s" "c \<noteq> NULL"
    "length (il (fm_lru s)) < 2 ^ 31"
  shows "\<exists>st. flush_ufd E S f c s
    = Some (0, s\<lparr>fm_lru := (fm_lru s)\<lparr>il := filter (\<lambda>n. cn_ufd n \<noteq> f) (il (fm_lru s))\<rparr>, fm_stats := st\<rparr>)"
proof -
  obtain st where st: "removeUFDFromLRU True f (fm_lru s, fm_stats s)
     = Some (map (\<lambda>n. cn_hashcode n AND PAGE_MASK) (filter (\<lambda>n. cn_ufd n = f) (il (fm_lru s))),
             (fm_lru s)\<lparr>il := filter (\<lambda>n. cn_ufd n \<noteq> f) (il (fm_lru s))\<rparr>, st)"
    using removeUFDFromLRU_stale [OF assms(3)] by blast
  have "length (filter (\<lambda>n. cn_ufd n = f) (il (fm_lru s))) < 2 ^ 31"
    using assms(6) length_filter_le le_less_trans by blast
  then show ?thesis using assms st
    by (cases s) (auto simp: flush_ufd_def flush_buffers_def lockS_def unlockS_def put_lru_def insert_Diff_if
        DELETE_FROM_EXTERNRAM_def FLUSH_TO_EXTERNRAM_def Let_def)
qed

text \<open>The entry of a dead process of this node.\<close>

definition dead_entry :: "'z site \<Rightarrow> (u32 \<Rightarrow> int) \<Rightarrow> map_struct \<Rightarrow> bool" where
  "dead_entry S pgid c \<longleftrightarrow>
     upid_node (ms_upid c) = get_node_id (si_machine_id S) \<and> pgid (upid_pid (ms_upid c)) < 0"

text \<open>What a sweep leaves alone: everything but the map, the LRU buffer and its gauge.\<close>

definition same_rest :: "'c fm \<Rightarrow> 'c fm \<Rightarrow> bool" where
  "same_rest s s' \<longleftrightarrow> fm_mach s' = fm_mach s \<and> fm_clients s' = fm_clients s \<and> fm_tio s' = fm_tio s
     \<and> fm_pc s' = fm_pc s \<and> max_num_items (fm_lru s') = max_num_items (fm_lru s) \<and> fm_err s' = fm_err s"

lemma same_rest_refl [simp]: "same_rest s s"
  by (simp add: same_rest_def)

lemma same_rest_trans: "same_rest s s1 \<Longrightarrow> same_rest s1 s2 \<Longrightarrow> same_rest s s2"
  by (simp add: same_rest_def)

lemma lru_wf_filter: "lru_wf l \<Longrightarrow> lru_wf (l\<lparr>il := filter P (il l)\<rparr>)"
  by (auto simp: lru_wf_def distinct_map_filter)

text \<open>The conditions of a sweep, and what it leaves.\<close>

definition sweep_ok :: "'c env \<Rightarrow> 'z site \<Rightarrow> ('z \<Rightarrow> string set) \<Rightarrow> (u32 \<Rightarrow> int) \<Rightarrow> bool" where
  "sweep_ok E S nodes pgid \<longleftrightarrow> \<not> PAGECACHE (e_cfg E) \<and> si_stale S \<and> zk_ok (si_zk S) nodes
     \<and> (\<forall>p M. k_getpgid (e_kernel E) p M = pgid p)"

definition swept :: "map_struct list \<Rightarrow> cache_node list \<Rightarrow> cache_node list" where
  "swept ds ns = filter (\<lambda>n. \<forall>c \<in> set ds. ms_client c \<noteq> NULL \<longrightarrow> cn_ufd n \<noteq> ms_fd c) ns"

definition unmapped :: "map_struct list \<Rightarrow> map_struct list \<Rightarrow> map_struct list" where
  "unmapped ds m = fold (\<lambda>c m. snd (del_fd_from_map (ms_fd c) m)) ds m"

lemma swept_simps [simp]: "swept [] ns = ns"
  "swept (d # ds) ns = swept ds (filter (\<lambda>n. ms_client d \<noteq> NULL \<longrightarrow> cn_ufd n \<noteq> ms_fd d) ns)"
  by (auto simp: swept_def intro: filter_cong)

lemma purge_one:
  assumes "sweep_ok E S nodes pgid" "lru_wf (fm_lru s)" "length (il (fm_lru s)) < 2 ^ 31"
    "fm_locks s = {fdUpidMap_lock}" "dead_entry S pgid c"
  obtains s1 z1 where "purge_loop E S (c # cs) (s, z)
      = map_option (\<lambda>(fds, m). (ms_fd c # fds, m)) (purge_loop E S cs (s1, z1))"
    "fm_locks s1 = {fdUpidMap_lock}" "same_rest s s1"
    "fm_map s1 = snd (del_fd_from_map (ms_fd c) (fm_map s))"
    "fm_lru s1 = (fm_lru s)\<lparr>il := swept [c] (il (fm_lru s))\<rparr>"
    "nodes (snd z1) = nodes (snd z) - {upidFullPath (upid_deref (ms_upid c))}"
proof -
  define m1 where "m1 = snd (del_fd_from_map (ms_fd c) (fm_map s))"
  define sa where "sa = s\<lparr>fm_map := m1, fm_locks := {}\<rparr>"
  have a: "unlockS fdUpidMap_lock (s\<lparr>fm_map := m1\<rparr>) = Some sa"
    using assms(4) by (simp add: unlockS_def mutex_unlock_def sa_def)
  have sa: "fm_lru sa = fm_lru s" "fm_locks sa = {}" "fm_map sa = m1" "same_rest s sa"
    by (simp_all add: sa_def same_rest_def)
  obtain r st where b: "(if ms_client c \<noteq> NULL then flush_ufd E S (ms_fd c) (ms_client c) sa else Some (0, sa))
      = Some (r, sa\<lparr>fm_lru := (fm_lru s)\<lparr>il := swept [c] (il (fm_lru s))\<rparr>, fm_stats := st\<rparr>)"
  proof (cases "ms_client c = NULL")
    case True
    then show thesis using that [of 0 "fm_stats s"] sa(1) by (simp add: sa_def)
  next
    case False
    then show thesis using flush_ufd_plain [of E S sa "ms_client c" "ms_fd c"] assms sa that
      by (auto simp: sweep_ok_def)
  qed
  define sb where "sb = sa\<lparr>fm_lru := (fm_lru s)\<lparr>il := swept [c] (il (fm_lru s))\<rparr>, fm_stats := st\<rparr>"
  have "zh_lock \<notin> fm_locks sb" using sa(2) by (simp add: sb_def)
  then obtain z1 where z1: "remove_upid S (upid_deref (ms_upid c)) (sb, z) = Some (0, sb, z1)"
    "nodes (snd z1) = nodes (snd z) - {upidFullPath (upid_deref (ms_upid c))}"
    using remove_upid_ok assms(1) unfolding sweep_ok_def by blast
  define s1 where "s1 = sb\<lparr>fm_locks := {fdUpidMap_lock}\<rparr>"
  have l: "lockS fdUpidMap_lock sb = Some s1" using sa(2) by (simp add: lockS_def s1_def sb_def)
  have "purge_loop E S (c # cs) (s, z)
      = map_option (\<lambda>(fds, m). (ms_fd c # fds, m)) (purge_loop E S cs (s1, z1))"
    using assms(1,5) a b [folded sb_def] z1(1) l
    by (auto simp: sweep_ok_def dead_entry_def Let_def m1_def [symmetric] map_option_case split: option.splits)
  moreover have "same_rest s s1" using sa(4) by (simp add: same_rest_def s1_def sb_def)
  ultimately show thesis using that [of s1 z1] z1(2) sa(3) by (simp add: s1_def sb_def m1_def)
qed

lemma purge_loop_spec:
  assumes "sweep_ok E S nodes pgid" "lru_wf (fm_lru s)" "length (il (fm_lru s)) < 2 ^ 31"
    "fm_locks s = {fdUpidMap_lock}"
  shows "\<exists>s' z'. purge_loop E S cs (s, z) = Some (map ms_fd (filter (dead_entry S pgid) cs), s', z')
    \<and> lks s' = Held {fdUpidMap_lock} \<and> same_rest s s'
    \<and> fm_map s' = unmapped (filter (dead_entry S pgid) cs) (fm_map s)
    \<and> il (fm_lru s') = swept (filter (dead_entry S pgid) cs) (il (fm_lru s))
    \<and> nodes (snd z') = nodes (snd z) - (\<lambda>c. upidFullPath (upid_deref (ms_upid c))) ` set (filter (dead_entry S pgid) cs)"
  using assms(2-4)
proof (induction cs arbitrary: s z)
  case Nil
  then show ?case by (simp add: lks_def unmapped_def)
next
  case (Cons c cs)
  show ?case
  proof (cases "dead_entry S pgid c")
    case False
    then have "purge_loop E S (c # cs) (s, z) = purge_loop E S cs (s, z)"
      using assms(1) by (auto simp: dead_entry_def sweep_ok_def)
    then show ?thesis using Cons.IH [OF Cons.prems] False by simp
  next
    case True
    obtain s1 z1 where 1: "purge_loop E S (c # cs) (s, z)
        = map_option (\<lambda>(fds, m). (ms_fd c # fds, m)) (purge_loop E S cs (s1, z1))"
      "fm_locks s1 = {fdUpidMap_lock}" "same_rest s s1"
      "fm_map s1 = snd (del_fd_from_map (ms_fd c) (fm_map s))"
      "fm_lru s1 = (fm_lru s)\<lparr>il := swept [c] (il (fm_lru s))\<rparr>"
      "nodes (snd z1) = nodes (snd z) - {upidFullPath (upid_deref (ms_upid c))}"
      using purge_one [OF assms(1) Cons.prems True] .
    have l: "lru_wf (fm_lru s1)" "length (il (fm_lru s1)) < 2 ^ 31"
      using 1(5) lru_wf_filter [OF Cons.prems(1)] Cons.prems(2) le_less_trans [OF length_filter_le]
      by (auto simp: swept_def)
    obtain s2 z2 where "purge_loop E S cs (s1, z1) = Some (map ms_fd (filter (dead_entry S pgid) cs), s2, z2)"
      "lks s2 = Held {fdUpidMap_lock}" "same_rest s1 s2"
      "fm_map s2 = unmapped (filter (dead_entry S pgid) cs) (fm_map s1)"
      "il (fm_lru s2) = swept (filter (dead_entry S pgid) cs) (il (fm_lru s1))"
      "nodes (snd z2) = nodes (snd z1) - (\<lambda>c. upidFullPath (upid_deref (ms_upid c))) ` set (filter (dead_entry S pgid) cs)"
      using Cons.IH [OF l 1(2), of z1] by blast
    then show ?thesis using 1 True same_rest_trans [OF 1(3)]
      by (auto simp: unmapped_def)
  qed
qed

lemma unmapped_filter:
  assumes "distinct_keys ms_fd m" "set ds \<subseteq> set m" "distinct ds"
  shows "unmapped ds m = filter (\<lambda>c. c \<notin> set ds) m"
  using assms
proof (induction ds arbitrary: m)
  case (Cons d ds)
  have d: "d \<in> set m" using Cons.prems by simp
  have e: "snd (del_fd_from_map (ms_fd d) m) = filter (\<lambda>c. ms_fd c \<noteq> ms_fd d) m"
    using d Cons.prems(1) hash_find_None [of ms_fd "ms_fd d" m]
    by (auto simp: del_fd_from_map_def hash_delete_drop drop_key_def split: option.splits)
  have e2: "filter (\<lambda>c. ms_fd c \<noteq> ms_fd d) m = filter (\<lambda>c. c \<noteq> d) m"
    using d Cons.prems(1) by (intro filter_cong) (auto simp: distinct_map inj_on_def)
  have "unmapped ds (filter (\<lambda>c. c \<noteq> d) m) = filter (\<lambda>c. c \<notin> set ds) (filter (\<lambda>c. c \<noteq> d) m)"
    using Cons.prems by (intro Cons.IH) (auto simp: distinct_map_filter)
  then show ?case using e e2 by (simp add: unmapped_def conj_commute)
qed (simp add: unmapped_def)

lemma purgeDeadUpids_spec:
  assumes "sweep_ok E S nodes pgid" "\<not> THREADED_WRITE_TO_EXTERNRAM (e_cfg E)" "lru_wf (fm_lru s)"
    "length (il (fm_lru s)) < 2 ^ 31" "fm_locks s = {}" "distinct_keys ms_fd (fm_map s)"
  shows "\<exists>s' z'. purgeDeadUpids E S (s, z) = Some (map ms_fd (filter (dead_entry S pgid) (fm_map s)), s', z')
    \<and> fm_locks s' = {} \<and> same_rest s s'
    \<and> fm_map s' = filter (\<lambda>c. \<not> dead_entry S pgid c) (fm_map s)
    \<and> il (fm_lru s') = swept (filter (dead_entry S pgid) (fm_map s)) (il (fm_lru s))
    \<and> nodes (snd z') = nodes (snd z) - (\<lambda>c. upidFullPath (upid_deref (ms_upid c))) ` set (filter (dead_entry S pgid) (fm_map s))"
proof -
  let ?D = "filter (dead_entry S pgid) (fm_map s)"
  let ?s = "s\<lparr>fm_locks := {fdUpidMap_lock}\<rparr>"
  obtain s1 z1 where 1: "purge_loop E S (fm_map s) (?s, z) = Some (map ms_fd ?D, s1, z1)"
    "lks s1 = Held {fdUpidMap_lock}" "same_rest ?s s1" "fm_map s1 = unmapped ?D (fm_map s)"
    "il (fm_lru s1) = swept ?D (il (fm_lru s))"
    "nodes (snd z1) = nodes (snd z) - (\<lambda>c. upidFullPath (upid_deref (ms_upid c))) ` set ?D"
    using purge_loop_spec [OF assms(1), of ?s "fm_map s" z] assms(3-5) by auto
  have "distinct ?D" using assms(6) by (simp add: distinct_map)
  then have "unmapped ?D (fm_map s) = filter (\<lambda>c. c \<notin> set ?D) (fm_map s)"
    using assms(6) by (intro unmapped_filter) auto
  also have "\<dots> = filter (\<lambda>c. \<not> dead_entry S pgid c) (fm_map s)" by (intro filter_cong) auto
  finally have m: "fm_map s1 = filter (\<lambda>c. \<not> dead_entry S pgid c) (fm_map s)" using 1(4) by simp
  have u: "unlockS fdUpidMap_lock s1 = Some (s1\<lparr>fm_locks := {}\<rparr>)"
    using 1(2) by (simp add: unlockS_def mutex_unlock_def lks_def)
  have "purgeDeadUpids E S (s, z) = Some (map ms_fd ?D, s1\<lparr>fm_locks := {}\<rparr>, z1)"
    using assms(2,5) 1(1) u by (simp add: purgeDeadUpids_def flush_write_list_def lockS_def)
  moreover have "same_rest s (s1\<lparr>fm_locks := {}\<rparr>)" using 1(3) by (simp add: same_rest_def)
  ultimately show ?thesis using 1(5,6) m by simp
qed

lemma upid_deref_small: "unat (upid_deref u) < 256"
  using take_bit_nat_less_exp [of 8 "unat u"] by (simp add: upid_deref_def unsigned_ucast_eq unsigned_take_bit_eq)

section \<open>A flush with the page cache\<close>

text \<open>The parts of the state that removing pages from the page cache does not touch.\<close>

definition same_outer :: "'c fm \<Rightarrow> 'c fm \<Rightarrow> bool" where
  "same_outer s s' \<longleftrightarrow> fm_clients s' = fm_clients s \<and> fm_locks s' = fm_locks s \<and> fm_lru s' = fm_lru s"

lemma removeUFD_pc_loop_total:
  assumes "distinct (map pcn_address xs)"
    "\<forall>n \<in> set xs. pcn_address n \<noteq> NULL \<and> pcn_address n \<in> mallocd (fm_mach s)"
  shows "\<exists>n s'. removeUFD_pc_loop True f xs s = Some (n, s') \<and> n \<le> length xs \<and> same_outer s s'"
  using assms
proof (induction xs arbitrary: s)
  case Nil
  then show ?case by (simp add: same_outer_def)
next
  case (Cons x xs)
  show ?case
  proof (cases "pcn_fd x = f")
    case True
    let ?M = "(fm_mach s)\<lparr>bufs := (bufs (fm_mach s))(pcn_address x := None),
      mallocd := mallocd (fm_mach s) - {pcn_address x}\<rparr>"
    let ?s = "upd_pc (\<lambda>p. p\<lparr>pc_il := pc_erase (pcn_hashcode x, f) (pc_il p)\<rparr>) (s\<lparr>fm_mach := ?M\<rparr>)"
    have "fm_free (pcn_address x) s = Some (s\<lparr>fm_mach := ?M\<rparr>)"
      using Cons.prems by (simp add: fm_free_def c_free_def)
    moreover have "pcn_address n \<noteq> pcn_address x" if "n \<in> set xs" for n
      using Cons.prems(1) that by (metis distinct_keys_Cons_ne)
    then obtain n s' where "removeUFD_pc_loop True f xs ?s = Some (n, s')" "n \<le> length xs" "same_outer ?s s'"
      using Cons.IH [of ?s] Cons.prems by (auto simp: upd_pc_def)
    ultimately show ?thesis using True by (auto simp: same_outer_def upd_pc_def)
  next
    case False
    then show ?thesis using Cons.IH [of s] Cons.prems by auto
  qed
qed

lemma delete_loop_noop:
  assumes "e_backend E = noop_backend K" "client_get (fm_clients s) p = Some c"
  shows "\<exists>s' c'. delete_loop E f p as s = Some s' \<and> client_get (fm_clients s') p = Some c'
    \<and> kv c' = (\<lambda>k. if k \<in> set as then None else kv c k)
    \<and> fm_lru s' = fm_lru s \<and> fm_pc s' = fm_pc s \<and> fm_locks s' = fm_locks s"
  using assms(2)
proof (induction as arbitrary: s c)
  case (Cons a as)
  obtain r M c1 where r: "noop_remove K a (fm_mach s, c) = Some (r, M, c1)"
    by (cases "kv c a") (auto simp: noop_remove_def)
  then have kv1: "kv c1 = (kv c)(a := None)" by (auto simp: noop_remove_def fun_upd_idem split: option.splits)
  let ?s = "s\<lparr>fm_mach := M, fm_clients := client_set p c1 (fm_clients s)\<rparr>"
  have p: "p \<noteq> NULL" using Cons.prems by auto
  have "fm_removePage E p a s = Some (r, ?s)"
    using Cons.prems r assms(1) by (simp add: fm_removePage_def removePage_def noop_backend_def put_client_def)
  then have "delete_loop E f p (a # as) s = delete_loop E f p as ?s"
    using p by (simp add: delete_from_externram_def)
  moreover have "client_get (fm_clients ?s) p = Some c1" using client_get_set [OF Cons.prems] by simp
  then obtain s' c' where "delete_loop E f p as ?s = Some s'" "client_get (fm_clients s') p = Some c'"
    "kv c' = (\<lambda>k. if k \<in> set as then None else kv c1 k)" "fm_lru s' = fm_lru s" "fm_pc s' = fm_pc s"
    "fm_locks s' = fm_locks s" using Cons.IH [of ?s c1] by auto
  ultimately show ?case using kv1 by (intro exI conjI) (assumption | simp add: fun_eq_iff)+
qed auto

text \<open>
  The keys of the pages of a descriptor that the ownership hash marks as remote. The store may hold more: a
  page that has been faulted back in is marked as the application's, and a read does not delete it there.
\<close>

definition marked_remote :: "fd \<Rightarrow> 'c fm \<Rightarrow> u64 set" where
  "marked_remote f s = {h AND PAGE_MASK | h pi. ph_find h f s = Some pi \<and> ownership pi = OWNERSHIP_EXTERNRAM}"

lemma removeUFDFromPageHash_keys:
  assumes "distinct_keys fst (pagehash (fm_pc s))" "removeUFDFromPageHash f s = (ks, s')"
  shows "set ks = marked_remote f s" "ph_find h f s' = None"
proof -
  let ?P = "\<lambda>((h, g), pi). g = f \<and> ownership pi = OWNERSHIP_EXTERNRAM"
  have e: "ph_find h f s = Some pi \<longleftrightarrow> ((h, f), pi) \<in> set (pagehash (fm_pc s))" for h pi
    using assms(1) by (simp add: ph_find_def map_of_eq_Some_iff)
  have "marked_remote f s = (\<lambda>((h, g), pi). h AND PAGE_MASK) ` {x \<in> set (pagehash (fm_pc s)). ?P x}"
    unfolding marked_remote_def e by (force simp: image_iff)
  moreover have "ks = map (\<lambda>((h, g), pi). h AND PAGE_MASK) (filter ?P (pagehash (fm_pc s)))"
    using assms(2) by (simp add: removeUFDFromPageHash_def)
  ultimately show "set ks = marked_remote f s" by simp
  have "(\<lambda>((h :: u64, g), pi). g \<noteq> f) = (\<lambda>(k, v :: PageInfo). snd k \<noteq> f)" by auto
  then show "ph_find h f s' = None"
    using assms(2) map_of_filter_key [of "\<lambda>k. snd k \<noteq> f" "pagehash (fm_pc s)" "(h, f)"]
    by (auto simp: removeUFDFromPageHash_def ph_find_def upd_pc_def)
qed

lemma flush_page_cache_forgets:
  assumes "e_backend E = noop_backend K" "si_stale S" "si_value_kept S" "pc_wf (fm_pc s)" "buffers_ok s"
    "length (pc_il (fm_pc s)) < 2 ^ 31" "length (pagehash (fm_pc s)) < 2 ^ 31"
    "pagecache_lock \<notin> fm_locks s" "client_get (fm_clients s) p = Some c"
  shows "\<exists>n s' c'. flush_page_cache E S f p DELETE_FROM_EXTERNRAM s = Some (n, s') \<and> 0 \<le> n
    \<and> fm_lru s' = fm_lru s \<and> fm_locks s' = fm_locks s
    \<and> (\<forall>x \<in> set (pc_il (fm_pc s')). pcn_fd x \<noteq> f) \<and> (\<forall>h. ph_find h f s' = None)
    \<and> client_get (fm_clients s') p = Some c'
    \<and> kv c' = (\<lambda>k. if k \<in> marked_remote f s then None else kv c k)"
proof -
  define s0 where "s0 = s\<lparr>fm_locks := insert pagecache_lock (fm_locks s)\<rparr>"
  have 0: "lockS pagecache_lock s = Some s0" using assms(8) by (simp add: lockS_def s0_def)
  have pc0: "fm_pc s0 = fm_pc s" "fm_mach s0 = fm_mach s" by (simp_all add: s0_def)
  obtain m s1 where 1: "removeUFD_pc_loop True f (pc_il (fm_pc s0)) s0 = Some (m, s1)"
    "m \<le> length (pc_il (fm_pc s0))" "same_outer s0 s1"
    using removeUFD_pc_loop_total [of "pc_il (fm_pc s0)" s0 f] assms(5) pc0 by (auto simp: buffers_ok_def)
  have r1: "removeUFDFromPageCache True f s0 = Some (int m, s1)"
    using 1 assms(6) pc0 by (simp add: removeUFDFromPageCache_def)
  note set1 = removeUFD_pc_loop_set [OF 1(1)]
  have d0: "distinct_keys pcn_key (pc_il (fm_pc s0))" "distinct_keys fst (pagehash (fm_pc s0))"
    using assms(4) pc0 by (auto simp: pc_wf_def)
  have il1: "\<forall>x \<in> set (pc_il (fm_pc s1)). pcn_fd x \<noteq> f" and h1: "pagehash (fm_pc s1) = pagehash (fm_pc s)"
    using set1 [OF d0(1)] pc0 by auto
  obtain ks s2 where 2: "removeUFDFromPageHash f s1 = (ks, s2)" by force
  have rp: "marked_remote f s1 = marked_remote f s" using h1 by (simp add: marked_remote_def ph_find_def)
  have k2: "set ks = marked_remote f s" "\<And>h. ph_find h f s2 = None"
    using removeUFDFromPageHash_keys [OF _ 2] h1 d0(2) pc0 rp by auto
  have "s2 = snd (removeUFDFromPageHash f s1)" using 2 by simp
  then have s2: "fm_clients s2 = fm_clients s" "fm_locks s2 = insert pagecache_lock (fm_locks s)" "fm_lru s2 = fm_lru s"
    "pc_il (fm_pc s2) = pc_il (fm_pc s1)"
    using 1(3) by (simp_all add: removeUFDFromPageHash_def upd_pc_def same_outer_def s0_def)
  have "ks = fst (removeUFDFromPageHash f s1)" using 2 by simp
  then have "length ks \<le> length (pagehash (fm_pc s))" using h1 by (simp add: removeUFDFromPageHash_def)
  then have len: "int_of_size (length ks) = int (length ks)" using assms(7) by simp
  define s3 where "s3 = s2\<lparr>fm_locks := fm_locks s\<rparr>"
  have 3: "unlockS pagecache_lock s2 = Some s3"
    using s2(2) assms(8) by (simp add: unlockS_def s3_def insert_Diff_if)
  obtain s' c' where 4: "delete_loop E f p ks s3 = Some s'" "client_get (fm_clients s') p = Some c'"
    "kv c' = (\<lambda>k. if k \<in> set ks then None else kv c k)" "fm_lru s' = fm_lru s3" "fm_pc s' = fm_pc s3"
    "fm_locks s' = fm_locks s3"
    using delete_loop_noop [OF assms(1), of s3 p c f ks] assms(9) s2(1) by (auto simp: s3_def)
  have "flush_page_cache E S f p DELETE_FROM_EXTERNRAM s = Some (int (length ks), s')"
    using 0 r1 2 len 3 4(1) assms(2,3) by (simp add: flush_page_cache_def)
  moreover have "ph_find h f s' = None" for h using k2(2) [of h] 4(5) by (simp add: ph_find_def s3_def)
  ultimately show ?thesis using 4(2-6) s2(3,4) il1 k2(1) by (intro exI conjI) (assumption | simp add: s3_def)+
qed

lemma flush_ufd_cached:
  assumes "e_backend E = noop_backend K" "PAGECACHE (e_cfg E)" "si_stale S" "si_value_kept S"
    "lru_wf (fm_lru s)" "length (il (fm_lru s)) < 2 ^ 31" "pc_wf (fm_pc s)" "buffers_ok s"
    "length (pc_il (fm_pc s)) < 2 ^ 31" "length (pagehash (fm_pc s)) < 2 ^ 31"
    "fm_locks s = {}" "client_get (fm_clients s) p = Some c"
  shows "\<exists>s' c'. flush_ufd E S f p s = Some (0, s') \<and> fm_locks s' = {}
    \<and> il (fm_lru s') = filter (\<lambda>n. cn_ufd n \<noteq> f) (il (fm_lru s))
    \<and> (\<forall>x \<in> set (pc_il (fm_pc s')). pcn_fd x \<noteq> f) \<and> (\<forall>h. ph_find h f s' = None)
    \<and> client_get (fm_clients s') p = Some c'
    \<and> kv c' = (\<lambda>k. if k \<in> marked_remote f s then None else kv c k)"
proof -
  obtain st where st: "removeUFDFromLRU True f (fm_lru s, fm_stats s)
     = Some (map (\<lambda>n. cn_hashcode n AND PAGE_MASK) (filter (\<lambda>n. cn_ufd n = f) (il (fm_lru s))),
             (fm_lru s)\<lparr>il := filter (\<lambda>n. cn_ufd n \<noteq> f) (il (fm_lru s))\<rparr>, st)"
    using removeUFDFromLRU_stale [OF assms(5)] by blast
  define s1 where "s1 = s\<lparr>fm_lru := (fm_lru s)\<lparr>il := filter (\<lambda>n. cn_ufd n \<noteq> f) (il (fm_lru s))\<rparr>, fm_stats := st\<rparr>"
  have l: "lockS lru_lock s = Some (s\<lparr>fm_locks := {lru_lock}\<rparr>)" using assms(11) by (simp add: lockS_def)
  have u: "unlockS lru_lock (put_lru ((fm_lru s)\<lparr>il := filter (\<lambda>n. cn_ufd n \<noteq> f) (il (fm_lru s))\<rparr>, st)
      (s\<lparr>fm_locks := {lru_lock}\<rparr>)) = Some s1"
    using assms(11) by (cases s) (simp add: unlockS_def mutex_unlock_def put_lru_def s1_def)
  have "length (filter (\<lambda>n. cn_ufd n = f) (il (fm_lru s))) < 2 ^ 31"
    using assms(6) length_filter_le le_less_trans by blast
  then have b: "flush_buffers E S f p DELETE_FROM_EXTERNRAM s = flush_page_cache E S f p DELETE_FROM_EXTERNRAM s1"
    using l u st assms(2,3)
    by (simp add: flush_buffers_def DELETE_FROM_EXTERNRAM_def FLUSH_TO_EXTERNRAM_def Let_def)
  have s1: "fm_pc s1 = fm_pc s" "fm_mach s1 = fm_mach s" "fm_clients s1 = fm_clients s" "fm_locks s1 = {}"
    "il (fm_lru s1) = filter (\<lambda>n. cn_ufd n \<noteq> f) (il (fm_lru s))" "marked_remote f s1 = marked_remote f s"
    using assms(11) by (simp_all add: s1_def marked_remote_def ph_find_def)
  obtain n s' c' where "flush_page_cache E S f p DELETE_FROM_EXTERNRAM s1 = Some (n, s')" "0 \<le> n"
    "fm_lru s' = fm_lru s1" "fm_locks s' = fm_locks s1" "\<forall>x \<in> set (pc_il (fm_pc s')). pcn_fd x \<noteq> f"
    "\<forall>h. ph_find h f s' = None" "client_get (fm_clients s') p = Some c'"
    "kv c' = (\<lambda>k. if k \<in> marked_remote f s1 then None else kv c k)"
    using flush_page_cache_forgets [OF assms(1,3,4), of s1 p c f] assms(7-10,12) s1 by (auto simp: buffers_ok_def)
  moreover have "p \<noteq> NULL" using assms(12) by auto
  ultimately show ?thesis using b s1 by (intro exI conjI) (assumption | simp add: flush_ufd_def)+
qed

section \<open>Examples\<close>

text \<open>Process 5 of this node is dead; its descriptor is 7.\<close>

definition sweep_env :: "noop_client env" where
  "sweep_env = plain_env\<lparr>e_kernel := sim_kernel\<lparr>k_getpgid := \<lambda>p M. if p = 5 then - 1 else 1\<rparr>\<rparr>"

definition sweep_site :: "string set site" where
  "sweep_site = \<lparr>si_zk = sim_zk, si_conn = [], si_machine_id = [], si_stale = True, si_value_kept = True\<rparr>"

definition sweep_fm :: "noop_client fm" where
  "sweep_fm = sample_fm\<lparr>fm_lru := \<lparr>il = [\<lparr>cn_hashcode = 4103, cn_ufd = 7\<rparr>, \<lparr>cn_hashcode = 4105, cn_ufd = 9\<rparr>], max_num_items = 8\<rparr>,
     fm_map := [\<lparr>ms_fd = 7, ms_upid = upid_pack 0 5 1, ms_client = 1\<rparr>,
                \<lparr>ms_fd = 9, ms_upid = upid_pack 0 6 1, ms_client = 1\<rparr>]\<rparr>"

lemma sweep_example:
  "sweep_ok sweep_env sweep_site id (\<lambda>p. if p = 5 then - 1 else 1)"
  "\<not> THREADED_WRITE_TO_EXTERNRAM (e_cfg sweep_env)" "lru_wf (fm_lru sweep_fm)"
  "length (il (fm_lru sweep_fm)) < 2 ^ 31" "fm_locks sweep_fm = {}" "distinct_keys ms_fd (fm_map sweep_fm)"
  by (simp_all add: sweep_ok_def sweep_env_def plain_env_def plain_config_def sweep_site_def sim_zk_ok
      sweep_fm_def sample_fm_def lru_wf_def node_ok_def hash_page_key_def PAGE_MASK_def PAGE_SIZE_def)

lemma node_id_0: "get_node_id [] = 0"
  by (simp add: get_node_id_def jenkins_hash_def)

text \<open>
  Descriptor 7 has a page in the cache, a page in the store and a page that has been faulted back in and is
  in the store as well.
\<close>

definition flush_fm :: "noop_client fm" where
  "flush_fm = cached_fm\<lparr>fm_clients := [\<lparr>kv = [8192 \<mapsto> 131072, 12288 \<mapsto> 135168]\<rparr>],
     fm_pc := (fm_pc cached_fm)\<lparr>pagehash := ((8192, 7), \<lparr>ref_count = 0, ownership = OWNERSHIP_EXTERNRAM, is_zeropage = False\<rparr>)
       # ((12288, 7), \<lparr>ref_count = 0, ownership = OWNERSHIP_APPLICATION, is_zeropage = False\<rparr>)
       # pagehash (fm_pc cached_fm)\<rparr>\<rparr>"

section \<open>Theorems\<close>

text \<open>
  C15. Flushing a dead descriptor, in the builds with the page cache, leaves no trace of it in the tables of
  the monitor: no page of it stays in the LRU buffer, the page cache or the ownership hash. Of the
  in-process store exactly the keys are deleted that the ownership hash marked as remote for the
  descriptor; the copy of a page that had been faulted back in stays, as the example shows. Every
  mutex is released. This holds as far as the C++ side behaves as the compiler happens to make it
  behave (the freed link and the missing return value).
\<close>

theorem flush_ufd_forgets:
  assumes "e_backend E = noop_backend K" "PAGECACHE (e_cfg E)" "si_stale S" "si_value_kept S"
    "lru_wf (fm_lru s)" "length (il (fm_lru s)) < 2 ^ 31" "pc_wf (fm_pc s)" "buffers_ok s"
    "length (pc_il (fm_pc s)) < 2 ^ 31" "length (pagehash (fm_pc s)) < 2 ^ 31"
    "fm_locks s = {}" "client_get (fm_clients s) p = Some c"
  shows "\<exists>s' c'. flush_ufd E S f p s = Some (0, s') \<and> fm_locks s' = {}
    \<and> (\<forall>n \<in> set (il (fm_lru s')). cn_ufd n \<noteq> f) \<and> (\<forall>x \<in> set (pc_il (fm_pc s')). pcn_fd x \<noteq> f)
    \<and> (\<forall>h. ph_find h f s' = None) \<and> client_get (fm_clients s') p = Some c'
    \<and> (\<forall>k. kv c' k = (if k \<in> marked_remote f s then None else kv c k))"
  using flush_ufd_cached [OF assms, of f] by fastforce

theorem flush_ufd_forgets_witness:
  "\<exists>s' c'. flush_ufd (sample_env cache_config) sweep_site 7 1 flush_fm = Some (0, s')
    \<and> (\<forall>h. ph_find h 7 s' = None) \<and> client_get (fm_clients s') 1 = Some c'
    \<and> kv c' 8192 = None \<and> kv c' 12288 = Some 135168"
proof -
  have r: "8192 \<in> marked_remote 7 flush_fm"
    by (auto simp: marked_remote_def flush_fm_def ph_find_def PAGE_MASK_def PAGE_SIZE_def intro!: exI [of _ 8192])
  have n: "12288 \<notin> marked_remote 7 flush_fm"
    by (auto simp: marked_remote_def flush_fm_def cached_fm_def ph_find_def PAGE_MASK_def PAGE_SIZE_def
        OWNERSHIP_EXTERNRAM_def OWNERSHIP_APPLICATION_def OWNERSHIP_PAGE_CACHE_def split: if_splits)
  have "\<exists>s' c'. flush_ufd (sample_env cache_config) sweep_site 7 1 flush_fm = Some (0, s') \<and> fm_locks s' = {}
    \<and> (\<forall>n \<in> set (il (fm_lru s')). cn_ufd n \<noteq> 7) \<and> (\<forall>x \<in> set (pc_il (fm_pc s')). pcn_fd x \<noteq> 7)
    \<and> (\<forall>h. ph_find h 7 s' = None) \<and> client_get (fm_clients s') 1 = Some c'
    \<and> (\<forall>k. kv c' k = (if k \<in> marked_remote 7 flush_fm then None else kv \<lparr>kv = [8192 \<mapsto> 131072, 12288 \<mapsto> 135168]\<rparr> k))"
    by (rule flush_ufd_forgets [where K = sim_kernel])
      (auto simp: flush_fm_def cached_fm_def buffered_fm_def sample_fm_def sweep_site_def cache_config_def lru_wf_def
        pc_wf_def owned_by_cache_def buffers_ok_def client_get_def machine0_def newPageCache_def pcn_key_def
        OWNERSHIP_EXTERNRAM_def OWNERSHIP_PAGE_CACHE_def OWNERSHIP_APPLICATION_def split: if_splits)
  with r n show ?thesis by auto
qed

text \<open>
  C17. The sweep for dead processes, in the build without page cache and write thread, returns the
  descriptors of exactly the dead processes of this node, removes exactly their entries from the map
  and their pages from the LRU buffer, and releases every mutex. The remote store is not touched.
\<close>

theorem purge_removes_dead:
  assumes "sweep_ok E S nodes pgid" "\<not> THREADED_WRITE_TO_EXTERNRAM (e_cfg E)" "lru_wf (fm_lru s)"
    "length (il (fm_lru s)) < 2 ^ 31" "fm_locks s = {}" "distinct_keys ms_fd (fm_map s)"
  shows "\<exists>s' z'. purgeDeadUpids E S (s, z) = Some (map ms_fd (filter (dead_entry S pgid) (fm_map s)), s', z')
    \<and> fm_map s' = filter (\<lambda>c. \<not> dead_entry S pgid c) (fm_map s)
    \<and> il (fm_lru s') = swept (filter (dead_entry S pgid) (fm_map s)) (il (fm_lru s))
    \<and> fm_locks s' = {} \<and> fm_clients s' = fm_clients s \<and> fm_mach s' = fm_mach s"
  using purgeDeadUpids_spec [OF assms, of z] by (auto simp: same_rest_def)

theorem purge_removes_dead_witness:
  "\<exists>s' z'. purgeDeadUpids sweep_env sweep_site (sweep_fm, zk_local0, {}) = Some ([7], s', z')
    \<and> map ms_fd (fm_map s') = [9] \<and> map cn_ufd (il (fm_lru s')) = [9]"
proof -
  have d: "dead_entry sweep_site (\<lambda>p. if p = 5 then - 1 else 1) \<lparr>ms_fd = f, ms_upid = upid_pack 0 p 1, ms_client = 1\<rparr>
      \<longleftrightarrow> p = 5" for f p by (simp add: dead_entry_def sweep_site_def node_id_0)
  have m: "fm_map sweep_fm = [\<lparr>ms_fd = 7, ms_upid = upid_pack 0 5 1, ms_client = 1\<rparr>,
                \<lparr>ms_fd = 9, ms_upid = upid_pack 0 6 1, ms_client = 1\<rparr>]"
    "il (fm_lru sweep_fm) = [\<lparr>cn_hashcode = 4103, cn_ufd = 7\<rparr>, \<lparr>cn_hashcode = 4105, cn_ufd = 9\<rparr>]"
    by (simp_all add: sweep_fm_def)
  show ?thesis using purge_removes_dead [OF sweep_example, of "(zk_local0, {})"] by (auto simp: m d)
qed

text \<open>
  C40. The sweep leaves the dead process registered in Zookeeper: it passes the first byte of the upid
  instead of the upid, so that a upid of 256 or more stays registered for ever.
\<close>

theorem purge_leaves_upid:
  assumes "sweep_ok E S nodes pgid" "\<not> THREADED_WRITE_TO_EXTERNRAM (e_cfg E)" "lru_wf (fm_lru s)"
    "length (il (fm_lru s)) < 2 ^ 31" "fm_locks s = {}" "distinct_keys ms_fd (fm_map s)"
    and "purgeDeadUpids E S (s, z) = Some (fds, s', z')" "256 \<le> unat u"
  shows "upid_known nodes (snd z') u = upid_known nodes (snd z) u"
proof -
  have "u \<noteq> upid_deref v" for v using upid_deref_small [of v] assms(8) by (metis linorder_not_less)
  then show ?thesis using purgeDeadUpids_spec [OF assms(1-6), of z] assms(7) by (auto simp: upid_known_def)
qed

theorem purge_leaves_upid_witness:
  "\<exists>fds s' z'. purgeDeadUpids sweep_env sweep_site (sweep_fm, zk_local0, {upidFullPath (upid_pack 0 5 1)}) = Some (fds, s', z')
    \<and> fds = [7] \<and> upid_known id (snd z') (upid_pack 0 5 1)"
proof -
  let ?z = "(zk_local0, {upidFullPath (upid_pack 0 5 1)})"
  obtain fds s' z' where p: "purgeDeadUpids sweep_env sweep_site (sweep_fm, ?z) = Some (fds, s', z')"
    and f: "fds = map ms_fd (filter (dead_entry sweep_site (\<lambda>p. if p = 5 then - 1 else 1)) (fm_map sweep_fm))"
    using purgeDeadUpids_spec [OF sweep_example, of ?z] by blast
  have "fds = [7]" unfolding f by (simp add: sweep_fm_def dead_entry_def sweep_site_def node_id_0)
  moreover have "256 \<le> unat (upid_pack 0 5 1)" by (simp add: upid_pack_def)
  ultimately show ?thesis using purge_leaves_upid [OF sweep_example p] p by (simp add: upid_known_def)
qed

text \<open>
  The failure of the removal from Zookeeper is never reported: \<^verbatim>\<open>remove_upid\<close> tests for a negative
  code, and \<^verbatim>\<open>del_upid\<close> returns 0 or 2.
\<close>

lemma remove_upid_reports_success:
  assumes "remove_upid S u (s, z) = Some (r, m)"
  shows "r = 0"
  using assms by (rule remove_upid_zero)

lemma remove_upid_reports_success_witness:
  "\<exists>m. remove_upid sweep_site 300 (sweep_fm, zk_local0, {}) = Some (0, m)"
proof -
  obtain r m where "remove_upid sweep_site 300 (sweep_fm, zk_local0, {}) = Some (r, m)"
    using remove_upid_ok [of sweep_site id sweep_fm 300 "(zk_local0, {})"] sweep_example(1,5)
    by (auto simp: sweep_ok_def)
  then show ?thesis using remove_upid_reports_success by blast
qed

text \<open>
  \<^verbatim>\<open>removePid\<close> of a registered process leaves the loop after it unlocked the map and unlocks it again:
  whatever the build, no such call has defined behaviour.
\<close>

lemma removePid_unlocks_twice:
  assumes "\<exists>c \<in> set (fm_map s). entry_of S pid c"
  shows "removePid E S pid (s, z) = None"
proof (rule ccontr)
  assume "removePid E S pid (s, z) \<noteq> None"
  then obtain s1 rc t s2 z2 s3 where 1: "lockS fdUpidMap_lock s = Some s1"
    "removePid_loop E S pid (fm_map s1) 0 (s1, z) = Some (rc, t, s2, z2)" "unlockS fdUpidMap_lock s2 = Some s3"
    by (auto simp: removePid_def split: Option.bind_splits)
  have "lks s2 = drop_lock fdUpidMap_lock (lks s1)"
    using removePid_loop_found [OF 1(2)] assms lockS_map [OF 1(1)] by simp
  then have "lks s2 = lks s" "free_lock fdUpidMap_lock (lks s)" using lockS_locks [OF 1(1)] by auto
  then show False using unlockS_held_before [OF 1(3)] by simp
qed

lemma removePid_unlocks_twice_witness:
  "removePid sweep_env sweep_site 5 (sweep_fm, zk_local0, {}) = None"
  by (rule removePid_unlocks_twice) (simp add: sweep_fm_def entry_of_def sweep_site_def node_id_0)

text \<open>
  \<^verbatim>\<open>removePid\<close> of a process that is not registered reports success whenever some other process is: the
  variable it tests holds the last descriptor it looked at, not the one it found.
\<close>

lemma removePid_absent_succeeds:
  assumes "\<forall>c \<in> set (fm_map s). \<not> entry_of S pid c" "fm_map s \<noteq> []" "ms_fd (last (fm_map s)) \<noteq> 0"
    "fdUpidMap_lock \<notin> fm_locks s"
  shows "removePid E S pid (s, z) = Some (0, s, z)"
  using assms
  by (cases s) (auto simp: removePid_def removePid_loop_absent lockS_def unlockS_def insert_Diff_if)

lemma removePid_absent_succeeds_witness:
  "removePid sweep_env sweep_site 4 (sweep_fm, zk_local0, {}) = Some (0, sweep_fm, zk_local0, {})"
  by (rule removePid_absent_succeeds) (simp_all add: sweep_fm_def entry_of_def)

text \<open>
  Asking for the usage of a store whose class does not define \<^verbatim>\<open>getUsage\<close> is undefined as soon as an
  application of this node is registered.
\<close>

lemma usage_undefined:
  assumes "fdUpidMap_lock \<notin> fm_locks s" "fm_map s = c # cs" "distinct_keys ms_fd (fm_map s)"
    "upid_node (ms_upid c) = get_node_id (si_machine_id S)" "0 < ms_fd c" "ms_client c \<noteq> NULL"
  shows "getExternRAMUsage S base_getUsage s = None"
proof -
  have "hash_find ms_fd (ms_fd c) (fm_map s) = Some c"
    using hash_find_iff [OF assms(3)] assms(2) by simp
  then show ?thesis using assms
    by (auto simp: getExternRAMUsage_def base_getUsage_def lockS_def unlockS_def Let_def fm_client_def
        get_client_by_fd_def insert_Diff_if split: Option.bind_splits)
qed

lemma usage_undefined_witness:
  "getExternRAMUsage sweep_site base_getUsage sweep_fm = None"
  by (rule usage_undefined [where c = "\<lparr>ms_fd = 7, ms_upid = upid_pack 0 5 1, ms_client = 1\<rparr>"])
    (simp_all add: sweep_fm_def sweep_site_def node_id_0)

end
