(* ===== verification/Handover.thy ===== *)
theory Handover
  imports Userfault_Flush Samples
begin

text \<open>
  The rest of \<^verbatim>\<open>lib/userfault/userfault.c\<close>: \<^verbatim>\<open>recv_fd\<close>, which receives the descriptor of an application,
  finds it a fresh upid and registers it, and the creation and destruction of the shared state.
\<close>

section \<open>Receiving a descriptor\<close>

text \<open>
  What \<^verbatim>\<open>recvmsg\<close> delivers: its result, whether the control data was truncated, the process id in the
  message and the control messages (level, type, descriptor).
\<close>

record fd_message =
  msg_res :: int
  msg_ctrunc :: bool
  msg_pid :: u32
  msg_control :: "(int \<times> int \<times> fd) list"

definition SOL_SOCKET :: int where "SOL_SOCKET = 1"
definition SCM_RIGHTS :: int where "SCM_RIGHTS = 1"

fun control_fd :: "(int \<times> int \<times> fd) list \<Rightarrow> fd \<Rightarrow> fd" where
  "control_fd [] sent_fd = sent_fd"
| "control_fd ((level, type, f) # ms) sent_fd =
     control_fd ms (if level = SOL_SOCKET \<and> type = SCM_RIGHTS then f else sent_fd)"

text \<open>
  The next counter: \<open>rnd\<close> are the results of \<^verbatim>\<open>rand\<close>, \<open>j\<close> counts the calls. The remainder modulo
  \<^verbatim>\<open>2<<16\<close> is cut to 16 bits. \<open>None\<close> says that all values have been tried.
\<close>

definition next_counter :: "(nat \<Rightarrow> nat) \<Rightarrow> nat \<Rightarrow> u16 \<Rightarrow> u16 \<Rightarrow> (nat \<times> u16 \<times> u16) option" where
  "next_counter rnd j counter orig_value =
     (let c = counter + 1 in
      if c = 1 then let v = word_of_nat (rnd j mod 131072) in Some (j + 1, v, v)
      else if c = orig_value then None
      else if c = 0 then Some (j, c + 1, orig_value)
      else Some (j, c, orig_value))"

text \<open>The registration that follows the answer of Zookeeper; \<open>config\<close> is the address of the store.\<close>

definition accept_upid :: "'c env \<Rightarrow> string \<Rightarrow> fd \<Rightarrow> u64 \<Rightarrow> 'c fm \<Rightarrow> 'c fm option" where
  "accept_upid E config sent_fd upid s = do {
     m \<leftarrow> add_upid_in_map sent_fd upid (fm_locks s) (fm_map s);
     (r, (m, cs), logged) \<leftarrow> register_with_externram (e_backend E) config sent_fd (fm_locks s) (m, fm_clients s);
     let s = s\<lparr>fm_map := m, fm_clients := cs\<rparr>;
     Some (if logged then log_err s else s)
   }"

definition try_upid :: "'z site \<Rightarrow> u64 \<Rightarrow> ('c, 'z) mon \<Rightarrow> (int \<times> ('c, 'z) mon) option" where
  "try_upid S upid = (\<lambda>(s, z). do {
     s \<leftarrow> lockS zh_lock s;
     (r, z) \<leftarrow> add_upid (si_zk S) (si_conn S) upid z;
     s \<leftarrow> unlockS zh_lock s;
     Some (r, s, z)
   })"

partial_function (option) upid_loop :: "'c env \<Rightarrow> 'z site \<Rightarrow> string \<Rightarrow> (nat \<Rightarrow> nat) \<Rightarrow> u32 \<Rightarrow> fd \<Rightarrow> nat \<Rightarrow> u16 \<Rightarrow> u16
     \<Rightarrow> ('c, 'z) mon \<Rightarrow> (fd \<times> ('c, 'z) mon) option" where
  "upid_loop E S config rnd pid sent_fd j counter orig m =
     (case next_counter rnd j counter orig of
        None \<Rightarrow> Some (- 1, m)
      | Some (j, counter, orig) \<Rightarrow>
          let upid = upid_pack (get_node_id (si_machine_id S)) pid counter in
          Option.bind (try_upid S upid m) (\<lambda>(ret, s, z).
            if ret = ZOOKEEPER_UPID_EXIST then upid_loop E S config rnd pid sent_fd j counter orig (s, z)
            else if ret = ZOOKEEPER_UPID_OK
            then map_option (\<lambda>s. (sent_fd, s, z)) (accept_upid E config sent_fd upid s)
            else if ret = ZOOKEEPER_UPID_ERR then Some (- 1, log_err s, z)
            else upid_loop E S config rnd pid sent_fd j counter orig (s, z)))"

definition recv_fd :: "'c env \<Rightarrow> 'z site \<Rightarrow> string \<Rightarrow> (nat \<Rightarrow> nat) \<Rightarrow> fd_message \<Rightarrow> ('c, 'z) mon
     \<Rightarrow> (fd \<times> ('c, 'z) mon) option" where
  "recv_fd E S config rnd msg m =
     (if msg_res msg \<le> 0 then Some (msg_res msg, m)
      else if msg_ctrunc msg then Some (- 1, m)
      else upid_loop E S config rnd (msg_pid msg) (control_fd (msg_control msg) (- 1)) 0 0 0 m)"

section \<open>Creation and destruction\<close>

text \<open>
  \<^verbatim>\<open>create_buffers\<close>. The initialisation of a mutex does not fail with the default attributes. The
  command line options \<^verbatim>\<open>cache_size\<close>, \<^verbatim>\<open>page_cache_size\<close>, \<^verbatim>\<open>prefetch_size\<close> and \<^verbatim>\<open>enable_prefetch\<close> are arguments.
\<close>

definition create_buffers :: "'c env \<Rightarrow> int \<Rightarrow> int \<Rightarrow> int \<Rightarrow> bool \<Rightarrow> 'c fm \<Rightarrow> int \<times> 'c fm" where
  "create_buffers E cache_size page_cache_size pf_size pf s =
     (let s = put_lru (newLRUBuffer cache_size (fm_stats s)) (s\<lparr>fm_locks := {}\<rparr>);
          s = (if THREADED_WRITE_TO_EXTERNRAM (e_cfg E) then upd_tio (\<lambda>t. t\<lparr>flushed_write_sem := 0\<rparr>) s else s);
          s = (if PAGECACHE (e_cfg E) then s\<lparr>fm_pc := newPageCache page_cache_size pf_size pf\<rparr> else s);
          (p, s) = get_local_tmp_page E s;
          s = s\<lparr>fm_read_tmp_page := p\<rparr>
      in if p = NULL then (- 1, log_err s) else (0, s))"

text \<open>Destroying a mutex that is held is undefined. The semaphores have no waiters.\<close>

definition clean_up_lock :: "'c env \<Rightarrow> 'c fm \<Rightarrow> 'c fm option" where
  "clean_up_lock E s =
     (if fm_locks s \<noteq> {} then None
      else Some (s\<lparr>fm_mach := snd (k_munmap (e_kernel E) (fm_read_tmp_page s) (fm_mach s))\<rparr>))"

section \<open>The order of the counters\<close>

text \<open>
  Starting at a value \<open>r\<close> other than 0 the loop tries \<open>r, \<dots>, 65535, 1, \<dots>, r - 1\<close>; \<open>pos r n\<close> is the place of
  the value \<open>n\<close> in that order.
\<close>

definition pos :: "u16 \<Rightarrow> u16 \<Rightarrow> nat" where
  "pos r c = (if unat r \<le> unat c then unat c - unat r else unat c + 65535 - unat r)"

lemma u16_lt: "unat (c :: u16) < 65536"
  using unsigned_less [of c] by simp

lemma u16_nonzero: "(c :: u16) \<noteq> 0 \<Longrightarrow> 0 < unat c"
  by (metis gr0I unat_eq_zero)

lemma u16_succ:
  assumes "unat (c :: u16) < 65535"
  shows "unat (c + 1) = unat c + 1"
  using assms by (simp add: unat_word_ariths)

lemma u16_succ_max:
  assumes "\<not> unat (c :: u16) < 65535"
  shows "c + 1 = 0"
proof -
  have "unat c = 65535" using assms u16_lt [of c] by simp
  then have "unat (c + 1) = 0" by (simp add: unat_word_ariths)
  then show ?thesis by (simp add: unat_eq_zero)
qed

lemma u16_eq: "(c :: u16) = d \<longleftrightarrow> unat c = unat d"
  by (rule word_unat_eq_iff)

lemma next_counter_step:
  assumes "c \<noteq> 0" "r \<noteq> 0" "pos r c < 65534"
  obtains c' where "next_counter rnd j c r = Some (j, c', r)" "c' \<noteq> 0" "pos r c' = Suc (pos r c)"
proof (cases "unat c < 65535")
  case True
  have n: "unat (c + 1) = unat c + 1" using u16_succ [OF True] .
  have p: "0 < unat c" "0 < unat r" "unat r < 65536" using assms u16_nonzero u16_lt by auto
  have "c + 1 \<noteq> 1" "c + 1 \<noteq> 0" using n p by (auto simp: u16_eq)
  moreover have "c + 1 \<noteq> r" using n p assms(3) by (auto simp: u16_eq pos_def split: if_splits)
  moreover have "pos r (c + 1) = Suc (pos r c)"
    using n p \<open>c + 1 \<noteq> r\<close> by (auto simp: u16_eq pos_def)
  ultimately show thesis using that [of "c + 1"] by (simp add: next_counter_def Let_def)
next
  case False
  have z: "c + 1 = 0" using u16_succ_max [OF False] .
  have c: "unat c = 65535" using False u16_lt [of c] by simp
  have p: "0 < unat r" "unat r < 65536" using assms u16_nonzero u16_lt by auto
  have "unat r \<noteq> 1" using c assms(3) p by (auto simp: pos_def)
  then have "pos r 1 = Suc (pos r c)" using c p by (simp add: pos_def)
  then show thesis using that [of 1] z assms(2) by (simp add: next_counter_def Let_def)
qed

lemma pos_lt: "c \<noteq> 0 \<Longrightarrow> r \<noteq> 0 \<Longrightarrow> pos r c < 65535"
  using u16_nonzero [of c] u16_nonzero [of r] u16_lt [of c] u16_lt [of r] by (auto simp: pos_def)

lemma pos_self: "pos r r = 0"
  by (simp add: pos_def)

lemma pos_inj: "c \<noteq> 0 \<Longrightarrow> d \<noteq> 0 \<Longrightarrow> r \<noteq> 0 \<Longrightarrow> pos r c = pos r d \<Longrightarrow> c = d"
  using u16_nonzero [of c] u16_nonzero [of d] u16_nonzero [of r] u16_lt [of c] u16_lt [of d] u16_lt [of r]
  by (auto simp: pos_def u16_eq split: if_splits)

section \<open>Finding a upid\<close>

lemma try_upid_ok:
  assumes "zk_ok (si_zk S) nodes" "zh_lock \<notin> fm_locks s"
  obtains z' where "try_upid S u (s, z)
      = Some (if upid_known nodes (snd z) u then ZOOKEEPER_UPID_EXIST else ZOOKEEPER_UPID_OK, s, z')"
    "\<forall>v. upid_known nodes (snd z') v \<longleftrightarrow> v = u \<or> upid_known nodes (snd z) v"
proof -
  obtain l' z' where a: "add_upid (si_zk S) (si_conn S) u z
      = Some (if upid_known nodes (snd z) u then ZOOKEEPER_UPID_EXIST else ZOOKEEPER_UPID_OK, l', z')"
    "nodes z' = insert (upidFullPath u) (insert upidPath (nodes (snd z)))"
    using add_upid_ok [OF assms(1), of "si_conn S" u "fst z" "snd z"] by auto
  then have "try_upid S u (s, z)
      = Some (if upid_known nodes (snd z) u then ZOOKEEPER_UPID_EXIST else ZOOKEEPER_UPID_OK, s, l', z')"
    using assms(2) by (cases s) (simp add: try_upid_def lockS_def unlockS_def)
  then show thesis using that [of "(l', z')"] a(2) by (auto simp: upid_known_def)
qed

abbreviation upid_of :: "'z site \<Rightarrow> u32 \<Rightarrow> u16 \<Rightarrow> u64" where
  "upid_of S pid c \<equiv> upid_pack (get_node_id (si_machine_id S)) pid c"

text \<open>The outcome of a search that ends with a registration.\<close>

definition handed_over :: "'c env \<Rightarrow> 'z site \<Rightarrow> ('z \<Rightarrow> string set) \<Rightarrow> string \<Rightarrow> u32 \<Rightarrow> fd \<Rightarrow> ('c, 'z) mon
     \<Rightarrow> (fd \<times> ('c, 'z) mon) option \<Rightarrow> bool" where
  "handed_over E S nodes config pid f = (\<lambda>(s, z) r. \<exists>d s' z'. r = Some (f, s', z')
     \<and> \<not> upid_known nodes (snd z) (upid_of S pid d) \<and> accept_upid E config f (upid_of S pid d) s = Some s'
     \<and> (\<forall>v. upid_known nodes (snd z') v \<longleftrightarrow> v = upid_of S pid d \<or> upid_known nodes (snd z) v))"

lemma handed_over_known:
  assumes "handed_over E S nodes config pid f (s, z1) r" "\<forall>v. upid_known nodes (snd z1) v \<longleftrightarrow> upid_known nodes (snd z) v"
  shows "handed_over E S nodes config pid f (s, z) r"
  using assms unfolding handed_over_def prod.case by simp

text \<open>One value: a fresh one is registered, a known one leads to the next.\<close>

lemma upid_loop_try:
  assumes "zk_ok (si_zk S) nodes" "zh_lock \<notin> fm_locks s" "\<And>u. \<exists>s'. accept_upid E config f u s = Some s'"
    and nx: "next_counter rnd j c r = Some (j', c', r')"
  obtains (fresh) "\<not> upid_known nodes (snd z) (upid_of S pid c')"
      "handed_over E S nodes config pid f (s, z) (upid_loop E S config rnd pid f j c r (s, z))"
  | (taken) z' where "upid_known nodes (snd z) (upid_of S pid c')"
      "\<forall>v. upid_known nodes (snd z') v \<longleftrightarrow> upid_known nodes (snd z) v"
      "upid_loop E S config rnd pid f j c r (s, z) = upid_loop E S config rnd pid f j' c' r' (s, z')"
proof -
  let ?u = "upid_of S pid c'"
  obtain z' where t: "try_upid S ?u (s, z)
      = Some (if upid_known nodes (snd z) ?u then ZOOKEEPER_UPID_EXIST else ZOOKEEPER_UPID_OK, s, z')"
    "\<forall>v. upid_known nodes (snd z') v \<longleftrightarrow> v = ?u \<or> upid_known nodes (snd z) v"
    using try_upid_ok [OF assms(1,2)] .
  show thesis
  proof (cases "upid_known nodes (snd z) ?u")
    case True
    then have "upid_loop E S config rnd pid f j c r (s, z) = upid_loop E S config rnd pid f j' c' r' (s, z')"
      using t(1) nx by (subst upid_loop.simps) (simp add: Let_def)
    then show thesis using taken [of z'] True t(2) by metis
  next
    case False
    obtain s' where a: "accept_upid E config f ?u s = Some s'" using assms(3) by blast
    have "upid_loop E S config rnd pid f j c r (s, z) = Some (f, s', z')"
      using t(1) nx False a by (subst upid_loop.simps) (simp add: Let_def zk_consts)
    then have "handed_over E S nodes config pid f (s, z) (upid_loop E S config rnd pid f j c r (s, z))"
      unfolding handed_over_def prod.case using False a t(2) by blast
    then show thesis using fresh False by blast
  qed
qed

lemma upid_loop_finds:
  assumes "zk_ok (si_zk S) nodes" "zh_lock \<notin> fm_locks s" "\<And>u. \<exists>s'. accept_upid E config f u s = Some s'"
    "r \<noteq> 0" "c0 \<noteq> 0" and "c \<noteq> 0" "\<not> upid_known nodes (snd z) (upid_of S pid c0)" "pos r c < pos r c0"
  shows "handed_over E S nodes config pid f (s, z) (upid_loop E S config rnd pid f j c r (s, z))"
  using assms(6-8)
proof (induction "pos r c0 - pos r c" arbitrary: c z rule: less_induct)
  case less
  have "pos r c < 65534" using less.prems(3) pos_lt [OF assms(5,4)] by simp
  then obtain c' where c': "next_counter rnd j c r = Some (j, c', r)" "c' \<noteq> 0" "pos r c' = Suc (pos r c)"
    using next_counter_step [OF less.prems(1) assms(4)] by blast
  show ?case
  proof (cases rule: upid_loop_try [OF assms(1-3) c'(1), where z = z and pid = pid, case_names fresh taken])
    case fresh
    then show ?thesis by blast
  next
    case (taken z')
    have "c' \<noteq> c0" using taken(1) less.prems(2) by blast
    then have lt: "pos r c' < pos r c0"
      using less.prems(3) c' pos_inj [OF c'(2) assms(5,4)] by fastforce
    have "handed_over E S nodes config pid f (s, z') (upid_loop E S config rnd pid f j c' r (s, z'))"
      using less.hyps [of c' z'] c' less.prems lt taken(2) by auto
    then show ?thesis using taken handed_over_known by metis
  qed
qed

text \<open>When every value is taken, the search comes back to where it started and gives up.\<close>

lemma upid_loop_exhausted:
  assumes "zk_ok (si_zk S) nodes" "zh_lock \<notin> fm_locks s" "\<And>u. \<exists>s'. accept_upid E config f u s = Some s'"
    "1 < unat r" and "c \<noteq> 0" "\<forall>d. d \<noteq> 0 \<longrightarrow> upid_known nodes (snd z) (upid_of S pid d)"
  shows "\<exists>z'. upid_loop E S config rnd pid f j c r (s, z) = Some (- 1, s, z')
    \<and> (\<forall>v. upid_known nodes (snd z') v \<longleftrightarrow> upid_known nodes (snd z) v)"
  using assms(5,6)
proof (induction "65535 - pos r c" arbitrary: c z rule: less_induct)
  case less
  have r: "r \<noteq> 0" using assms(4) by auto
  show ?case
  proof (cases "pos r c < 65534")
    case True
    then obtain c' where c': "next_counter rnd j c r = Some (j, c', r)" "c' \<noteq> 0" "pos r c' = Suc (pos r c)"
      using next_counter_step [OF less.prems(1) r] by blast
    show ?thesis
    proof (cases rule: upid_loop_try [OF assms(1-3) c'(1), where z = z and pid = pid, case_names fresh taken])
      case fresh
      then show ?thesis using less.prems(2) c'(2) by blast
    next
      case (taken z')
      then have "\<exists>z''. upid_loop E S config rnd pid f j c' r (s, z') = Some (- 1, s, z'')
          \<and> (\<forall>v. upid_known nodes (snd z'') v \<longleftrightarrow> upid_known nodes (snd z') v)"
        using less.hyps [of c' z'] c' less.prems True by auto
      then show ?thesis using taken(2,3) by auto
    qed
  next
    case False
    then have "pos r c = 65534" using pos_lt [OF less.prems(1) r] by simp
    then have "unat c + 1 = unat r" "unat c < 65535"
      using assms(4) u16_lt [of c] u16_lt [of r] u16_nonzero [OF less.prems(1)] by (auto simp: pos_def split: if_splits)
    then have "c + 1 = r" "c + 1 \<noteq> 1" using u16_succ [of c] assms(4) by (auto simp: u16_eq)
    then have "next_counter rnd j c r = None" by (simp add: next_counter_def Let_def)
    then have "upid_loop E S config rnd pid f j c r (s, z) = Some (- 1, s, z)"
      by (subst upid_loop.simps) simp
    then show ?thesis by blast
  qed
qed

text \<open>Starting at 1 it never does: the value 0, at which the counter wraps, is replaced by 1.\<close>

lemma next_counter_one:
  assumes "c \<noteq> 0"
  obtains c' where "next_counter rnd j c 1 = Some (j, c', 1)" "c' \<noteq> 0"
  using assms that by (cases "c + 1 = 0") (simp_all add: next_counter_def Let_def)

lemma upid_loop_endless:
  fixes nodes :: "'z \<Rightarrow> string set" and m :: "('c, 'z) mon"
  assumes "zk_ok (si_zk S) nodes" "zh_lock \<notin> fm_locks (fst m)" "c \<noteq> 0"
    "\<forall>d. d \<noteq> 0 \<longrightarrow> upid_known nodes (snd (snd m)) (upid_of S pid d)"
  shows "upid_loop E S config rnd pid f j c 1 m = None"
proof (rule ccontr)
  define Q where "Q = (\<lambda>(E :: 'c env) S (config :: string) (rnd :: nat \<Rightarrow> nat) pid (f :: fd) (j :: nat) (c :: u16) (r :: u16)
      (m :: ('c, 'z) mon) (y :: fd \<times> ('c, 'z) mon). \<not> (zk_ok (si_zk S) nodes \<and> zh_lock \<notin> fm_locks (fst m) \<and> c \<noteq> 0 \<and> r = 1
      \<and> (\<forall>d. d \<noteq> 0 \<longrightarrow> upid_known nodes (snd (snd m)) (upid_of S pid d))))"
  assume "upid_loop E S config rnd pid f j c 1 m \<noteq> None"
  then obtain y where y: "upid_loop E S config rnd pid f j c 1 m = Some y" by blast
  have "Q E S config rnd pid f j c 1 m y"
  proof (rule upid_loop.raw_induct [where P = Q, OF _ y])
    fix F E S config rnd pid f j c r m y
    assume IH: "\<And>E S config rnd pid f j c r m y. F E S config rnd pid f j c r m = Some y \<Longrightarrow> Q E S config rnd pid f j c r m y"
      and st: "(case next_counter rnd j c r of None \<Rightarrow> Some (- 1, m)
        | Some (j, counter, orig) \<Rightarrow>
          let upid = upid_of S pid counter in
          Option.bind (try_upid S upid m) (\<lambda>(ret, s, z).
            if ret = ZOOKEEPER_UPID_EXIST then F E S config rnd pid f j counter orig (s, z)
            else if ret = ZOOKEEPER_UPID_OK
            then map_option (\<lambda>s. (f, s, z)) (accept_upid E config f upid s)
            else if ret = ZOOKEEPER_UPID_ERR then Some (- 1, log_err s, z)
            else F E S config rnd pid f j counter orig (s, z))) = Some y"
    show "Q E S config rnd pid f j c r m y"
      unfolding Q_def
    proof
      assume a: "zk_ok (si_zk S) nodes \<and> zh_lock \<notin> fm_locks (fst m) \<and> c \<noteq> 0 \<and> r = 1
        \<and> (\<forall>d. d \<noteq> 0 \<longrightarrow> upid_known nodes (snd (snd m)) (upid_of S pid d))"
      obtain c' where c': "next_counter rnd j c 1 = Some (j, c', 1)" "c' \<noteq> 0" using next_counter_one a by blast
      obtain z' where "try_upid S (upid_of S pid c') (fst m, snd m) = Some (if upid_known nodes (snd (snd m)) (upid_of S pid c')
            then ZOOKEEPER_UPID_EXIST else ZOOKEEPER_UPID_OK, fst m, z')"
        "\<forall>v. upid_known nodes (snd z') v \<longleftrightarrow> v = upid_of S pid c' \<or> upid_known nodes (snd (snd m)) v"
        using try_upid_ok [of S nodes "fst m" "upid_of S pid c'" "snd m"] a by blast
      then have "F E S config rnd pid f j c' 1 (fst m, z') = Some y"
        "\<forall>d. d \<noteq> 0 \<longrightarrow> upid_known nodes (snd z') (upid_of S pid d)"
        using st a c' by (auto simp: Let_def)
      then show False using IH [of E S config rnd pid f j c' 1 "(fst m, z')" y] a c'(2) by (auto simp: Q_def)
    qed
  qed
  with assms show False unfolding Q_def by blast
qed

section \<open>The new entry\<close>

lemma accept_upid_spec:
  assumes "fdUpidMap_lock \<notin> fm_locks s" "f \<notin> ms_fd ` set (fm_map s)" "distinct_keys ms_fd (fm_map s)"
    "er_create (e_backend E) ramcloud_impl config u = Some c" "Suc (length (fm_clients s)) < 2 ^ 64"
  obtains s' p where "accept_upid E config f u s = Some s'" "p \<noteq> NULL"
    "fm_map s' = fm_map s @ [\<lparr>ms_fd = f, ms_upid = u, ms_client = p\<rparr>]"
    "client_get (fm_clients s') p = Some c" "fm_clients s' = fm_clients s @ [c]" "fm_locks s' = fm_locks s"
proof -
  let ?e = "\<lparr>ms_fd = f, ms_upid = u, ms_client = NULL\<rparr>"
  let ?p = "word_of_nat (Suc (length (fm_clients s))) :: ptr"
  have d: "distinct_keys ms_fd (fm_map s @ [?e])" using assms(2,3) by auto
  have h: "hash_find ms_fd f (fm_map s @ [?e]) = Some ?e" using hash_find_iff [OF d] by simp
  have u: "unat ?p = Suc (length (fm_clients s))" using assms(5) by (rule unat_u64_of_nat)
  then have p: "?p \<noteq> NULL" by (metis nat.distinct(1) unat_0)
  have set: "set_client f ?p (fm_map s @ [?e]) = fm_map s @ [\<lparr>ms_fd = f, ms_upid = u, ms_client = ?p\<rparr>]"
    by (simp add: set_client_def)
  let ?s = "s\<lparr>fm_map := fm_map s @ [\<lparr>ms_fd = f, ms_upid = u, ms_client = ?p\<rparr>], fm_clients := fm_clients s @ [c]\<rparr>"
  have "accept_upid E config f u s = Some ?s"
    using assms(1,4) h p set
    by (simp add: accept_upid_def add_upid_in_map_def register_with_externram_def fd_map_add_def Let_def
        newExternRAMClient_def)
  moreover have "client_get (fm_clients s @ [c]) ?p = Some c" using u p by (simp add: client_get_def nth_append)
  ultimately show thesis using that [of ?s ?p] p by simp
qed

lemma recv_fd_loop:
  assumes "0 < msg_res msg" "\<not> msg_ctrunc msg"
  shows "recv_fd E S config rnd msg m
    = upid_loop E S config rnd (msg_pid msg) (control_fd (msg_control msg) (- 1)) 0 0 0 m"
  using assms by (simp add: recv_fd_def)

definition drawn :: "(nat \<Rightarrow> nat) \<Rightarrow> nat \<Rightarrow> u16" where
  "drawn rnd i = word_of_nat (rnd i mod 131072)"

lemma next_counter_zero: "next_counter rnd j 0 r = Some (Suc j, drawn rnd j, drawn rnd j)"
  by (simp add: next_counter_def drawn_def Let_def)

lemma first_counter: "next_counter rnd 0 0 0 = Some (1, word_of_nat (rnd 0 mod 131072), word_of_nat (rnd 0 mod 131072))"
  by (simp add: next_counter_zero drawn_def)

section \<open>Examples\<close>

definition handover_site :: "string set site" where
  "handover_site = \<lparr>si_zk = sim_zk, si_conn = [], si_machine_id = [], si_stale = True, si_value_kept = True\<rparr>"

definition handover_msg :: fd_message where
  "handover_msg = \<lparr>msg_res = 4, msg_ctrunc = False, msg_pid = 5, msg_control = [(1, 1, 9)]\<rparr>"

lemma upid_pack_inj: "upid_pack n p c = upid_pack n' p' c' \<longleftrightarrow> n = n' \<and> p = p' \<and> c = c'"
  by (metis upid_counter_pack upid_node_pack upid_pid_pack)

section \<open>Theorems\<close>

text \<open>The descriptor that is received gets the first counter that is free for its process.\<close>

lemma recv_fd_fresh:
  assumes "zk_ok (si_zk S) nodes" "fm_locks s = {}" "distinct_keys ms_fd (fm_map s)"
    and "control_fd (msg_control msg) (- 1) = f" "f \<notin> ms_fd ` set (fm_map s)" "0 < msg_res msg" "\<not> msg_ctrunc msg"
    and "\<forall>u. \<exists>c. er_create (e_backend E) ramcloud_impl config u = Some c" "Suc (length (fm_clients s)) < 2 ^ 64"
    and "(word_of_nat (rnd 0 mod 131072) :: u16) \<noteq> 0"
    and "c0 \<noteq> 0" "\<not> upid_known nodes (snd z) (upid_pack (get_node_id (si_machine_id S)) (msg_pid msg) c0)"
  shows "\<exists>d s' z' p. recv_fd E S config rnd msg (s, z) = Some (f, s', z') \<and> p \<noteq> NULL
    \<and> \<not> upid_known nodes (snd z) (upid_pack (get_node_id (si_machine_id S)) (msg_pid msg) d)
    \<and> (\<forall>v. upid_known nodes (snd z') v
         \<longleftrightarrow> v = upid_pack (get_node_id (si_machine_id S)) (msg_pid msg) d \<or> upid_known nodes (snd z) v)
    \<and> fm_map s' = fm_map s @ [\<lparr>ms_fd = f, ms_upid = upid_pack (get_node_id (si_machine_id S)) (msg_pid msg) d, ms_client = p\<rparr>]"
proof -
  let ?r = "word_of_nat (rnd 0 mod 131072) :: u16"
  have l: "zh_lock \<notin> fm_locks s" "fdUpidMap_lock \<notin> fm_locks s" using assms(2) by auto
  have acc: "\<exists>s' p. accept_upid E config f u s = Some s' \<and> p \<noteq> NULL
      \<and> fm_map s' = fm_map s @ [\<lparr>ms_fd = f, ms_upid = u, ms_client = p\<rparr>]" for u
  proof -
    obtain c where "er_create (e_backend E) ramcloud_impl config u = Some c" using assms(8) by blast
    then show ?thesis using accept_upid_spec [OF l(2) assms(5,3) _ assms(9)] by metis
  qed
  then have acc': "\<exists>s'. accept_upid E config f u s = Some s'" for u by blast
  have "handed_over E S nodes config (msg_pid msg) f (s, z) (upid_loop E S config rnd (msg_pid msg) f 0 0 0 (s, z))"
  proof (cases rule: upid_loop_try [OF assms(1) l(1) acc' first_counter [of rnd], where z = z and pid = "msg_pid msg",
        case_names fresh taken])
    case fresh
    then show ?thesis by blast
  next
    case (taken z')
    then have "c0 \<noteq> ?r" using assms(12) by blast
    then have "pos ?r c0 \<noteq> pos ?r ?r" using pos_inj [OF assms(11,10,10)] by blast
    then have "pos ?r ?r < pos ?r c0" by (simp only: pos_self neq0_conv)
    then have "handed_over E S nodes config (msg_pid msg) f (s, z') (upid_loop E S config rnd (msg_pid msg) f 1 ?r ?r (s, z'))"
      using assms(12) taken(2) by (intro upid_loop_finds [OF assms(1) l(1) acc' assms(10,11,10)]) auto
    then show ?thesis using taken handed_over_known by metis
  qed
  then show ?thesis using acc recv_fd_loop [OF assms(6,7)] assms(4)
    unfolding handed_over_def prod.case by (metis option.inject)
qed

text \<open>
  C16. A descriptor is handed over to a fresh upid: when Zookeeper answers and some counter other than 0 is
  free for this process, \<^verbatim>\<open>recv_fd\<close> returns the descriptor after finitely many tries, under a upid that
  carries the node and the process and was not registered before; afterwards exactly this upid is
  registered in addition, and the map has exactly one new entry, with a client of the store.
\<close>

theorem recv_fd_registers:
  assumes "zk_ok (si_zk S) nodes" "fm_locks s = {}" "distinct_keys ms_fd (fm_map s)"
    and "control_fd (msg_control msg) (- 1) = f" "f \<notin> ms_fd ` set (fm_map s)" "0 < msg_res msg" "\<not> msg_ctrunc msg"
    and "\<forall>u. \<exists>c. er_create (e_backend E) ramcloud_impl config u = Some c" "Suc (length (fm_clients s)) < 2 ^ 64"
    and "(word_of_nat (rnd 0 mod 131072) :: u16) \<noteq> 0"
    and "c0 \<noteq> 0" "\<not> upid_known nodes (snd z) (upid_pack (get_node_id (si_machine_id S)) (msg_pid msg) c0)"
  shows "\<exists>d s' z' p. recv_fd E S config rnd msg (s, z) = Some (f, s', z') \<and> p \<noteq> NULL
    \<and> \<not> upid_known nodes (snd z) (upid_pack (get_node_id (si_machine_id S)) (msg_pid msg) d)
    \<and> (\<forall>v. upid_known nodes (snd z') v
         \<longleftrightarrow> v = upid_pack (get_node_id (si_machine_id S)) (msg_pid msg) d \<or> upid_known nodes (snd z) v)
    \<and> fm_map s' = fm_map s @ [\<lparr>ms_fd = f, ms_upid = upid_pack (get_node_id (si_machine_id S)) (msg_pid msg) d, ms_client = p\<rparr>]"
  by (rule recv_fd_fresh [where rnd = rnd, OF assms])

theorem recv_fd_registers_witness:
  "\<exists>s' z'. recv_fd (sample_env cache_config) handover_site [] (\<lambda>_. 70000) handover_msg (sample_fm, zk_local0, {}) = Some (9, s', z')
    \<and> map ms_fd (fm_map s') = [7, 9]"
  using recv_fd_registers [of handover_site id sample_fm handover_msg 9 "sample_env cache_config" "[]" "\<lambda>_. 70000" 1 "(zk_local0, {})"]
  by (auto simp: handover_site_def handover_msg_def sim_zk_ok SOL_SOCKET_def SCM_RIGHTS_def noop_backend_def upid_known_def)

text \<open>All draws of 0 are tried and drawn again; the search proper starts at the first other draw.\<close>

lemma upid_loop_taken:
  assumes "zk_ok (si_zk S) nodes" "zh_lock \<notin> fm_locks s" "\<And>u. \<exists>s'. accept_upid E config f u s = Some s'"
    and "\<forall>i < k. drawn rnd i = 0" "drawn rnd k \<noteq> 0" "j \<le> k"
    and "\<forall>d. d \<noteq> 0 \<or> j < k \<longrightarrow> upid_known nodes (snd z) (upid_of S pid d)"
  shows "if drawn rnd k = 1 then upid_loop E S config rnd pid f j 0 0 (s, z) = None
    else \<exists>z'. upid_loop E S config rnd pid f j 0 0 (s, z) = Some (- 1, s, z')
      \<and> (\<forall>v. upid_known nodes (snd z') v \<longleftrightarrow> upid_known nodes (snd z) v)"
  using assms(6,7)
proof (induction "k - j" arbitrary: j z)
  case 0
  then have "j = k" by simp
  let ?v = "drawn rnd k"
  have k: "upid_known nodes (snd z) (upid_of S pid ?v)" using 0 assms(5) by simp
  obtain z' where t: "upid_loop E S config rnd pid f j 0 0 (s, z) = upid_loop E S config rnd pid f (Suc k) ?v ?v (s, z')"
    "\<forall>v. upid_known nodes (snd z') v \<longleftrightarrow> upid_known nodes (snd z) v"
    using upid_loop_try [OF assms(1,2,3) next_counter_zero [of rnd j 0], of z pid] k \<open>j = k\<close> by metis
  show ?case
  proof (cases "?v = 1")
    case True
    then show ?thesis using t 0(3) upid_loop_endless [OF assms(1), of "(s, z')"] assms(2) by simp
  next
    case False
    then have "unat ?v \<noteq> 0" "unat ?v \<noteq> 1" using assms(5) by (metis unat_eq_zero, metis unat_1 word_unat_eq_iff)
    then have "1 < unat ?v" by linarith
    then show ?thesis
      using False upid_loop_exhausted [OF assms(1-3) _ assms(5), of "?v" z'] t 0(3) by auto
  qed
next
  case (Suc n)
  then have j: "j < k" by simp
  then have v: "drawn rnd j = 0" using assms(4) by simp
  then have k: "upid_known nodes (snd z) (upid_of S pid (drawn rnd j))" using Suc.prems j by simp
  obtain z' where t: "upid_loop E S config rnd pid f j 0 0 (s, z) = upid_loop E S config rnd pid f (Suc j) 0 0 (s, z')"
    "\<forall>v. upid_known nodes (snd z') v \<longleftrightarrow> upid_known nodes (snd z) v"
    using upid_loop_try [OF assms(1,2,3) next_counter_zero [of rnd j 0], of z pid] k v by metis
  have "n = k - Suc j" "Suc j \<le> k" using Suc.hyps(2) j by simp_all
  moreover have "\<forall>d. d \<noteq> 0 \<or> Suc j < k \<longrightarrow> upid_known nodes (snd z') (upid_of S pid d)" using Suc.prems(2) t(2) j by blast
  ultimately show ?case unfolding t(1) t(2) [rule_format, symmetric] by (rule Suc.hyps(1))
qed

text \<open>
  C37. When all counters are taken for a process, the outcome of \<^verbatim>\<open>recv_fd\<close> hangs on the random start of the
  search, the first draw that is not 0: from a start above 1 the search tries every counter and ends, and
  \<^verbatim>\<open>recv_fd\<close> returns an error and registers nothing; from the start 1 it never returns, because the value at
  which it should give up is skipped when the counter wraps around. The counter 0 need be taken only when
  it is drawn.
\<close>

theorem recv_fd_exhausted:
  assumes "zk_ok (si_zk S) nodes" "fm_locks s = {}" "distinct_keys ms_fd (fm_map s)"
    and "control_fd (msg_control msg) (- 1) = f" "f \<notin> ms_fd ` set (fm_map s)" "0 < msg_res msg" "\<not> msg_ctrunc msg"
    and "\<forall>u. \<exists>c. er_create (e_backend E) ramcloud_impl config u = Some c" "Suc (length (fm_clients s)) < 2 ^ 64"
    and "\<forall>i < k. drawn rnd i = 0" "drawn rnd k \<noteq> 0"
    and "\<forall>d. d \<noteq> 0 \<or> 0 < k \<longrightarrow> upid_known nodes (snd z) (upid_pack (get_node_id (si_machine_id S)) (msg_pid msg) d)"
  shows "if drawn rnd k = 1 then recv_fd E S config rnd msg (s, z) = None
    else \<exists>z'. recv_fd E S config rnd msg (s, z) = Some (- 1, s, z')
      \<and> (\<forall>v. upid_known nodes (snd z') v \<longleftrightarrow> upid_known nodes (snd z) v)"
proof -
  have l: "zh_lock \<notin> fm_locks s" "fdUpidMap_lock \<notin> fm_locks s" using assms(2) by auto
  have "\<exists>s'. accept_upid E config f u s = Some s'" for u
    using accept_upid_spec [OF l(2) assms(5,3) _ assms(9)] assms(8) by metis
  from upid_loop_taken [OF assms(1) l(1) this assms(10,11), of 0 z "msg_pid msg"]
  show ?thesis unfolding recv_fd_loop [OF assms(6,7)] assms(4) using assms(12) by simp
qed

definition taken_z :: "string set" where
  "taken_z = {upidFullPath (upid_pack 0 5 d) | d. True}"

lemma taken_all: "upid_known id taken_z (upid_pack (get_node_id (si_machine_id handover_site)) (msg_pid handover_msg) d)"
  by (auto simp: upid_known_def taken_z_def handover_site_def handover_msg_def get_node_id_def jenkins_hash_def)

theorem recv_fd_exhausted_witness:
  "(\<exists>z'. recv_fd (sample_env cache_config) handover_site [] (\<lambda>_. 2) handover_msg (sample_fm, zk_local0, taken_z)
     = Some (- 1, sample_fm, z'))
    \<and> recv_fd (sample_env cache_config) handover_site [] (\<lambda>_. 65537) handover_msg (sample_fm, zk_local0, taken_z) = None"
proof -
  have e: "if drawn (\<lambda>_. n) 0 = 1
    then recv_fd (sample_env cache_config) handover_site [] (\<lambda>_. n) handover_msg (sample_fm, zk_local0, taken_z) = None
    else \<exists>z'. recv_fd (sample_env cache_config) handover_site [] (\<lambda>_. n) handover_msg (sample_fm, zk_local0, taken_z)
      = Some (- 1, sample_fm, z') \<and> (\<forall>v. upid_known id (snd z') v \<longleftrightarrow> upid_known id (snd (zk_local0, taken_z)) v)"
    if "drawn (\<lambda>_. n) 0 \<noteq> 0" for n
    by (rule recv_fd_exhausted [where f = 9])
      (use taken_all that in \<open>auto simp: handover_site_def handover_msg_def sim_zk_ok SOL_SOCKET_def SCM_RIGHTS_def noop_backend_def\<close>)
  have d: "drawn (\<lambda>_. 2) 0 = 2" "drawn (\<lambda>_. 65537) 0 = 1" by (simp_all add: drawn_def)
  then show ?thesis using e [of 2] e [of 65537] by simp blast
qed

text \<open>
  C36. The layout of a upid loses nothing: node, process and counter are read back as they were packed, and
  two upids are equal only if all three parts are.
\<close>

theorem upid_roundtrip:
  "upid_node (upid_pack n p c) = n \<and> upid_pid (upid_pack n p c) = p \<and> upid_counter (upid_pack n p c) = c
    \<and> (upid_pack n p c = upid_pack n' p' c' \<longleftrightarrow> n = n' \<and> p = p' \<and> c = c')"
  by (simp add: upid_pack_inj)

text \<open>
  The failure to map the page for reads is not noticed: \<^verbatim>\<open>create_buffers\<close> compares with \<^verbatim>\<open>NULL\<close>, and reports
  success with the error value of \<^verbatim>\<open>mmap\<close> as the address.
\<close>

lemma create_buffers_unchecked:
  assumes "\<forall>M. k_mmap (e_kernel E) M = (MAP_FAILED, M)"
  shows "\<exists>s'. create_buffers E n pn pf b s = (0, s') \<and> fm_read_tmp_page s' = MAP_FAILED"
  using assms by (simp add: create_buffers_def get_local_tmp_page_def Let_def MAP_FAILED_def)

lemma create_buffers_unchecked_witness:
  "\<exists>s'. create_buffers ((sample_env cache_config)\<lparr>e_kernel := sim_kernel\<lparr>k_mmap := \<lambda>M. (MAP_FAILED, M)\<rparr>\<rparr>) 8 4 10 True sample_fm
     = (0, s') \<and> fm_read_tmp_page s' = MAP_FAILED"
  by (rule create_buffers_unchecked) simp

end
