(* ===== verification/Worker_Threads.thy ===== *)
theory Worker_Threads
  imports Userfault
begin

text \<open>
  The two worker threads of \<^verbatim>\<open>lib/userfault/userfault.c\<close>: \<^verbatim>\<open>write_into_externram_thread\<close> writes the evicted
  pages on the write list to the remote store in batches, \<^verbatim>\<open>prefetch_thread\<close> reads the pages on the prefetch
  list into the page cache.

  One round of a thread is cut where it releases a mutex or calls the store: the other threads may run
  between two pieces and not within one. The variables a thread keeps from piece to piece are a
  record, with the piece it is about to run. A piece returns \<open>None\<close> if it blocks or is undefined.
\<close>

section \<open>The write thread\<close>

datatype wpc = WCollect | WWrite | WDelete | WFinish | WSleep

record writer =
  w_pc :: wpc
  w_keys :: "u64 list"
  w_bufs :: "ptr list"
  w_ufd :: fd
  w_free_values :: bool
  w_waiting :: bool
  w_flushRemaining :: bool

definition writer0 :: writer where
  "writer0 = \<lparr>w_pc = WCollect, w_keys = [], w_bufs = [], w_ufd = 0, w_free_values = False,
     w_waiting = False, w_flushRemaining = False\<rparr>"

text \<open>
  The walk over the list: the entries of the first descriptor, at most a batch of them, are marked. The
  result is the new list and the entries that were taken.
\<close>

fun collect_writes :: "fd \<Rightarrow> int \<Rightarrow> write_info list \<Rightarrow> write_info list \<times> write_info list" where
  "collect_writes ufd n [] = ([], [])"
| "collect_writes ufd n (w # ws) =
     (if wi_ufd w = ufd \<and> n < WRITE_BATCH_SIZE
      then case collect_writes ufd (n + 1) ws of
             (ws', taken) \<Rightarrow> (w\<lparr>wi_in_flight := True\<rparr> # ws', w # taken)
      else case collect_writes ufd n ws of (ws', taken) \<Rightarrow> (w # ws', taken))"

definition post_flushed :: "'c fm \<Rightarrow> 'c fm" where
  "post_flushed s = upd_tio (\<lambda>t. t\<lparr>flushed_write_sem := flushed_write_sem t + 1\<rparr>) s"

definition post_ufhandler :: "'c fm \<Rightarrow> 'c fm" where
  "post_ufhandler s = upd_tio (\<lambda>t. t\<lparr>ufhandler_sem := ufhandler_sem t + 1\<rparr>) s"

definition write_collect :: "writer \<Rightarrow> 'c fm \<Rightarrow> (writer \<times> 'c fm) option" where
  "write_collect w s = do {
     s \<leftarrow> lockS list_lock s;
     let sz = get_write_list_size (fm_tio s);
     s \<leftarrow> lockS flush_write_needed_lock s;
     if sz > 0 \<and> (sz \<ge> WRITE_BATCH_SIZE \<or> isUfhandlerWaiting (fm_tio s) \<or> w_flushRemaining w
                   \<or> flushWriteListNeeded (fm_tio s))
     then do {
       s \<leftarrow> unlockS flush_write_needed_lock s;
       let ufd = wi_ufd (hd (write_list (fm_tio s)));
       let (ws, taken) = collect_writes ufd 0 (write_list (fm_tio s));
       let s = upd_tio (\<lambda>t. t\<lparr>write_list := ws, isWriterWaiting := False\<rparr>) s;
       s \<leftarrow> unlockS list_lock s;
       Some (w\<lparr>w_pc := WWrite, w_keys := map wi_pageaddr taken, w_bufs := map wi_page taken, w_ufd := ufd,
                w_free_values := False, w_flushRemaining := int (length taken) < sz\<rparr>, s)
     }
     else do {
       let s = (if flushWriteListNeeded (fm_tio s) then post_flushed s else s);
       s \<leftarrow> unlockS flush_write_needed_lock s;
       let s = upd_tio (\<lambda>t. t\<lparr>isWriterWaiting := True\<rparr>) s;
       s \<leftarrow> unlockS list_lock s;
       Some (w\<lparr>w_pc := if w_flushRemaining w then WCollect else WSleep\<rparr>, s)
     }
   }"

text \<open>A descriptor without a client gives up its pages.\<close>

definition write_batch :: "'c env \<Rightarrow> writer \<Rightarrow> 'c fm \<Rightarrow> (writer \<times> 'c fm) option" where
  "write_batch E w s = do {
     client \<leftarrow> fm_client (w_ufd w) s;
     if client \<noteq> NULL
     then do {
       (fr, bs, s) \<leftarrow> fm_writePages E client (w_keys w) (int (length (w_keys w))) (w_bufs w)
                        (replicate (length (w_keys w)) 4096) s;
       Some (w\<lparr>w_pc := WDelete, w_bufs := bs, w_free_values := fr\<rparr>, s)
     }
     else Some (w\<lparr>w_pc := WDelete, w_free_values := True\<rparr>, s)
   }"

fun delete_written :: "fd \<Rightarrow> u64 list \<Rightarrow> 'c fm \<Rightarrow> 'c fm" where
  "delete_written ufd [] s = s"
| "delete_written ufd (k # ks) s =
     (case del_write_info ufd k (fm_tio s) of
        (missing, t) \<Rightarrow>
          let s = s\<lparr>fm_tio := t\<rparr> in delete_written ufd ks (if missing then log_err s else s))"

definition write_delete :: "writer \<Rightarrow> 'c fm \<Rightarrow> (writer \<times> 'c fm) option" where
  "write_delete w s = do {
     s \<leftarrow> lockS list_lock s;
     let s = delete_written (w_ufd w) (w_keys w) s;
     let waiting = isUfhandlerWaiting (fm_tio s);
     s \<leftarrow> unlockS list_lock s;
     Some (w\<lparr>w_pc := WFinish, w_waiting := waiting\<rparr>, s)
   }"

definition write_finish :: "'c env \<Rightarrow> writer \<Rightarrow> 'c fm \<Rightarrow> (writer \<times> 'c fm) option" where
  "write_finish E w s =
     (let s = (if \<not> w_flushRemaining w then post_flushed s else s);
          s = (if w_free_values w
               then fold (\<lambda>b s. if b \<noteq> NULL then fm_munmap E b s else s) (w_bufs w) s else s);
          s = (if w_waiting w then post_ufhandler s else s)
      in Some (w\<lparr>w_pc := WCollect\<rparr>, s))"

definition write_sleep :: "writer \<Rightarrow> 'c fm \<Rightarrow> (writer \<times> 'c fm) option" where
  "write_sleep w s =
     (if 0 < writer_sem (fm_tio s)
      then Some (w\<lparr>w_pc := WCollect\<rparr>, upd_tio (\<lambda>t. t\<lparr>writer_sem := writer_sem t - 1\<rparr>) s)
      else None)"

definition write_into_externram_thread :: "'c env \<Rightarrow> writer \<times> 'c fm \<Rightarrow> (writer \<times> 'c fm) option" where
  "write_into_externram_thread E = (\<lambda>(w, s).
     case w_pc w of
       WCollect \<Rightarrow> write_collect w s
     | WWrite \<Rightarrow> write_batch E w s
     | WDelete \<Rightarrow> write_delete w s
     | WFinish \<Rightarrow> write_finish E w s
     | WSleep \<Rightarrow> write_sleep w s)"

section \<open>The prefetch thread\<close>

datatype ppc = PCollect | PRead | PStore | PDelete | PSleep

record prefetcher =
  p_pc :: ppc
  p_keys :: "u64 list"
  p_bufs :: "ptr list"
  p_lengths :: "int list"
  p_ufd :: fd

fun collect_prefetches :: "fd \<Rightarrow> int \<Rightarrow> prefetch_info list \<Rightarrow> u64 list" where
  "collect_prefetches ufd n [] = []"
| "collect_prefetches ufd n (p # ps) =
     (if pi_ufd p = ufd \<and> n < int MAX_MULTI_READ
      then pi_pageaddr p # collect_prefetches ufd (n + 1) ps
      else collect_prefetches ufd n ps)"

text \<open>The arrays for the pages and their lengths are not initialised: their contents are arguments.\<close>

definition prefetch_collect :: "ptr list \<Rightarrow> int list \<Rightarrow> prefetcher \<Rightarrow> 'c fm \<Rightarrow> (prefetcher \<times> 'c fm) option" where
  "prefetch_collect junk_bufs junk_lengths p s = do {
     s \<leftarrow> lockS list_lock s;
     if get_prefetch_list_size (fm_tio s) > 0
     then do {
       let ufd = pi_ufd (hd (prefetch_list (fm_tio s)));
       let keys = collect_prefetches ufd 0 (prefetch_list (fm_tio s));
       s \<leftarrow> unlockS list_lock (upd_tio (\<lambda>t. t\<lparr>isPrefetcherWaiting := False\<rparr>) s);
       Some (p\<lparr>p_pc := PRead, p_keys := keys, p_bufs := junk_bufs, p_lengths := junk_lengths, p_ufd := ufd\<rparr>, s)
     }
     else do {
       s \<leftarrow> unlockS list_lock (upd_tio (\<lambda>t. t\<lparr>isPrefetcherWaiting := True\<rparr>) s);
       Some (p\<lparr>p_pc := PSleep\<rparr>, s)
     }
   }"

text \<open>
  The warning about a descriptor without a client passes the descriptor where the format wants a
  string, which is undefined.
\<close>

definition prefetch_read :: "'c env \<Rightarrow> prefetcher \<Rightarrow> 'c fm \<Rightarrow> (prefetcher \<times> 'c fm) option" where
  "prefetch_read E p s = do {
     client \<leftarrow> fm_client (p_ufd p) s;
     if client \<noteq> NULL
     then do {
       s \<leftarrow> if ASYNREAD (e_cfg E) then lockS read_lock s else Some s;
       (bs, ls, s) \<leftarrow> fm_readPages E client (p_keys p) (int (length (p_keys p))) (p_bufs p) (p_lengths p) s;
       s \<leftarrow> if ASYNREAD (e_cfg E) then unlockS read_lock s else Some s;
       Some (p\<lparr>p_pc := PStore, p_bufs := bs, p_lengths := ls\<rparr>, s)
     }
     else None
   }"

definition prefetch_store :: "prefetcher \<Rightarrow> 'c fm \<Rightarrow> (prefetcher \<times> 'c fm) option" where
  "prefetch_store p s = do {
     s \<leftarrow> lockS pagecache_lock s;
     s \<leftarrow> storePagesInPageCache (p_keys p) (p_ufd p) (int (length (p_keys p))) (p_bufs p) (p_lengths p) s;
     s \<leftarrow> unlockS pagecache_lock s;
     Some (p\<lparr>p_pc := PDelete\<rparr>, s)
   }"

fun delete_prefetched :: "fd \<Rightarrow> u64 list \<Rightarrow> 'c fm \<Rightarrow> 'c fm" where
  "delete_prefetched ufd [] s = s"
| "delete_prefetched ufd (k # ks) s =
     (case del_prefetch_info ufd k (fm_tio s) of
        (missing, t) \<Rightarrow>
          let s = s\<lparr>fm_tio := t\<rparr> in delete_prefetched ufd ks (if missing then log_err s else s))"

definition prefetch_delete :: "prefetcher \<Rightarrow> 'c fm \<Rightarrow> (prefetcher \<times> 'c fm) option" where
  "prefetch_delete p s = do {
     s \<leftarrow> lockS list_lock s;
     let s = delete_prefetched (p_ufd p) (p_keys p) s;
     let waiting = isUfhandlerWaiting (fm_tio s);
     s \<leftarrow> unlockS list_lock s;
     Some (p\<lparr>p_pc := PCollect\<rparr>, if waiting then post_ufhandler s else s)
   }"

definition prefetch_sleep :: "prefetcher \<Rightarrow> 'c fm \<Rightarrow> (prefetcher \<times> 'c fm) option" where
  "prefetch_sleep p s =
     (if 0 < prefetcher_sem (fm_tio s)
      then Some (p\<lparr>p_pc := PCollect\<rparr>, upd_tio (\<lambda>t. t\<lparr>prefetcher_sem := prefetcher_sem t - 1\<rparr>) s)
      else None)"

definition prefetch_thread :: "'c env \<Rightarrow> ptr list \<Rightarrow> int list \<Rightarrow> prefetcher \<times> 'c fm \<Rightarrow> (prefetcher \<times> 'c fm) option" where
  "prefetch_thread E junk_bufs junk_lengths = (\<lambda>(p, s).
     case p_pc p of
       PCollect \<Rightarrow> prefetch_collect junk_bufs junk_lengths p s
     | PRead \<Rightarrow> prefetch_read E p s
     | PStore \<Rightarrow> prefetch_store p s
     | PDelete \<Rightarrow> prefetch_delete p s
     | PSleep \<Rightarrow> prefetch_sleep p s)"

end
