(* ===== verification/Writer_Inv.thy ===== *)
theory Writer_Inv
  imports Worker_Threads Transparency
begin

text \<open>
  The write thread does not change what an application sees. The contract of a store that writes many
  pages at once extends the one of \<open>extern_ram\<close>, for stores without demands; the in-process store keeps it. Under the contract every
  piece of the thread keeps the invariant of the write list and the logical contents of every page,
  whatever the other threads did before.
\<close>

section \<open>Writing many pages\<close>

locale extern_ram_batch = extern_ram K B content owns client_ok no_demands
  for K and B :: "'c backend" and content owns client_ok +
  assumes batch_ok: "client_ok M c \<Longrightarrow> length vs = length ks \<Longrightarrow> distinct ks \<Longrightarrow> distinct vs \<Longrightarrow>
      (\<forall>v \<in> set vs. bufs M v \<noteq> None \<and> v \<noteq> NULL \<and> v \<notin> owns c) \<Longrightarrow>
      \<exists>fr vs' c'. er_multiWrite B ks (int (length ks)) vs (replicate (length ks) 4096) (M, c) = Some (fr, 0, vs', M, c')
        \<and> client_ok M c' \<and> content M c' = content M c ++ map_of (zip ks (map (\<lambda>v. the (bufs M v)) vs))
        \<and> owns c' \<subseteq> owns c \<union> set vs
        \<and> (fr \<longrightarrow> (\<forall>v \<in> set vs'. v \<noteq> NULL \<longrightarrow> v \<in> owns c \<union> set vs \<and> v \<notin> owns c'))"

lemma map_add_Cons:
  assumes "k \<notin> dom m'"
  shows "m(k \<mapsto> v) ++ m' = (m ++ m')(k \<mapsto> v)"
  using assms by (rule map_add_upd_left)

lemma dom_zip: "k \<notin> set ks \<Longrightarrow> k \<notin> dom (map_of (zip ks xs))"
  by (auto simp: dom_map_of_conv_image_fst dest: set_zip_leftD)

text \<open>The buffers the in-process store hands back: the ones it held for the keys.\<close>

definition old_buf :: "noop_client \<Rightarrow> u64 \<Rightarrow> ptr" where
  "old_buf c k = (case kv c k of None \<Rightarrow> NULL | Some b \<Rightarrow> b)"

lemma noop_loop:
  assumes "n = length ks" "length vs = n" "distinct ks" "distinct vs" "length data = n" "length ls = n"
    "i \<le> n" "\<forall>j. i \<le> j \<longrightarrow> j < n \<longrightarrow> data ! j = vs ! j" "noop_ok M c"
    "\<forall>v \<in> set (drop i vs). bufs M v \<noteq> None \<and> v \<noteq> NULL \<and> v \<notin> noop_owns c"
  shows "\<exists>fr' data' c'. noop_multiWrite_loop ks [i..<n] fr 0 data ls (M, c) = Some (fr', 0, data', M, c')
    \<and> noop_ok M c' \<and> noop_content M c' = noop_content M c ++ map_of (zip (drop i ks) (map (\<lambda>v. the (bufs M v)) (drop i vs)))
    \<and> kv c' = kv c ++ map_of (zip (drop i ks) (drop i vs))
    \<and> data' = take i data @ map (old_buf c) (drop i ks)"
  using assms(5,7-10)
proof (induction "n - i" arbitrary: i fr data c)
  case 0
  then show ?case using assms(1,2) by simp
next
  case (Suc m)
  then have i: "i < n" by simp
  have dk: "drop i ks = ks ! i # drop (Suc i) ks" and dv: "drop i vs = vs ! i # drop (Suc i) vs"
    using i assms(1,2) by (simp_all add: Cons_nth_drop_Suc)
  have v: "bufs M (vs ! i) \<noteq> None" "vs ! i \<noteq> NULL" "vs ! i \<notin> noop_owns c" using Suc.prems(5) dv by auto
  then obtain pg where pg: "bufs M (vs ! i) = Some pg" by blast
  let ?c = "c\<lparr>kv := (kv c)(ks ! i \<mapsto> vs ! i)\<rparr>"
  note u = noop_ok_update [OF Suc.prems(4) pg v(2,3), of "ks ! i"]
  have w: "noop_write (ks ! i) (vs ! i) (ls ! i) (M, c) = Some (old_buf c (ks ! i), 0, M, ?c)"
    by (simp add: noop_write_def old_buf_def split: option.split)
  have "noop_owns ?c \<subseteq> insert (vs ! i) (noop_owns c)" by (auto simp: noop_owns_def ran_def)
  moreover have "vs ! i \<notin> set (drop (Suc i) vs)" using assms(4) dv by (metis distinct.simps(2) distinct_drop)
  ultimately have fresh: "\<forall>v \<in> set (drop (Suc i) vs). bufs M v \<noteq> None \<and> v \<noteq> NULL \<and> v \<notin> noop_owns ?c"
    using Suc.prems(5) dv by auto
  let ?data = "data[i := old_buf c (ks ! i)]"
  have m: "m = n - Suc i" using Suc.hyps(2) by simp
  have pre: "length ?data = n" "Suc i \<le> n" "\<forall>j. Suc i \<le> j \<longrightarrow> j < n \<longrightarrow> ?data ! j = vs ! j"
    using Suc.prems i by auto
  obtain fr' data' c' where ih: "noop_multiWrite_loop ks [Suc i..<n] (fr \<or> old_buf c (ks ! i) \<noteq> NULL) 0 ?data ls (M, ?c)
      = Some (fr', 0, data', M, c')" "noop_ok M c'"
    "noop_content M c' = noop_content M ?c ++ map_of (zip (drop (Suc i) ks) (map (\<lambda>v. the (bufs M v)) (drop (Suc i) vs)))"
    "kv c' = kv ?c ++ map_of (zip (drop (Suc i) ks) (drop (Suc i) vs))"
    "data' = take (Suc i) ?data @ map (old_buf ?c) (drop (Suc i) ks)"
    using Suc.hyps(1) [OF m pre u(1) fresh, of "fr \<or> old_buf c (ks ! i) \<noteq> NULL"] by blast
  have nk: "ks ! i \<notin> set (drop (Suc i) ks)" using assms(3) dk by (metis distinct.simps(2) distinct_drop)
  have "map (old_buf ?c) (drop (Suc i) ks) = map (old_buf c) (drop (Suc i) ks)"
    using nk by (intro map_cong) (auto simp: old_buf_def)
  moreover have "take (Suc i) ?data = take i data @ [old_buf c (ks ! i)]"
    using i Suc.prems(1) by (simp add: take_Suc_conv_app_nth)
  ultimately have d: "data' = take i data @ map (old_buf c) (drop i ks)" using ih(5) dk by simp
  have "[i..<n] = i # [Suc i..<n]" using i by (simp add: upt_conv_Cons)
  moreover have "data ! i = vs ! i" using Suc.prems(3) i by simp
  ultimately have "noop_multiWrite_loop ks [i..<n] fr 0 data ls (M, c) = Some (fr', 0, data', M, c')"
    using ih(1) w i assms(1,6) Suc.prems(1) by simp
  then show ?case using ih(2-4) d u(2) pg by (simp add: dk dv map_add_Cons dom_zip nk)
qed

interpretation noopb: extern_ram_batch K "noop_backend K" noop_content noop_owns noop_ok for K
proof unfold_locales
  fix M :: machine and c :: noop_client and ks :: "u64 list" and vs :: "ptr list"
  assume ok: "noop_ok M c" and l: "length vs = length ks" and dk: "distinct ks" and dv: "distinct vs"
    and v: "\<forall>v \<in> set vs. bufs M v \<noteq> None \<and> v \<noteq> NULL \<and> v \<notin> noop_owns c"
  obtain fr data' c' where r: "noop_multiWrite_loop ks [0..<length ks] False 0 vs (replicate (length ks) 4096) (M, c)
      = Some (fr, 0, data', M, c')" "noop_ok M c'"
    "noop_content M c' = noop_content M c ++ map_of (zip ks (map (\<lambda>v. the (bufs M v)) vs))"
    "kv c' = kv c ++ map_of (zip ks vs)" "data' = map (old_buf c) ks"
    using noop_loop [of "length ks" ks vs vs "replicate (length ks) 4096" 0 M c False] ok l dk dv v by auto
  have own: "noop_owns c' \<subseteq> noop_owns c \<union> set vs"
  proof
    fix b
    assume "b \<in> noop_owns c'"
    then obtain k where "kv c' k = Some b" by (auto simp: noop_owns_def ran_def)
    then have "map_of (zip ks vs) k = Some b \<or> kv c k = Some b" unfolding r(4) by (auto simp: map_add_Some_iff)
    then show "b \<in> noop_owns c \<union> set vs"
      by (auto simp: noop_owns_def ran_def dest!: map_of_SomeD set_zip_rightD)
  qed
  have old: "b \<in> noop_owns c \<and> b \<notin> noop_owns c'" if b: "b \<in> set data'" "b \<noteq> NULL" for b
  proof
    obtain k where k: "k \<in> set ks" "kv c k = Some b"
      using b r(5) by (auto simp: old_buf_def split: option.splits)
    then show own_b: "b \<in> noop_owns c" by (auto simp: noop_owns_def ran_def)
    show "b \<notin> noop_owns c'"
    proof
      assume "b \<in> noop_owns c'"
      then obtain k' where k': "kv c' k' = Some b" by (auto simp: noop_owns_def ran_def)
      have "map_of (zip ks vs) k' \<noteq> Some b"
        using v own_b by (auto dest!: map_of_SomeD set_zip_rightD)
      then have "kv c k' = Some b" "map_of (zip ks vs) k' = None" using k' unfolding r(4) by (auto simp: map_add_Some_iff)
      then have "k' = k" using noop_ok_unique [OF ok] k(2) by blast
      then show False using \<open>map_of (zip ks vs) k' = None\<close> k(1) l by (simp add: map_of_zip_is_None)
    qed
  qed
  have "er_multiWrite (noop_backend K) ks (int (length ks)) vs (replicate (length ks) 4096) (M, c) = Some (fr, 0, data', M, c')"
    using r(1) by (simp add: noop_backend_def noop_multiWrite_def)
  then show "\<exists>fr vs' c'. er_multiWrite (noop_backend K) ks (int (length ks)) vs (replicate (length ks) 4096) (M, c) = Some (fr, 0, vs', M, c')
      \<and> noop_ok M c' \<and> noop_content M c' = noop_content M c ++ map_of (zip ks (map (\<lambda>v. the (bufs M v)) vs))
      \<and> noop_owns c' \<subseteq> noop_owns c \<union> set vs
      \<and> (fr \<longrightarrow> (\<forall>v \<in> set vs'. v \<noteq> NULL \<longrightarrow> v \<in> noop_owns c \<union> set vs \<and> v \<notin> noop_owns c'))"
    using r(2,3) own old by blast
qed

section \<open>Contents and invariant\<close>

text \<open>The page that waits on the write list, and what an application sees.\<close>

definition wl_pages :: "'c fm \<Rightarrow> ((fd \<times> u64) \<times> ptr) list" where
  "wl_pages s = map (\<lambda>e. (wi_key e, wi_page e)) (write_list (fm_tio s))"

definition pending :: "'c fm \<Rightarrow> fd \<Rightarrow> u64 \<Rightarrow> page option" where
  "pending s f a = Option.bind (find_write_info f a (fm_tio s)) (\<lambda>e. bufs (fm_mach s) (wi_page e))"

definition visible :: "(machine \<Rightarrow> 'c \<Rightarrow> u64 \<Rightarrow> page option) \<Rightarrow> 'c fm \<Rightarrow> fd \<Rightarrow> u64 \<Rightarrow> page" where
  "visible content s f a =
     (case resident (fm_mach s) f a of
        Some pg \<Rightarrow> pg
      | None \<Rightarrow> (case pending s f a of
          Some pg \<Rightarrow> pg
        | None \<Rightarrow> (case remote content s f a of Some pg \<Rightarrow> pg | None \<Rightarrow> zero_page)))"

text \<open>
  The entries of the write list: each page once, of a registered descriptor, not resident, in a buffer
  of its own.
\<close>

definition list_ok :: "'c fm \<Rightarrow> bool" where
  "list_ok s \<longleftrightarrow> tio_wf (fm_tio s) \<and> distinct_keys wi_page (write_list (fm_tio s))
     \<and> (\<forall>e \<in> set (write_list (fm_tio s)). registered (wi_ufd e) s \<and> wi_page e \<noteq> NULL
          \<and> bufs (fm_mach s) (wi_page e) \<noteq> None \<and> resident (fm_mach s) (wi_ufd e) (wi_pageaddr e) = None)"

definition flying :: "'c fm \<Rightarrow> write_info list" where
  "flying s = filter wi_in_flight (write_list (fm_tio s))"

definition grounded :: "'c fm \<Rightarrow> write_info list" where
  "grounded s = filter (\<lambda>e. \<not> wi_in_flight e) (write_list (fm_tio s))"

definition unowned :: "('c \<Rightarrow> ptr set) \<Rightarrow> 'c fm \<Rightarrow> write_info list \<Rightarrow> bool" where
  "unowned owns s es \<longleftrightarrow> (\<forall>e \<in> set es. wi_page e \<notin> owned owns no_demands s)"

definition batch :: "writer \<Rightarrow> write_info list" where
  "batch w = map (\<lambda>(k, b). \<lparr>wi_ufd = w_ufd w, wi_pageaddr = k, wi_page = b, wi_in_flight = True\<rparr>)
     (zip (w_keys w) (w_bufs w))"

text \<open>The buffers the thread is about to unmap.\<close>

definition disposable :: "('c \<Rightarrow> ptr set) \<Rightarrow> writer \<Rightarrow> 'c fm \<Rightarrow> bool" where
  "disposable owns w s \<longleftrightarrow> (w_free_values w \<longrightarrow> (\<forall>b \<in> set (w_bufs w). b \<noteq> NULL \<longrightarrow>
     bufs (fm_mach s) b \<noteq> None \<and> b \<notin> owned owns no_demands s \<and> b \<notin> wi_page ` set (grounded s)))"

definition writer_pc_inv :: "(machine \<Rightarrow> 'c \<Rightarrow> u64 \<Rightarrow> page option) \<Rightarrow> ('c \<Rightarrow> ptr set) \<Rightarrow> writer \<Rightarrow> 'c fm \<Rightarrow> bool" where
  "writer_pc_inv content owns w s \<longleftrightarrow>
     (case w_pc w of
        WWrite \<Rightarrow> flying s = batch w \<and> length (w_bufs w) = length (w_keys w) \<and> w_keys w \<noteq> []
          \<and> unowned owns s (write_list (fm_tio s))
      | WDelete \<Rightarrow> map wi_key (flying s) = map (Pair (w_ufd w)) (w_keys w)
          \<and> (\<forall>e \<in> set (flying s). remote content s (wi_ufd e) (wi_pageaddr e) = bufs (fm_mach s) (wi_page e))
          \<and> unowned owns s (grounded s) \<and> disposable owns w s
      | WFinish \<Rightarrow> flying s = [] \<and> unowned owns s (grounded s) \<and> disposable owns w s
      | _ \<Rightarrow> flying s = [] \<and> unowned owns s (grounded s))"

definition writer_inv :: "(machine \<Rightarrow> 'c \<Rightarrow> u64 \<Rightarrow> page option) \<Rightarrow> ('c \<Rightarrow> ptr set) \<Rightarrow> (machine \<Rightarrow> 'c \<Rightarrow> bool)
     \<Rightarrow> writer \<Rightarrow> 'c fm \<Rightarrow> bool" where
  "writer_inv content owns client_ok w s \<longleftrightarrow>
     fm_core owns client_ok no_demands s \<and> list_ok s \<and> fm_locks s = {} \<and> length (write_list (fm_tio s)) < 2 ^ 31
     \<and> writer_pc_inv content owns w s"

section \<open>Lists\<close>

lemma find_map_of: "map_option g (List.find (\<lambda>x. key x = k) xs) = map_of (map (\<lambda>x. (key x, g x)) xs) k"
  by (induction xs) auto

lemma pending_map_of:
  "pending s f a = Option.bind (map_of (rev (wl_pages s)) (f, a)) (bufs (fm_mach s))"
proof -
  have "map_option wi_page (find_write_info f a (fm_tio s)) = map_of (rev (wl_pages s)) (f, a)"
    by (simp add: find_write_info_def hash_find_def find_map_of wl_pages_def rev_map)
  from this [symmetric] show ?thesis by (cases "find_write_info f a (fm_tio s)") (auto simp: pending_def)
qed

lemma pending_cong:
  assumes "wl_pages s' = wl_pages s" "\<And>b. b \<in> snd ` set (wl_pages s) \<Longrightarrow> bufs (fm_mach s') b = bufs (fm_mach s) b"
  shows "pending s' = pending s"
proof (intro ext)
  fix f a
  show "pending s' f a = pending s f a"
    using assms by (cases "map_of (rev (wl_pages s)) (f, a)") (force simp: pending_map_of dest: map_of_SomeD)+
qed

lemma visible_cong:
  "resident (fm_mach s') = resident (fm_mach s) \<Longrightarrow> pending s' = pending s \<Longrightarrow>
     remote content s' = remote content s \<Longrightarrow> visible content s' = visible content s"
  by (intro ext) (simp add: visible_def cong: option.case_cong)

lemma collect_pages:
  "map (\<lambda>e. (wi_key e, wi_page e)) (fst (collect_writes ufd n ws)) = map (\<lambda>e. (wi_key e, wi_page e)) ws"
  by (induction ws arbitrary: n) (simp_all add: wi_key_def case_prod_beta)

lemma collect_flying:
  "filter wi_in_flight ws = [] \<Longrightarrow>
     filter wi_in_flight (fst (collect_writes ufd n ws)) = map (wi_in_flight_update (\<lambda>_. True)) (snd (collect_writes ufd n ws))"
  by (induction ws arbitrary: n) (simp_all add: case_prod_beta split: if_splits)

lemma collect_ufd: "e \<in> set (snd (collect_writes ufd n ws)) \<Longrightarrow> wi_ufd e = ufd"
  by (induction ws arbitrary: n) (auto simp: case_prod_beta split: if_splits)

lemma collect_nonempty: "snd (collect_writes (wi_ufd w) 0 (w # ws)) \<noteq> []"
  by (simp add: case_prod_beta WRITE_BATCH_SIZE_def)

lemma collect_batch:
  "(\<And>e. e \<in> set es \<Longrightarrow> wi_ufd e = ufd) \<Longrightarrow>
     map (\<lambda>(k, b). \<lparr>wi_ufd = ufd, wi_pageaddr = k, wi_page = b, wi_in_flight = True\<rparr>)
       (zip (map wi_pageaddr es) (map wi_page es)) = map (wi_in_flight_update (\<lambda>_. True)) es"
  by (induction es) auto

lemma wi_key_fun: "wi_key = (\<lambda>e. (wi_ufd e, wi_pageaddr e))"
  by (simp add: wi_key_def fun_eq_iff)

lemma list_ok_pages:
  "list_ok s \<longleftrightarrow> distinct_keys fst (wl_pages s) \<and> distinct_keys snd (wl_pages s)
     \<and> distinct_keys pi_key (prefetch_list (fm_tio s))
     \<and> (\<forall>((f, a), b) \<in> set (wl_pages s). registered f s \<and> b \<noteq> NULL \<and> bufs (fm_mach s) b \<noteq> None
          \<and> resident (fm_mach s) f a = None)"
  by (auto simp: list_ok_def wl_pages_def tio_wf_def comp_def wi_key_fun)

lemma unowned_pages:
  "unowned owns s (write_list (fm_tio s)) \<longleftrightarrow> snd ` set (wl_pages s) \<inter> owned owns no_demands s = {}"
  by (auto simp: unowned_def wl_pages_def image_image)

lemma all_grounded: "flying s = [] \<Longrightarrow> grounded s = write_list (fm_tio s)"
  by (auto simp: flying_def grounded_def filter_empty_conv)

section \<open>The pieces\<close>

text \<open>A piece that leaves the maps, the clients and the memory alone and keeps the pages of the list.\<close>

definition tio_only :: "'c fm \<Rightarrow> 'c fm \<Rightarrow> bool" where
  "tio_only s s' \<longleftrightarrow> fm_map s' = fm_map s \<and> fm_clients s' = fm_clients s \<and> fm_mach s' = fm_mach s
     \<and> prefetch_list (fm_tio s') = prefetch_list (fm_tio s) \<and> wl_pages s' = wl_pages s"

lemma tio_only_keeps:
  assumes "tio_only s s'"
  shows "fm_core owns client_ok no_demands s' = fm_core owns client_ok no_demands s" "list_ok s' = list_ok s"
    "visible content s' = visible content s" "owned owns no_demands s' = owned owns no_demands s"
    "remote content s' = remote content s" "length (write_list (fm_tio s')) = length (write_list (fm_tio s))"
proof -
  show rm: "remote content s' = remote content s" using assms by (simp add: tio_only_def remote_def fd_client_def fun_eq_iff)
  show "fm_core owns client_ok no_demands s' = fm_core owns client_ok no_demands s" using assms by (simp add: tio_only_def fm_core_def)
  show "list_ok s' = list_ok s" using assms by (simp add: tio_only_def list_ok_pages registered_def)
  show "visible content s' = visible content s"
    using assms rm by (intro visible_cong pending_cong) (simp_all add: tio_only_def)
  show "owned owns no_demands s' = owned owns no_demands s" using assms by (simp add: tio_only_def owned_def)
  show "length (write_list (fm_tio s')) = length (write_list (fm_tio s))"
    using assms by (auto simp: tio_only_def wl_pages_def dest: map_eq_imp_length_eq)
qed

text \<open>What a piece of the thread does for the application: nothing.\<close>

definition transparent_step :: "(machine \<Rightarrow> 'c \<Rightarrow> u64 \<Rightarrow> page option) \<Rightarrow> ('c \<Rightarrow> ptr set) \<Rightarrow> (machine \<Rightarrow> 'c \<Rightarrow> bool)
     \<Rightarrow> 'c fm \<Rightarrow> (writer \<times> 'c fm) option \<Rightarrow> bool" where
  "transparent_step content owns client_ok s r \<longleftrightarrow>
     (\<exists>w' s'. r = Some (w', s') \<and> writer_inv content owns client_ok w' s' \<and> visible content s' = visible content s)"

lemma list_size:
  assumes "writer_inv content owns client_ok w s"
  shows "get_write_list_size (fm_tio s) = int (length (write_list (fm_tio s)))"
  using assms by (simp add: writer_inv_def get_write_list_size_def hash_cnt_def int_of_size_small)

lemma collect_idle:
  assumes inv: "writer_inv content owns client_ok w s" and pc: "w_pc w = WCollect"
    and n: "\<not> (get_write_list_size (fm_tio s) > 0 \<and> (get_write_list_size (fm_tio s) \<ge> WRITE_BATCH_SIZE
      \<or> isUfhandlerWaiting (fm_tio s) \<or> w_flushRemaining w \<or> flushWriteListNeeded (fm_tio s)))"
  shows "transparent_step content owns client_ok s (write_collect w s)"
proof -
  let ?t = "(if flushWriteListNeeded (fm_tio s) then (fm_tio s)\<lparr>flushed_write_sem := flushed_write_sem (fm_tio s) + 1\<rparr>
      else fm_tio s)\<lparr>isWriterWaiting := True\<rparr>"
  let ?s = "s\<lparr>fm_tio := ?t\<rparr>"
  have lk: "fm_locks s = {}" using inv by (simp add: writer_inv_def)
  have r: "write_collect w s = Some (w\<lparr>w_pc := if w_flushRemaining w then WCollect else WSleep\<rparr>, ?s)"
    using n lk by (cases s) (auto simp: write_collect_def fm_step_defs post_flushed_def mutex_lock_def mutex_unlock_def)
  have t: "tio_only s ?s" by (simp add: tio_only_def wl_pages_def)
  have l: "write_list (fm_tio ?s) = write_list (fm_tio s)" by simp
  have "writer_inv content owns client_ok (w\<lparr>w_pc := if w_flushRemaining w then WCollect else WSleep\<rparr>) ?s"
    using inv pc l tio_only_keeps [OF t]
    unfolding writer_inv_def writer_pc_inv_def flying_def grounded_def unowned_def by simp
  then show ?thesis using r tio_only_keeps(3) [OF t] by (auto simp: transparent_step_def)
qed

lemma collect_busy_eq:
  assumes "fm_locks s = {}" "write_list (fm_tio s) = e # ws" "collect_writes (wi_ufd e) 0 (e # ws) = (ws', taken)"
    and "get_write_list_size (fm_tio s) > 0" "get_write_list_size (fm_tio s) \<ge> WRITE_BATCH_SIZE
      \<or> isUfhandlerWaiting (fm_tio s) \<or> w_flushRemaining w \<or> flushWriteListNeeded (fm_tio s)"
  shows "write_collect w s = Some (w\<lparr>w_pc := WWrite, w_keys := map wi_pageaddr taken, w_bufs := map wi_page taken,
      w_ufd := wi_ufd e, w_free_values := False, w_flushRemaining := int (length taken) < get_write_list_size (fm_tio s)\<rparr>,
    s\<lparr>fm_tio := (fm_tio s)\<lparr>write_list := ws', isWriterWaiting := False\<rparr>\<rparr>)"
  using assms by (cases s) (auto simp: write_collect_def fm_step_defs mutex_lock_def mutex_unlock_def)

lemma collect_busy:
  assumes inv: "writer_inv content owns client_ok w s" and pc: "w_pc w = WCollect"
    and y: "get_write_list_size (fm_tio s) > 0" "get_write_list_size (fm_tio s) \<ge> WRITE_BATCH_SIZE
      \<or> isUfhandlerWaiting (fm_tio s) \<or> w_flushRemaining w \<or> flushWriteListNeeded (fm_tio s)"
  shows "transparent_step content owns client_ok s (write_collect w s)"
proof -
  obtain e ws where l: "write_list (fm_tio s) = e # ws" using y(1) list_size [OF inv] by (cases "write_list (fm_tio s)") auto
  obtain ws' taken where c: "collect_writes (wi_ufd e) 0 (e # ws) = (ws', taken)" by fastforce
  let ?s = "s\<lparr>fm_tio := (fm_tio s)\<lparr>write_list := ws', isWriterWaiting := False\<rparr>\<rparr>"
  let ?w = "w\<lparr>w_pc := WWrite, w_keys := map wi_pageaddr taken, w_bufs := map wi_page taken, w_ufd := wi_ufd e,
      w_free_values := False, w_flushRemaining := int (length taken) < get_write_list_size (fm_tio s)\<rparr>"
  have lk: "fm_locks s = {}" and f: "filter wi_in_flight (e # ws) = []" and u: "unowned owns s (e # ws)"
    using inv pc l all_grounded [of s] by (auto simp: writer_inv_def writer_pc_inv_def flying_def)
  have r: "write_collect w s = Some (?w, ?s)" by (rule collect_busy_eq [OF lk l c y])
  have t: "tio_only s ?s" using collect_pages [of "wi_ufd e" 0 "e # ws"] c l by (simp add: tio_only_def wl_pages_def)
  have "flying ?s = batch ?w"
  proof -
    have "wi_ufd x = wi_ufd e" if "x \<in> set taken" for x
      using that collect_ufd [of x "wi_ufd e" 0 "e # ws"] unfolding c by simp
    from collect_batch [of taken "wi_ufd e", OF this] show ?thesis
      using collect_flying [OF f, of "wi_ufd e" 0] unfolding c by (simp add: flying_def batch_def)
  qed
  moreover have "unowned owns ?s ws'"
    using u l unowned_pages [of owns s] unowned_pages [of owns ?s] tio_only_keeps(4) [OF t, of owns] t
    by (simp add: tio_only_def)
  moreover have "taken \<noteq> []" using collect_nonempty [of e ws] c by simp
  ultimately have "writer_pc_inv content owns ?w ?s" by (simp add: writer_pc_inv_def)
  then have "writer_inv content owns client_ok ?w ?s"
    using inv lk tio_only_keeps [OF t] unfolding writer_inv_def by simp
  then show ?thesis using r tio_only_keeps(3) [OF t] unfolding transparent_step_def by blast
qed

lemma delete_written_filter:
  assumes "distinct_keys wi_key (write_list (fm_tio s))" "distinct ks"
    "Pair ufd ` set ks \<subseteq> wi_key ` set (write_list (fm_tio s))"
  shows "delete_written ufd ks s = s\<lparr>fm_tio := (fm_tio s)\<lparr>write_list :=
     filter (\<lambda>e. wi_key e \<notin> Pair ufd ` set ks) (write_list (fm_tio s))\<rparr>\<rparr>"
  using assms
proof (induction ks arbitrary: s)
  case (Cons k ks)
  let ?l = "drop_key wi_key (ufd, k) (write_list (fm_tio s))"
  let ?s = "s\<lparr>fm_tio := (fm_tio s)\<lparr>write_list := ?l\<rparr>\<rparr>"
  have k: "(ufd, k) \<in> wi_key ` set (write_list (fm_tio s))" using Cons.prems(3) by auto
  have d: "distinct_keys wi_key ?l" using wl.distinct_del [OF Cons.prems(1) k] hash_delete_drop [OF Cons.prems(1)] by simp
  have sub: "Pair ufd ` set ks \<subseteq> wi_key ` set ?l" using Cons.prems(2,3) by (fastforce simp: drop_key_def)
  have "delete_written ufd (k # ks) s = delete_written ufd ks ?s"
    using k hash_find_None [of wi_key "(ufd, k)"] hash_delete_drop [OF Cons.prems(1)]
    by (auto simp: del_write_info_def split: option.splits)
  also have "\<dots> = s\<lparr>fm_tio := (fm_tio s)\<lparr>write_list := filter (\<lambda>e. wi_key e \<notin> Pair ufd ` set ks) ?l\<rparr>\<rparr>"
    using Cons.IH [of ?s] d sub Cons.prems(2) by simp
  also have "filter (\<lambda>e. wi_key e \<notin> Pair ufd ` set ks) ?l
      = filter (\<lambda>e. wi_key e \<notin> Pair ufd ` set (k # ks)) (write_list (fm_tio s))"
    by (auto simp: drop_key_def intro: filter_cong)
  finally show ?case .
qed simp

lemma flying_keys:
  assumes "distinct_keys wi_key (write_list (fm_tio s))" "map wi_key (flying s) = map (Pair ufd) ks"
  shows "filter (\<lambda>e. wi_key e \<notin> Pair ufd ` set ks) (write_list (fm_tio s)) = grounded s"
    and "distinct ks" and "Pair ufd ` set ks \<subseteq> wi_key ` set (write_list (fm_tio s))"
proof -
  have k: "Pair ufd ` set ks = wi_key ` set (flying s)" using arg_cong [OF assms(2), of set] by simp
  have "e \<in> set (flying s)" if "e \<in> set (write_list (fm_tio s))" "wi_key e = wi_key e'" "e' \<in> set (flying s)" for e e'
  proof -
    have "inj_on wi_key (set (write_list (fm_tio s)))" using assms(1) by (simp add: distinct_map)
    then have "e = e'" using that by (auto simp: flying_def dest: inj_onD)
    then show ?thesis using that by simp
  qed
  then have "wi_key e \<in> wi_key ` set (flying s) \<longleftrightarrow> wi_in_flight e" if "e \<in> set (write_list (fm_tio s))" for e
    using that by (auto simp: flying_def)
  then show "filter (\<lambda>e. wi_key e \<notin> Pair ufd ` set ks) (write_list (fm_tio s)) = grounded s"
    unfolding grounded_def k by (intro filter_cong) auto
  have "distinct (map wi_key (flying s))" using assms(1) by (simp add: flying_def distinct_map_filter)
  then show "distinct ks" unfolding assms(2) by (simp add: distinct_map)
  show "Pair ufd ` set ks \<subseteq> wi_key ` set (write_list (fm_tio s))" unfolding k by (auto simp: flying_def)
qed

lemma list_ok_subset:
  assumes "list_ok s" "fm_map s' = fm_map s" "fm_mach s' = fm_mach s"
    "prefetch_list (fm_tio s') = prefetch_list (fm_tio s)" "write_list (fm_tio s') = filter P (write_list (fm_tio s))"
  shows "list_ok s'"
  using assms by (simp add: list_ok_def tio_wf_def registered_def distinct_map_filter)

text \<open>Taking pages off the list that the store already holds.\<close>

lemma pending_delete:
  assumes d: "distinct_keys wi_key (write_list (fm_tio s))" and m: "fm_mach s' = fm_mach s"
    and l: "write_list (fm_tio s') = filter P (write_list (fm_tio s))"
  shows "pending s' f a = (case find_write_info f a (fm_tio s) of
      Some e \<Rightarrow> if P e then bufs (fm_mach s) (wi_page e) else None | None \<Rightarrow> None)"
proof -
  have d': "distinct_keys wi_key (write_list (fm_tio s'))" using d l by (simp add: distinct_map_filter)
  show ?thesis
  proof (cases "find_write_info f a (fm_tio s)")
    case None
    then have "find_write_info f a (fm_tio s') = None" using l by (auto simp: find_write_info_def hash_find_None)
    then show ?thesis using None by (simp add: pending_def)
  next
    case (Some e)
    then have e: "e \<in> set (write_list (fm_tio s))" "wi_key e = (f, a)"
      using hash_find_iff [OF d] by (auto simp: find_write_info_def)
    show ?thesis
    proof (cases "P e")
      case True
      then have "find_write_info f a (fm_tio s') = Some e" using e l hash_find_iff [OF d'] by (auto simp: find_write_info_def)
      then show ?thesis using True Some m by (simp add: pending_def)
    next
      case False
      have "x = e" if "x \<in> set (write_list (fm_tio s))" "wi_key x = (f, a)" for x
        using that e d by (metis distinct_map inj_onD)
      then have "find_write_info f a (fm_tio s') = None"
        using False l by (auto simp: find_write_info_def hash_find_None image_iff)
      then show ?thesis using False Some by (simp add: pending_def)
    qed
  qed
qed

lemma delete_eq:
  assumes d: "distinct_keys wi_key (write_list (fm_tio s))" and fk: "map wi_key (flying s) = map (Pair (w_ufd w)) (w_keys w)"
    and lk: "fm_locks s = {}"
  shows "write_delete w s = Some (w\<lparr>w_pc := WFinish, w_waiting := isUfhandlerWaiting (fm_tio s)\<rparr>,
    s\<lparr>fm_tio := (fm_tio s)\<lparr>write_list := grounded s\<rparr>\<rparr>)"
proof -
  let ?s = "s\<lparr>fm_tio := (fm_tio s)\<lparr>write_list := grounded s\<rparr>\<rparr>"
  have "delete_written (w_ufd w) (w_keys w) (s\<lparr>fm_locks := {list_lock}\<rparr>) = ?s\<lparr>fm_locks := {list_lock}\<rparr>"
    using delete_written_filter [of "s\<lparr>fm_locks := {list_lock}\<rparr>"] d flying_keys [OF d fk] by simp
  then show ?thesis using lk by (cases s) (auto simp: write_delete_def fm_step_defs mutex_lock_def mutex_unlock_def)
qed

lemma delete_step:
  assumes inv: "writer_inv content owns client_ok w s" and pc: "w_pc w = WDelete"
  shows "transparent_step content owns client_ok s (write_delete w s)"
proof -
  have lk: "fm_locks s = {}" and lo: "list_ok s" and fk: "map wi_key (flying s) = map (Pair (w_ufd w)) (w_keys w)"
    and rem: "\<forall>e \<in> set (flying s). remote content s (wi_ufd e) (wi_pageaddr e) = bufs (fm_mach s) (wi_page e)"
    and u: "unowned owns s (grounded s)" "disposable owns w s"
    using inv pc by (auto simp: writer_inv_def writer_pc_inv_def)
  have d: "distinct_keys wi_key (write_list (fm_tio s))" using lo by (simp add: list_ok_def tio_wf_def)
  let ?s = "s\<lparr>fm_tio := (fm_tio s)\<lparr>write_list := grounded s\<rparr>\<rparr>"
  let ?w = "w\<lparr>w_pc := WFinish, w_waiting := isUfhandlerWaiting (fm_tio s)\<rparr>"
  have r: "write_delete w s = Some (?w, ?s)" by (rule delete_eq [OF d fk lk])
  have l: "write_list (fm_tio ?s) = filter (\<lambda>e. \<not> wi_in_flight e) (write_list (fm_tio s))" by (simp add: grounded_def)
  have g: "flying ?s = []" "grounded ?s = grounded s" by (simp_all add: flying_def grounded_def)
  have rm: "remote content ?s = remote content s" "owned owns no_demands ?s = owned owns no_demands s"
    by (simp_all add: remote_def fd_client_def owned_def fun_eq_iff)
  have "visible content ?s f a = visible content s f a" for f a
  proof (cases "find_write_info f a (fm_tio s)")
    case None
    then have "pending ?s f a = None" "pending s f a = None"
      using pending_delete [OF d _ l, of f a] by (simp_all add: pending_def)
    then show ?thesis using rm by (simp add: visible_def cong: option.case_cong)
  next
    case (Some e)
    then have e: "e \<in> set (write_list (fm_tio s))" "wi_key e = (f, a)"
      using hash_find_iff [OF d] by (auto simp: find_write_info_def)
    then have "wi_in_flight e \<Longrightarrow> remote content s f a = bufs (fm_mach s) (wi_page e)"
      using rem by (auto simp: flying_def wi_key_def)
    moreover have "bufs (fm_mach s) (wi_page e) \<noteq> None" using lo e(1) by (auto simp: list_ok_def)
    moreover have "pending s f a = bufs (fm_mach s) (wi_page e)" using Some by (simp add: pending_def)
    moreover have "pending ?s f a = (if wi_in_flight e then None else bufs (fm_mach s) (wi_page e))"
      using Some pending_delete [OF d _ l, of f a] by simp
    ultimately show ?thesis using rm by (cases "wi_in_flight e") (auto simp: visible_def cong: option.case_cong)
  qed
  moreover have "writer_pc_inv content owns ?w ?s"
    using g u rm by (simp add: writer_pc_inv_def unowned_def disposable_def)
  moreover have "list_ok ?s" by (rule list_ok_subset [OF lo _ _ _ l]) simp_all
  moreover have "length (write_list (fm_tio ?s)) \<le> length (write_list (fm_tio s))" unfolding l by (rule length_filter_le)
  moreover have "fm_core owns client_ok no_demands ?s" using inv by (simp add: writer_inv_def fm_core_def)
  ultimately show ?thesis using r inv lk
    by (auto simp: transparent_step_def writer_inv_def fun_eq_iff intro: le_less_trans)
qed

lemma sleep_step:
  assumes inv: "writer_inv content owns client_ok w s" and pc: "w_pc w = WSleep" and sem: "0 < writer_sem (fm_tio s)"
  shows "transparent_step content owns client_ok s (write_sleep w s)"
proof -
  let ?s = "s\<lparr>fm_tio := (fm_tio s)\<lparr>writer_sem := writer_sem (fm_tio s) - 1\<rparr>\<rparr>"
  have t: "tio_only s ?s" by (simp add: tio_only_def wl_pages_def)
  have l: "write_list (fm_tio ?s) = write_list (fm_tio s)" by simp
  have "writer_inv content owns client_ok (w\<lparr>w_pc := WCollect\<rparr>) ?s"
    using inv pc l tio_only_keeps [OF t]
    unfolding writer_inv_def writer_pc_inv_def flying_def grounded_def unowned_def by simp
  then show ?thesis using sem tio_only_keeps(3) [OF t]
    by (auto simp: transparent_step_def write_sleep_def upd_tio_def)
qed

lemma post_tio_only:
  "tio_only s (post_flushed s)" "tio_only s (post_ufhandler s)"
  "write_list (fm_tio (post_flushed s)) = write_list (fm_tio s)" "fm_locks (post_flushed s) = fm_locks s"
  "write_list (fm_tio (post_ufhandler s)) = write_list (fm_tio s)" "fm_locks (post_ufhandler s) = fm_locks s"
  by (simp_all add: tio_only_def wl_pages_def post_flushed_def post_ufhandler_def upd_tio_def)

lemma tio_only_refl [simp]: "tio_only s s"
  by (simp add: tio_only_def)

definition free_all :: "'c env \<Rightarrow> ptr list \<Rightarrow> 'c fm \<Rightarrow> 'c fm" where
  "free_all E bs s = fold (\<lambda>b s. if b \<noteq> NULL then fm_munmap E b s else s) bs s"

context extern_ram_batch
begin

lemma free_all_core:
  assumes K: "kernel_ok K" "e_kernel E = K" and core: "fm_core owns client_ok no_demands s"
    and b: "\<forall>b \<in> set bs. b \<noteq> NULL \<longrightarrow> b \<notin> owned owns no_demands s"
  shows "fm_core owns client_ok no_demands (free_all E bs s)" "remote content (free_all E bs s) = remote content s"
    "mach_only s (free_all E bs s)" "resident (fm_mach (free_all E bs s)) = resident (fm_mach s)"
    "\<forall>q. (q \<in> set bs \<longrightarrow> q = NULL) \<longrightarrow> bufs (fm_mach (free_all E bs s)) q = bufs (fm_mach s) q"
proof -
  have "fm_core owns client_ok no_demands (free_all E bs s) \<and> remote content (free_all E bs s) = remote content s
    \<and> mach_only s (free_all E bs s) \<and> resident (fm_mach (free_all E bs s)) = resident (fm_mach s)
    \<and> (\<forall>q. (q \<in> set bs \<longrightarrow> q = NULL) \<longrightarrow> bufs (fm_mach (free_all E bs s)) q = bufs (fm_mach s) q)"
    using core b
  proof (induction bs arbitrary: s)
    case (Cons x xs)
    show ?case
    proof (cases "x = NULL")
      case True
      then show ?thesis using Cons.IH [of s] Cons.prems by (auto simp: free_all_def)
    next
      case False
      let ?s = "fm_munmap E x s"
      have mo: "mach_only s ?s" by simp
      have f: "owned owns no_demands ?s = owned owns no_demands s" using mach_only_fields [OF mo] by (simp add: owned_def)
      have c: "fm_core owns client_ok no_demands ?s" "remote content ?s = remote content s"
        using munmap_core [OF K Cons.prems(1), of x] Cons.prems(2) False by auto
      have x: "free_all E (x # xs) s = free_all E xs ?s" using False by (simp add: free_all_def)
      have ih: "fm_core owns client_ok no_demands (free_all E xs ?s)" "remote content (free_all E xs ?s) = remote content ?s"
        "mach_only ?s (free_all E xs ?s)" "resident (fm_mach (free_all E xs ?s)) = resident (fm_mach ?s)"
        "\<forall>q. (q \<in> set xs \<longrightarrow> q = NULL) \<longrightarrow> bufs (fm_mach (free_all E xs ?s)) q = bufs (fm_mach ?s) q"
        using Cons.IH [OF c(1)] Cons.prems(2) f by auto
      have "kernel_ok (e_kernel E)" using K by simp
      note m = fm_munmap_pages [OF this, of x s]
      show ?thesis unfolding x using ih c mach_only_trans [OF mo ih(3)] m False by auto
    qed
  qed (simp add: free_all_def)
  then show "fm_core owns client_ok no_demands (free_all E bs s)" "remote content (free_all E bs s) = remote content s"
    "mach_only s (free_all E bs s)" "resident (fm_mach (free_all E bs s)) = resident (fm_mach s)"
    "\<forall>q. (q \<in> set bs \<longrightarrow> q = NULL) \<longrightarrow> bufs (fm_mach (free_all E bs s)) q = bufs (fm_mach s) q"
    by auto
qed

lemma finish_free:
  assumes K: "kernel_ok K" "e_kernel E = K" and core: "fm_core owns client_ok no_demands s" and lo: "list_ok s"
    and u: "unowned owns s (write_list (fm_tio s))"
    and b: "\<forall>b \<in> set bs. b \<noteq> NULL \<longrightarrow> b \<notin> owned owns no_demands s \<and> b \<notin> wi_page ` set (write_list (fm_tio s))"
  shows "fm_core owns client_ok no_demands (free_all E bs s)" "list_ok (free_all E bs s)"
    "visible content (free_all E bs s) = visible content s" "fm_tio (free_all E bs s) = fm_tio s"
    "fm_locks (free_all E bs s) = fm_locks s" "owned owns no_demands (free_all E bs s) = owned owns no_demands s"
proof -
  let ?s = "free_all E bs s"
  note f = free_all_core [OF K core, of bs]
  have f: "fm_core owns client_ok no_demands ?s" "remote content ?s = remote content s" "mach_only s ?s"
    "resident (fm_mach ?s) = resident (fm_mach s)"
    "\<forall>q. (q \<in> set bs \<longrightarrow> q = NULL) \<longrightarrow> bufs (fm_mach ?s) q = bufs (fm_mach s) q"
    using f b by blast+
  note mo = mach_only_fields [OF f(3)]
  have w: "wl_pages ?s = wl_pages s" using mo by (simp add: wl_pages_def)
  have same: "bufs (fm_mach ?s) p = bufs (fm_mach s) p" if "p \<in> snd ` set (wl_pages s)" for p
  proof -
    have "p \<in> wi_page ` set (write_list (fm_tio s))" using that by (simp add: wl_pages_def image_image)
    then have "p \<in> set bs \<longrightarrow> p = NULL" using b by blast
    then show ?thesis using f(5) by blast
  qed
  show "fm_core owns client_ok no_demands ?s" by (rule f(1))
  show "visible content ?s = visible content s" using f(2,4) w same by (intro visible_cong pending_cong) auto
  have "bufs (fm_mach ?s) p \<noteq> None" if "((g, a), p) \<in> set (wl_pages s)" for g a p
    using that same [of p] lo unfolding list_ok_pages by force
  then show "list_ok ?s" using lo w mo f(4) unfolding list_ok_pages registered_def by auto
  show "fm_tio ?s = fm_tio s" "fm_locks ?s = fm_locks s" "owned owns no_demands ?s = owned owns no_demands s"
    using mo by (simp_all add: owned_def)
qed

lemma finish_step:
  assumes K: "kernel_ok K" "e_kernel E = K" and inv: "writer_inv content owns client_ok w s" and pc: "w_pc w = WFinish"
  shows "transparent_step content owns client_ok s (write_finish E w s)"
proof -
  define s1 where "s1 = (if \<not> w_flushRemaining w then post_flushed s else s)"
  define s2 where "s2 = (if w_free_values w then free_all E (w_bufs w) s1 else s1)"
  define s3 where "s3 = (if w_waiting w then post_ufhandler s2 else s2)"
  have r: "write_finish E w s = Some (w\<lparr>w_pc := WCollect\<rparr>, s3)"
    by (simp add: write_finish_def s1_def s2_def s3_def free_all_def Let_def)
  have t1: "tio_only s s1" "write_list (fm_tio s1) = write_list (fm_tio s)" "fm_locks s1 = fm_locks s"
    by (simp_all add: s1_def post_tio_only)
  have t3: "tio_only s2 s3" "write_list (fm_tio s3) = write_list (fm_tio s2)" "fm_locks s3 = fm_locks s2"
    by (simp_all add: s3_def post_tio_only)
  have fl: "flying s = []" and u: "unowned owns s (grounded s)" and d: "disposable owns w s"
    and o: "fm_core owns client_ok no_demands s" "list_ok s" "fm_locks s = {}" "length (write_list (fm_tio s)) < 2 ^ 31"
    using inv pc by (auto simp: writer_inv_def writer_pc_inv_def)
  note g = all_grounded [OF fl]
  note k1 = tio_only_keeps [OF t1(1)]
  have core: "fm_core owns client_ok no_demands s1" and lo: "list_ok s1" and u1: "unowned owns s1 (write_list (fm_tio s1))"
    using o k1 u g t1(2) by (simp_all add: unowned_def)
  have b: "\<forall>b \<in> set (w_bufs w). b \<noteq> NULL \<longrightarrow> b \<notin> owned owns no_demands s1 \<and> b \<notin> wi_page ` set (write_list (fm_tio s1))"
    if "w_free_values w" using d that g k1 t1(2) by (simp add: disposable_def)
  have s2: "fm_core owns client_ok no_demands s2" "list_ok s2" "visible content s2 = visible content s1"
    "write_list (fm_tio s2) = write_list (fm_tio s1)" "fm_locks s2 = fm_locks s1" "owned owns no_demands s2 = owned owns no_demands s1"
    using finish_free [OF K core lo u1] b core lo by (auto simp: s2_def)
  note k3 = tio_only_keeps [OF t3(1)]
  have "writer_pc_inv content owns (w\<lparr>w_pc := WCollect\<rparr>) s3"
    using fl u1 t1 t3 s2(4,6) k3 unfolding writer_pc_inv_def flying_def grounded_def unowned_def by simp
  then have "writer_inv content owns client_ok (w\<lparr>w_pc := WCollect\<rparr>) s3"
    using s2 o t1 t3 k3 unfolding writer_inv_def by simp
  then show ?thesis using r s2(3) k1(3) k3(3) unfolding transparent_step_def by auto
qed

end

text \<open>What the batch writes.\<close>

definition batch_pages :: "machine \<Rightarrow> writer \<Rightarrow> u64 \<Rightarrow> page option" where
  "batch_pages M w = map_of (zip (w_keys w) (map (\<lambda>v. the (bufs M v)) (w_bufs w)))"

lemma batch_flying:
  assumes lo: "list_ok s" and f: "flying s = batch w" and l: "length (w_bufs w) = length (w_keys w)"
  shows "distinct (w_keys w)" "distinct (w_bufs w)" "wi_page ` set (flying s) = set (w_bufs w)"
    "map wi_key (flying s) = map (Pair (w_ufd w)) (w_keys w)"
    "\<forall>v \<in> set (w_bufs w). bufs (fm_mach s) v \<noteq> None \<and> v \<noteq> NULL"
    "\<forall>e \<in> set (flying s). wi_ufd e = w_ufd w \<and> batch_pages (fm_mach s) w (wi_pageaddr e) = bufs (fm_mach s) (wi_page e)"
    "\<forall>v \<in> set (w_bufs w). v \<notin> wi_page ` set (grounded s)"
proof -
  have d: "distinct_keys wi_key (write_list (fm_tio s))" and dp: "distinct_keys wi_page (write_list (fm_tio s))"
    using lo by (auto simp: list_ok_def tio_wf_def)
  have p: "map wi_page (flying s) = w_bufs w" unfolding f using l by (simp add: batch_def list_eq_iff_nth_eq)
  show k: "map wi_key (flying s) = map (Pair (w_ufd w)) (w_keys w)"
    unfolding f using l by (simp add: batch_def list_eq_iff_nth_eq wi_key_def)
  show dk: "distinct (w_keys w)" by (rule flying_keys(2) [OF d k])
  have "distinct (map wi_page (flying s))" using dp by (simp add: flying_def distinct_map_filter)
  then show "distinct (w_bufs w)" unfolding p .
  show ps: "wi_page ` set (flying s) = set (w_bufs w)" using arg_cong [OF p, of set] by simp
  show "\<forall>v \<in> set (w_bufs w). bufs (fm_mach s) v \<noteq> None \<and> v \<noteq> NULL"
    unfolding ps [symmetric] using lo by (auto simp: flying_def list_ok_def)
  have "batch_pages (fm_mach s) w k = Some (the (bufs (fm_mach s) b))" if kb: "(k, b) \<in> set (zip (w_keys w) (w_bufs w))" for k b
  proof -
    obtain i where i: "i < length (w_keys w)" "w_keys w ! i = k" "w_bufs w ! i = b" using kb by (auto simp: in_set_zip)
    have "(k, the (bufs (fm_mach s) b)) \<in> set (zip (w_keys w) (map (\<lambda>v. the (bufs (fm_mach s) v)) (w_bufs w)))"
      using i l by (auto simp: in_set_zip)
    then show ?thesis unfolding batch_pages_def using dk l by simp
  qed
  moreover have "bufs (fm_mach s) (wi_page e) \<noteq> None" if "e \<in> set (flying s)" for e
    using that lo by (auto simp: flying_def list_ok_def)
  ultimately show "\<forall>e \<in> set (flying s). wi_ufd e = w_ufd w \<and> batch_pages (fm_mach s) w (wi_pageaddr e) = bufs (fm_mach s) (wi_page e)"
    unfolding f batch_def by fastforce
  have "v \<notin> wi_page ` set (grounded s)" if v: "v \<in> wi_page ` set (flying s)" for v
  proof
    assume "v \<in> wi_page ` set (grounded s)"
    then obtain x where x: "x \<in> set (write_list (fm_tio s))" "\<not> wi_in_flight x" "wi_page x = v" by (auto simp: grounded_def)
    obtain y where y: "y \<in> set (write_list (fm_tio s))" "wi_in_flight y" "wi_page y = v" using v by (auto simp: flying_def)
    have "x = y" using dp x y by (auto simp: distinct_map dest: inj_onD)
    then show False using x y by simp
  qed
  then show "\<forall>v \<in> set (w_bufs w). v \<notin> wi_page ` set (grounded s)" unfolding ps by blast
qed

text \<open>Writing pages that wait on the list does not show: the list goes first.\<close>

lemma batch_visible:
  assumes lo: "list_ok s" and k: "map wi_key (flying s) = map (Pair (w_ufd w)) (w_keys w)"
    and same: "fm_tio s' = fm_tio s" "fm_mach s' = fm_mach s"
    and rm: "remote content s' = (remote content s)(w_ufd w := remote content s (w_ufd w) ++ batch_pages (fm_mach s) w)"
  shows "visible content s' = visible content s"
proof (intro ext)
  fix f a
  have p: "pending s' f a = pending s f a" using same by (simp add: pending_def)
  have d: "distinct_keys wi_key (write_list (fm_tio s))" using lo by (simp add: list_ok_def tio_wf_def)
  show "visible content s' f a = visible content s f a"
  proof (cases "pending s f a")
    case None
    have "f \<noteq> w_ufd w \<or> a \<notin> set (w_keys w)"
    proof (rule ccontr)
      assume "\<not> (f \<noteq> w_ufd w \<or> a \<notin> set (w_keys w))"
      then have "(f, a) \<in> wi_key ` set (write_list (fm_tio s))" using flying_keys(3) [OF d k] by auto
      then obtain e where e: "find_write_info f a (fm_tio s) = Some e"
        using hash_find_None [of wi_key "(f, a)"] by (fastforce simp: find_write_info_def)
      then have "e \<in> set (write_list (fm_tio s))" using hash_find_iff [OF d] by (simp add: find_write_info_def)
      then have "bufs (fm_mach s) (wi_page e) \<noteq> None" using lo by (auto simp: list_ok_def)
      then show False using None e by (simp add: pending_def)
    qed
    then have "remote content s' f a = remote content s f a"
      unfolding rm batch_pages_def by (auto simp: map_add_dom_app_simps dom_zip)
    then show ?thesis using p None same(2) by (simp add: visible_def cong: option.case_cong)
  qed (simp add: visible_def same(2) p cong: option.case_cong)
qed

context extern_ram_batch
begin

lemma batch_core:
  assumes core: "fm_core owns client_ok no_demands s" and reg: "registered (w_ufd w) s"
    and lk: "fm_locks s = {}" and B: "e_backend E = B"
    and l: "length (w_bufs w) = length (w_keys w)" and d: "distinct (w_keys w)" "distinct (w_bufs w)"
    and v: "\<forall>v \<in> set (w_bufs w). bufs (fm_mach s) v \<noteq> None \<and> v \<noteq> NULL \<and> v \<notin> owned owns no_demands s"
  obtains fr bs s' where "write_batch E w s = Some (w\<lparr>w_pc := WDelete, w_bufs := bs, w_free_values := fr\<rparr>, s')"
    "fm_core owns client_ok no_demands s'" "s' = s\<lparr>fm_clients := fm_clients s'\<rparr>"
    "remote content s' = (remote content s)(w_ufd w := remote content s (w_ufd w) ++ batch_pages (fm_mach s) w)"
    "owned owns no_demands s' \<subseteq> owned owns no_demands s \<union> set (w_bufs w)"
    "fr \<Longrightarrow> \<forall>b \<in> set bs. b \<noteq> NULL \<longrightarrow> b \<in> owned owns no_demands s \<union> set (w_bufs w) \<and> b \<notin> owned owns no_demands s'"
proof -
  let ?f = "w_ufd w" and ?ks = "w_keys w" and ?vs = "w_bufs w"
  obtain e c where e: "hash_find ms_fd ?f (fm_map s) = Some e" "e \<in> set (fm_map s)" "ms_fd e = ?f"
    and c: "client_get (fm_clients s) (ms_client e) = Some c" "fd_client ?f s = Some c"
    using core reg by (rule fd_client_Some)
  let ?p = "ms_client e"
  have p: "?p \<noteq> NULL" using c(1) by (auto simp: client_get_def split: if_splits)
  have ok: "client_ok (fm_mach s) c" using core c(1) by (auto simp: fm_core_def)
  have vc: "\<forall>v \<in> set ?vs. bufs (fm_mach s) v \<noteq> None \<and> v \<noteq> NULL \<and> v \<notin> owns c" using v c(1) by (auto simp: owned_def)
  obtain fr vs' c' where w: "er_multiWrite B ?ks (int (length ?ks)) ?vs (replicate (length ?ks) 4096) (fm_mach s, c)
      = Some (fr, 0, vs', fm_mach s, c')"
    and c': "client_ok (fm_mach s) c'" "content (fm_mach s) c' = content (fm_mach s) c ++ batch_pages (fm_mach s) w"
      "owns c' \<subseteq> owns c \<union> set ?vs" "fr \<longrightarrow> (\<forall>v \<in> set vs'. v \<noteq> NULL \<longrightarrow> v \<in> owns c \<union> set ?vs \<and> v \<notin> owns c')"
    using batch_ok [OF ok l d vc] unfolding batch_pages_def by blast
  let ?s = "s\<lparr>fm_clients := client_set ?p c' (fm_clients s)\<rparr>"
  note cg = client_get_set [OF c(1), of c']
  have disj: "owns x \<inter> (owns c \<union> set ?vs) = {}" if "client_get (fm_clients s) q = Some x" "q \<noteq> ?p" for q x
  proof -
    have "owns x \<inter> owns c = {}" using core c(1) that unfolding fm_core_def by blast
    moreover have "owns x \<inter> set ?vs = {}" using v that by (auto simp: owned_def)
    ultimately show ?thesis by blast
  qed
  have "fm_core owns client_ok no_demands ?s"
    unfolding fm_core_def using core c'(1,3) disj by (auto simp: fm_core_def cg split: if_splits)
  moreover have "remote content ?s = (remote content s)(?f := remote content s ?f ++ batch_pages (fm_mach s) w)"
  proof (rule ext)+
    fix g b
    show "remote content ?s g b = ((remote content s)(?f := remote content s ?f ++ batch_pages (fm_mach s) w)) g b"
      using c e(1) c'(2) fd_client_other [OF core e(1), of g]
      by (cases "hash_find ms_fd g (fm_map s)") (auto simp: remote_def fd_client_def cg map_add_def cong: option.case_cong)
  qed
  moreover have "owned owns no_demands ?s \<subseteq> owned owns no_demands s \<union> set ?vs"
    using c'(3) c(1) by (fastforce simp: owned_def cg split: if_splits)
  moreover have "\<forall>b \<in> set vs'. b \<noteq> NULL \<longrightarrow> b \<in> owned owns no_demands s \<union> set ?vs \<and> b \<notin> owned owns no_demands ?s" if fr
  proof (intro ballI impI)
    fix b
    assume "b \<in> set vs'" "b \<noteq> NULL"
    then have b: "b \<in> owns c \<union> set ?vs" "b \<notin> owns c'" using c'(4) that by auto
    then show "b \<in> owned owns no_demands s \<union> set ?vs \<and> b \<notin> owned owns no_demands ?s"
      using c(1) disj by (fastforce simp: owned_def cg split: if_splits)
  qed
  moreover have "write_batch E w s = Some (w\<lparr>w_pc := WDelete, w_bufs := vs', w_free_values := fr\<rparr>, ?s)"
    using e(1) p c(1) w lk B
    by (simp add: write_batch_def fm_client_def get_client_by_fd_free fm_writePages_def writePages_def writePages_loop.simps put_client_def)
  ultimately show thesis using that [of fr vs' ?s] by simp
qed

lemma write_step:
  assumes B: "e_backend E = B" and inv: "writer_inv content owns client_ok w s" and pc: "w_pc w = WWrite"
  shows "transparent_step content owns client_ok s (write_batch E w s)"
    and "\<exists>w' s'. write_batch E w s = Some (w', s') \<and> w_pc w' = WDelete \<and> fm_tio s' = fm_tio s \<and> fm_mach s' = fm_mach s"
proof -
  have lk: "fm_locks s = {}" and core: "fm_core owns client_ok no_demands s" and lo: "list_ok s"
    and f: "flying s = batch w" and l: "length (w_bufs w) = length (w_keys w)" and ne: "w_keys w \<noteq> []"
    and u: "unowned owns s (write_list (fm_tio s))"
    using inv pc by (auto simp: writer_inv_def writer_pc_inv_def)
  note b = batch_flying [OF lo f l]
  have own: "v \<notin> owned owns no_demands s" if "v \<in> set (w_bufs w)" for v
    using that u unfolding b(3) [symmetric] by (auto simp: unowned_def flying_def)
  obtain e where e: "e \<in> set (flying s)" using ne b(4) by (cases "flying s") auto
  then have reg: "registered (w_ufd w) s" using lo b(6) by (fastforce simp: list_ok_def flying_def)
  obtain fr bs s' where r: "write_batch E w s = Some (w\<lparr>w_pc := WDelete, w_bufs := bs, w_free_values := fr\<rparr>, s')"
    and c: "fm_core owns client_ok no_demands s'" and s': "s' = s\<lparr>fm_clients := fm_clients s'\<rparr>"
    and rm: "remote content s' = (remote content s)(w_ufd w := remote content s (w_ufd w) ++ batch_pages (fm_mach s) w)"
    and o: "owned owns no_demands s' \<subseteq> owned owns no_demands s \<union> set (w_bufs w)"
    and fr: "fr \<Longrightarrow> \<forall>b \<in> set bs. b \<noteq> NULL \<longrightarrow> b \<in> owned owns no_demands s \<union> set (w_bufs w) \<and> b \<notin> owned owns no_demands s'"
    using batch_core [OF core reg lk B l b(1,2)] b(5) own by blast
  have same: "fm_tio s' = fm_tio s" "fm_mach s' = fm_mach s" "fm_map s' = fm_map s" "fm_locks s' = fm_locks s"
    by (subst s', simp)+
  have g: "flying s' = flying s" "grounded s' = grounded s" using same by (simp_all add: flying_def grounded_def)
  have fly: "remote content s' (wi_ufd e) (wi_pageaddr e) = bufs (fm_mach s) (wi_page e)" if e: "e \<in> set (flying s)" for e
  proof -
    have "bufs (fm_mach s) (wi_page e) \<noteq> None" using e lo by (auto simp: flying_def list_ok_def)
    then show ?thesis using e b(6) unfolding rm by (auto simp: map_add_def)
  qed
  have gnd: "wi_page e \<notin> owned owns no_demands s \<union> set (w_bufs w)" if "e \<in> set (grounded s)" for e
    using that u b(7) by (auto simp: unowned_def grounded_def)
  have "unowned owns s' (grounded s)" using gnd o by (fastforce simp: unowned_def)
  moreover have "disposable owns (w\<lparr>w_pc := WDelete, w_bufs := bs, w_free_values := fr\<rparr>) s'"
  proof -
    have "bufs (fm_mach s) b \<noteq> None" if "b \<in> owned owns no_demands s \<union> set (w_bufs w)" for b
      using that b(5) owned_mapped [OF core] by blast
    moreover have "b \<notin> wi_page ` set (grounded s)" if "b \<in> owned owns no_demands s \<union> set (w_bufs w)" for b
      using that gnd by blast
    ultimately show ?thesis using fr unfolding disposable_def g same by simp
  qed
  ultimately have "writer_pc_inv content owns (w\<lparr>w_pc := WDelete, w_bufs := bs, w_free_values := fr\<rparr>) s'"
    using b(4) fly unfolding writer_pc_inv_def g same by simp
  moreover have "list_ok s'" using lo unfolding list_ok_def same registered_def .
  ultimately have "writer_inv content owns client_ok (w\<lparr>w_pc := WDelete, w_bufs := bs, w_free_values := fr\<rparr>) s'"
    using inv c unfolding writer_inv_def same by simp
  moreover have "visible content s' = visible content s"
    by (rule batch_visible [OF lo b(4) same(1,2) rm])
  ultimately show "transparent_step content owns client_ok s (write_batch E w s)"
    using r unfolding transparent_step_def by blast
  show "\<exists>w' s'. write_batch E w s = Some (w', s') \<and> w_pc w' = WDelete \<and> fm_tio s' = fm_tio s \<and> fm_mach s' = fm_mach s"
    using r same by simp
qed

lemma thread_step:
  assumes K: "kernel_ok K" "e_kernel E = K" "e_backend E = B" and inv: "writer_inv content owns client_ok w s"
    and sem: "w_pc w = WSleep \<longrightarrow> 0 < writer_sem (fm_tio s)"
  shows "transparent_step content owns client_ok s (write_into_externram_thread E (w, s))"
proof (cases "w_pc w")
  case WCollect
  then have "transparent_step content owns client_ok s (write_collect w s)"
    using collect_idle [OF inv] collect_busy [OF inv] by blast
  then show ?thesis using WCollect by (simp add: write_into_externram_thread_def)
next
  case WWrite
  then show ?thesis using write_step(1) [OF K(3) inv] by (simp add: write_into_externram_thread_def)
next
  case WDelete
  then show ?thesis using delete_step [OF inv] by (simp add: write_into_externram_thread_def)
next
  case WFinish
  then show ?thesis using finish_step [OF K(1,2) inv] by (simp add: write_into_externram_thread_def)
next
  case WSleep
  then show ?thesis using sleep_step [OF inv] sem by (simp add: write_into_externram_thread_def)
qed

text \<open>An eviction that fails leaves everything in place.\<close>

lemma writer_frame:
  assumes inv: "writer_inv content owns client_ok w s"
    and same: "fm_map s' = fm_map s" "fm_clients s' = fm_clients s" "fm_tio s' = fm_tio s" "fm_locks s' = fm_locks s"
      "bufs (fm_mach s') = bufs (fm_mach s)" "resident (fm_mach s') = resident (fm_mach s)"
  shows "writer_inv content owns client_ok w s'" "visible content s' = visible content s"
proof -
  have core: "fm_core owns client_ok no_demands s" using inv by (simp add: writer_inv_def)
  then have "bufs (fm_mach s') MAP_FAILED = None" using same by (simp add: fm_core_def)
  note c = core_frame [OF core same(1,2) _ _ this]
  have c: "fm_core owns client_ok no_demands s'" "remote content s' = remote content s" using c same(5) by simp_all
  have g: "flying s' = flying s" "grounded s' = grounded s" "owned owns no_demands s' = owned owns no_demands s" "wl_pages s' = wl_pages s"
    using same by (simp_all add: flying_def grounded_def owned_def wl_pages_def)
  have "writer_pc_inv content owns w s' = writer_pc_inv content owns w s"
    unfolding writer_pc_inv_def g disposable_def unowned_def c same by simp
  moreover have "list_ok s' = list_ok s" unfolding list_ok_def registered_def same by simp
  ultimately show "writer_inv content owns client_ok w s'" using inv c same unfolding writer_inv_def by simp
  show "visible content s' = visible content s"
    using c same g by (intro visible_cong pending_cong) auto
qed

end

end
