(* ===== verification/Writer_Props.thy ===== *)
theory Writer_Props
  imports Writer_Inv Samples Userfault_Flush
begin

text \<open>
  The write thread beside the fault handler. The runs interleave the pieces of the thread with the
  evictions of the handler in any order; they keep the contents of every page. A round of the thread
  that was woken by a waiting handler takes the page off the list and wakes the handler.
\<close>

section \<open>The fault handler adds pages\<close>

text \<open>Moving a resident page into a fresh buffer at the end of the list.\<close>

definition enqueued :: "fd \<Rightarrow> u64 \<Rightarrow> ptr \<Rightarrow> 'c fm \<Rightarrow> 'c fm \<Rightarrow> bool" where
  "enqueued f a p s s' \<longleftrightarrow> evicted f a p (fm_mach s) (fm_mach s') \<and> fm_map s' = fm_map s
     \<and> fm_clients s' = fm_clients s \<and> fm_locks s' = fm_locks s
     \<and> prefetch_list (fm_tio s') = prefetch_list (fm_tio s)
     \<and> write_list (fm_tio s') = write_list (fm_tio s)
         @ [\<lparr>wi_ufd = f, wi_pageaddr = a, wi_page = p, wi_in_flight = False\<rparr>]"

lemma enqueued_list_ok:
  assumes lo: "list_ok s" and q: "enqueued f a p s s'" and reg: "registered f s" and res: "resident (fm_mach s) f a = Some pg"
  shows "list_ok s'" "p \<notin> wi_page ` set (write_list (fm_tio s))" "(f, a) \<notin> wi_key ` set (write_list (fm_tio s))"
proof -
  have e: "p \<noteq> NULL" "bufs (fm_mach s) p = None" "bufs (fm_mach s') = (bufs (fm_mach s))(p \<mapsto> pg)"
    "resident (fm_mach s') = (resident (fm_mach s))(f := (resident (fm_mach s) f)(a := None))"
    using q res by (simp_all add: enqueued_def evicted_def)
  show p: "p \<notin> wi_page ` set (write_list (fm_tio s))" using lo e(2) by (auto simp: list_ok_def)
  show k: "(f, a) \<notin> wi_key ` set (write_list (fm_tio s))" using lo res by (fastforce simp: list_ok_def wi_key_def)
  show "list_ok s'"
    using lo q reg p k e by (auto simp: list_ok_def enqueued_def tio_wf_def registered_def wi_key_def)
qed

lemma enqueued_pending:
  assumes lo: "list_ok s" and q: "enqueued f a p s s'" and reg: "registered f s" and res: "resident (fm_mach s) f a = Some pg"
  shows "pending s' g b = (if (g, b) = (f, a) then Some pg else pending s g b)"
proof -
  note l = enqueued_list_ok [OF lo q reg res]
  have e: "bufs (fm_mach s') = (bufs (fm_mach s))(p \<mapsto> pg)" using q res by (simp add: enqueued_def evicted_def)
  have d: "distinct_keys wi_key (write_list (fm_tio s))" using lo by (simp add: list_ok_def tio_wf_def)
  have "find_write_info g b (fm_tio s') = (if (g, b) = (f, a)
      then Some \<lparr>wi_ufd = f, wi_pageaddr = a, wi_page = p, wi_in_flight = False\<rparr> else find_write_info g b (fm_tio s))"
    using q by (simp add: find_write_info_def enqueued_def hash_find_def wi_key_def)
  moreover have "wi_page x \<noteq> p" if "find_write_info g b (fm_tio s) = Some x" for x
    using that l(2) hash_find_iff [OF d] by (auto simp: find_write_info_def)
  ultimately show ?thesis using e by (cases "find_write_info g b (fm_tio s)") (auto simp: pending_def)
qed

text \<open>The build with the write thread alone.\<close>

definition writer_config :: config where
  "writer_config = plain_config\<lparr>THREADED_WRITE_TO_EXTERNRAM := True\<rparr>"

lemma evict_enqueued:
  assumes mo: "mach_only s s1" and ev: "evicted f a p (fm_mach s) (fm_mach s1)" and lk: "fm_locks s = {}"
  shows "\<exists>s2. evict_enqueue f a p (upd_stats StatsIncrPageEvicted s1) = Some s2 \<and> enqueued f a p s s2"
  using ev lk mach_only_fields [OF mo]
  by (cases s1) (auto simp: evict_enqueue_def enqueued_def fm_step_defs post_writer_def add_write_info_def write_list_add_def
    mutex_lock_def mutex_unlock_def Let_def)

text \<open>
  The runs of the write thread beside a fault handler that evicts resident pages, in any order. The
  thread may be stopped at its semaphore; then only the handler runs.
\<close>

inductive writer_run :: "'c env \<Rightarrow> writer \<times> 'c fm \<Rightarrow> writer \<times> 'c fm \<Rightarrow> bool" for E x where
  start: "writer_run E x x"
| piece: "writer_run E x (w, s) \<Longrightarrow> write_into_externram_thread E (w, s) = Some (w', s') \<Longrightarrow> writer_run E x (w', s')"
| evict: "writer_run E x (w, s) \<Longrightarrow> registered f s \<Longrightarrow> page_aligned a \<Longrightarrow> resident (fm_mach s) f a \<noteq> None \<Longrightarrow>
    length (write_list (fm_tio s)) + 1 < 2 ^ 31 \<Longrightarrow> evict_to_externram E f a s = Some (r, s') \<Longrightarrow> writer_run E x (w, s')"

context extern_ram_batch
begin

lemma enqueued_step:
  assumes inv: "writer_inv content owns client_ok w s" and q: "enqueued f a p s s'" and reg: "registered f s"
    and res: "resident (fm_mach s) f a = Some pg" and len: "length (write_list (fm_tio s)) + 1 < 2 ^ 31"
  shows "writer_inv content owns client_ok w s'" "visible content s' = visible content s"
proof -
  have core: "fm_core owns client_ok no_demands s" and lo: "list_ok s" and lk: "fm_locks s = {}"
    and pi: "writer_pc_inv content owns w s" using inv by (auto simp: writer_inv_def)
  note l = enqueued_list_ok [OF lo q reg res]
  have e: "p \<noteq> NULL" "p \<noteq> MAP_FAILED" "bufs (fm_mach s) p = None" "bufs (fm_mach s') = (bufs (fm_mach s))(p \<mapsto> pg)"
    "resident (fm_mach s') = (resident (fm_mach s))(f := (resident (fm_mach s) f)(a := None))"
    and same: "fm_map s' = fm_map s" "fm_clients s' = fm_clients s" "fm_locks s' = fm_locks s"
    using q res by (simp_all add: enqueued_def evicted_def)
  have po: "p \<notin> owned owns no_demands s" using owned_mapped [OF core, of p] e(3) by auto
  then have "\<And>q. q \<in> owned owns no_demands s \<Longrightarrow> bufs (fm_mach s') q = bufs (fm_mach s) q" "bufs (fm_mach s') MAP_FAILED = None"
    using e(2,4) core by (auto simp: fm_core_def)
  then have c: "fm_core owns client_ok no_demands s'" "remote content s' = remote content s"
    using core_frame [OF core same(1,2)] by simp_all
  have o: "owned owns no_demands s' = owned owns no_demands s" using same by (simp add: owned_def)
  let ?n = "\<lparr>wi_ufd = f, wi_pageaddr = a, wi_page = p, wi_in_flight = False\<rparr>"
  have wl: "write_list (fm_tio s') = write_list (fm_tio s) @ [?n]" using q by (simp add: enqueued_def)
  have g: "flying s' = flying s" "grounded s' = grounded s @ [?n]" using wl by (simp_all add: flying_def grounded_def)
  have u: "unowned owns s' (es @ [?n]) = unowned owns s es" for es using o po by (auto simp: unowned_def)
  have ne: "bufs (fm_mach s') (wi_page x) = bufs (fm_mach s) (wi_page x)" if "x \<in> set (flying s)" for x
    using that l(2) e(4) by (auto simp: flying_def)
  have dis: "disposable owns w s'" if "disposable owns w s"
    using that e(3,4) o unfolding disposable_def g by auto
  have "writer_pc_inv content owns w s'"
    using pi ne dis unfolding writer_pc_inv_def g wl u by (cases "w_pc w") (simp_all add: c(2))
  then show "writer_inv content owns client_ok w s'"
    using c(1) l(1) lk same(3) len wl unfolding writer_inv_def by simp
  show "visible content s' = visible content s"
  proof (intro ext)
    fix h b
    show "visible content s' h b = visible content s h b"
      using enqueued_pending [OF lo q reg res, of h b] e(5) res c(2)
      by (cases "(h, b) = (f, a)") (auto simp: visible_def cong: option.case_cong)
  qed
qed

lemma evict_step:
  assumes K: "kernel_ok K" "e_kernel E = K" and cfg: "e_cfg E = writer_config"
    and inv: "writer_inv content owns client_ok w s" and reg: "registered f s" and al: "page_aligned a"
    and res: "resident (fm_mach s) f a = Some pg" and len: "length (write_list (fm_tio s)) + 1 < 2 ^ 31"
  shows "\<exists>ret s'. evict_to_externram E f a s = Some (ret, s') \<and> writer_inv content owns client_ok w s'
    \<and> visible content s' = visible content s"
proof -
  have core: "fm_core owns client_ok no_demands s" and lk: "fm_locks s = {}" using inv by (auto simp: writer_inv_def)
  have k: "kernel_ok (e_kernel E)" and m: "bufs (fm_mach s) MAP_FAILED = None"
    using K core by (auto simp: fm_core_def)
  have a: "a AND PAGE_MASK = a" using al by (rule page_alignedD)
  obtain ret p s1 where at: "evict_attempts E 5 f a s = Inr (ret, p, s1)" "mach_only s s1"
    "if ret = 0 then evicted f a p (fm_mach s) (fm_mach s1) else not_evicted p (fm_mach s) (fm_mach s1)"
    using evict_attempts_pages [OF k m, of 5 f a] a by auto
  note f1 = mach_only_fields [OF at(2)]
  show ?thesis
  proof (cases "ret = 0")
    case True
    then have ev: "evicted f a p (fm_mach s) (fm_mach s1)" using at(3) by simp
    then have b: "bufs (fm_mach s1) p = Some pg" using res by (simp add: evicted_def)
    obtain s2 where s2: "evict_enqueue f a p (upd_stats StatsIncrPageEvicted s1) = Some s2" "enqueued f a p s s2"
      using evict_enqueued [OF at(2) ev lk] by blast
    have "evict_to_externram E f a s = Some (0, s2)"
      using at(1) True b s2(1) cfg by (simp add: evict_to_externram_def evict_store_def upd_stats_def writer_config_def)
    then show ?thesis using enqueued_step [OF inv s2(2) reg res len] by simp
  next
    case False
    let ?s = "fm_munmap E p s1"
    have ne: "not_evicted p (fm_mach s) (fm_mach s1)" using at(3) False by simp
    have f2: "fm_map ?s = fm_map s" "fm_clients ?s = fm_clients s" "fm_tio ?s = fm_tio s" "fm_locks ?s = fm_locks s"
      "bufs (fm_mach ?s) = bufs (fm_mach s)" "resident (fm_mach ?s) = resident (fm_mach s)"
      using mach_only_fields [OF mach_only_munmap [OF at(2)], of E p] ne fm_munmap_pages [OF k, of p s1]
      by (simp_all add: not_evicted_def)
    have "evict_to_externram E f a s = Some (ret, ?s)" using at(1) False by (simp add: evict_to_externram_def)
    then show ?thesis using writer_frame [OF inv f2] by simp
  qed
qed

lemma run_keeps:
  assumes K: "kernel_ok K" "e_kernel E = K" "e_backend E = B" "e_cfg E = writer_config"
    and run: "writer_run E x y" and inv: "writer_inv content owns client_ok (fst x) (snd x)"
  shows "writer_inv content owns client_ok (fst y) (snd y) \<and> visible content (snd y) = visible content (snd x)"
  using run
proof induction
  case start
  then show ?case using inv by simp
next
  case (piece w s w' s')
  have "w_pc w = WSleep \<longrightarrow> 0 < writer_sem (fm_tio s)"
    using piece.hyps(2) by (auto simp: write_into_externram_thread_def write_sleep_def split: if_splits)
  from thread_step [OF K(1-3) _ this] piece show ?case by (auto simp: transparent_step_def)
next
  case (evict w s f a r s')
  obtain pg where "resident (fm_mach s) f a = Some pg" using evict.hyps(4) by auto
  from evict_step [OF K(1,2,4) _ evict.hyps(2,3) this evict.hyps(5), of w] evict show ?case by auto
qed

end

section \<open>Progress\<close>

text \<open>One round: collect, write, delete, finish.\<close>

definition write_round :: "'c env \<Rightarrow> writer \<times> 'c fm \<Rightarrow> (writer \<times> 'c fm) option" where
  "write_round E x = do {
     x1 \<leftarrow> write_into_externram_thread E x;
     x2 \<leftarrow> write_into_externram_thread E x1;
     x3 \<leftarrow> write_into_externram_thread E x2;
     write_into_externram_thread E x3
   }"

lemma flying_not_grounded:
  assumes d: "distinct_keys wi_key (write_list (fm_tio s))" and x: "x \<in> set (flying s)"
  shows "wi_key x \<notin> wi_key ` set (grounded s)"
proof
  assume "wi_key x \<in> wi_key ` set (grounded s)"
  then obtain y where y: "y \<in> set (write_list (fm_tio s))" "\<not> wi_in_flight y" "wi_key y = wi_key x" by (auto simp: grounded_def)
  have "x \<in> set (write_list (fm_tio s))" "wi_in_flight x" using x by (auto simp: flying_def)
  moreover have "y = x" using d y(1,3) calculation(1) by (metis distinct_map inj_onD)
  ultimately show False using y(2) by simp
qed

context extern_ram_batch
begin

lemma finish_result:
  assumes K: "kernel_ok K" "e_kernel E = K" and inv: "writer_inv content owns client_ok w s" and pc: "w_pc w = WFinish"
  shows "\<exists>s'. write_finish E w s = Some (w\<lparr>w_pc := WCollect\<rparr>, s') \<and> write_list (fm_tio s') = write_list (fm_tio s)
    \<and> remote content s' = remote content s \<and> ufhandler_sem (fm_tio s') = ufhandler_sem (fm_tio s) + (if w_waiting w then 1 else 0)"
proof -
  define s1 where "s1 = (if \<not> w_flushRemaining w then post_flushed s else s)"
  define s2 where "s2 = (if w_free_values w then free_all E (w_bufs w) s1 else s1)"
  define s3 where "s3 = (if w_waiting w then post_ufhandler s2 else s2)"
  have r: "write_finish E w s = Some (w\<lparr>w_pc := WCollect\<rparr>, s3)"
    by (simp add: write_finish_def s1_def s2_def s3_def free_all_def Let_def)
  have t1: "tio_only s s1" "write_list (fm_tio s1) = write_list (fm_tio s)" "ufhandler_sem (fm_tio s1) = ufhandler_sem (fm_tio s)"
    by (simp_all add: s1_def post_tio_only) (simp add: post_flushed_def upd_tio_def)
  have t3: "tio_only s2 s3" "write_list (fm_tio s3) = write_list (fm_tio s2)"
    "ufhandler_sem (fm_tio s3) = ufhandler_sem (fm_tio s2) + (if w_waiting w then 1 else 0)"
    by (simp_all add: s3_def post_tio_only) (simp add: post_ufhandler_def upd_tio_def)
  have core: "fm_core owns client_ok no_demands s1" and b: "w_free_values w \<longrightarrow> (\<forall>b \<in> set (w_bufs w). b \<noteq> NULL \<longrightarrow> b \<notin> owned owns no_demands s1)"
    using inv pc tio_only_keeps [OF t1(1)] by (auto simp: writer_inv_def writer_pc_inv_def disposable_def)
  have "remote content s2 = remote content s1" "fm_tio s2 = fm_tio s1"
    using free_all_core [OF K core, of "w_bufs w"] b mach_only_fields(7) by (auto simp: s2_def)
  then show ?thesis using r t1 t3 tio_only_keeps(5) [OF t1(1)] tio_only_keeps(5) [OF t3(1)] by auto
qed

text \<open>Once a page is written it leaves the list, and a waiting handler is woken.\<close>

lemma delete_progress:
  assumes K: "kernel_ok K" "e_kernel E = K" "e_backend E = B" and inv: "writer_inv content owns client_ok w s"
    and pc: "w_pc w = WDelete" and wait: "isUfhandlerWaiting (fm_tio s)" and x: "x \<in> set (flying s)"
  obtains w' s' where "Option.bind (write_into_externram_thread E (w, s)) (write_into_externram_thread E) = Some (w', s')"
    "w_pc w' = WCollect" "writer_inv content owns client_ok w' s'"
    "find_write_info (wi_ufd x) (wi_pageaddr x) (fm_tio s') = None"
    "remote content s' (wi_ufd x) (wi_pageaddr x) = bufs (fm_mach s) (wi_page x)"
    "ufhandler_sem (fm_tio s') = ufhandler_sem (fm_tio s) + 1" "length (write_list (fm_tio s')) < length (write_list (fm_tio s))"
proof -
  have p: "map wi_key (flying s) = map (Pair (w_ufd w)) (w_keys w)" "list_ok s" "fm_locks s = {}"
    and rem: "remote content s (wi_ufd x) (wi_pageaddr x) = bufs (fm_mach s) (wi_page x)"
    using inv pc x by (auto simp: writer_inv_def writer_pc_inv_def)
  have d: "distinct_keys wi_key (write_list (fm_tio s))" using p(2) by (simp add: list_ok_def tio_wf_def)
  define w1 where "w1 = w\<lparr>w_pc := WFinish, w_waiting := True\<rparr>"
  define s1 where "s1 = s\<lparr>fm_tio := (fm_tio s)\<lparr>write_list := grounded s\<rparr>\<rparr>"
  have r1: "write_into_externram_thread E (w, s) = Some (w1, s1)"
    using delete_eq [OF d p(1,3)] pc wait by (simp add: write_into_externram_thread_def w1_def s1_def)
  have i1: "writer_inv content owns client_ok w1 s1"
    using thread_step [OF K inv] pc r1 by (simp add: transparent_step_def)
  have pc1: "w_pc w1 = WFinish" by (simp add: w1_def)
  obtain s2 where f2: "write_finish E w1 s1 = Some (w1\<lparr>w_pc := WCollect\<rparr>, s2)" "write_list (fm_tio s2) = write_list (fm_tio s1)"
    "remote content s2 = remote content s1" "ufhandler_sem (fm_tio s2) = ufhandler_sem (fm_tio s1) + (if w_waiting w1 then 1 else 0)"
    using finish_result [OF K(1,2) i1 pc1] by blast
  have r2: "write_into_externram_thread E (w1, s1) = Some (w1\<lparr>w_pc := WCollect\<rparr>, s2)"
    using f2(1) pc1 by (simp add: write_into_externram_thread_def)
  have i2: "writer_inv content owns client_ok (w1\<lparr>w_pc := WCollect\<rparr>) s2"
    using thread_step [OF K i1] pc1 r2 by (simp add: transparent_step_def)
  have "remote content s1 = remote content s" by (simp add: s1_def remote_def fd_client_def fun_eq_iff)
  then have stored: "remote content s2 (wi_ufd x) (wi_pageaddr x) = bufs (fm_mach s) (wi_page x)" using rem f2(3) by simp
  have gone: "find_write_info (wi_ufd x) (wi_pageaddr x) (fm_tio s2) = None"
    using f2(2) flying_not_grounded [OF d x] by (simp add: find_write_info_def hash_find_None s1_def wi_key_def)
  have "length (grounded s) < length (write_list (fm_tio s))"
    using x length_filter_less [of x "write_list (fm_tio s)" "\<lambda>e. \<not> wi_in_flight e"] by (auto simp: grounded_def flying_def)
  then have len: "length (write_list (fm_tio s2)) < length (write_list (fm_tio s))" using f2(2) by (simp add: s1_def)
  show thesis using that [OF _ _ i2 gone stored _ len] r1 r2 f2(4) by (simp add: w1_def s1_def)
qed

lemma round_progress:
  assumes K: "kernel_ok K" "e_kernel E = K" "e_backend E = B" and inv: "writer_inv content owns client_ok w s"
    and pc: "w_pc w = WCollect" and l: "write_list (fm_tio s) = e # ws" and wait: "isUfhandlerWaiting (fm_tio s)"
  obtains w' s' where "write_round E (w, s) = Some (w', s')" "w_pc w' = WCollect" "writer_inv content owns client_ok w' s'"
    "find_write_info (wi_ufd e) (wi_pageaddr e) (fm_tio s') = None"
    "remote content s' (wi_ufd e) (wi_pageaddr e) = bufs (fm_mach s) (wi_page e)"
    "ufhandler_sem (fm_tio s') = ufhandler_sem (fm_tio s) + 1" "length (write_list (fm_tio s')) < length (write_list (fm_tio s))"
proof -
  obtain ws' taken where c: "collect_writes (wi_ufd e) 0 (e # ws) = (ws', taken)" by fastforce
  define s1 where "s1 = s\<lparr>fm_tio := (fm_tio s)\<lparr>write_list := ws', isWriterWaiting := False\<rparr>\<rparr>"
  have lk: "fm_locks s = {}" using inv by (simp add: writer_inv_def)
  have y: "get_write_list_size (fm_tio s) > 0" using list_size [OF inv] l by simp
  obtain w1 where r1: "write_into_externram_thread E (w, s) = Some (w1, s1)" and pc1: "w_pc w1 = WWrite"
    using collect_busy_eq [OF lk l c y, of w] wait pc by (simp add: write_into_externram_thread_def s1_def)
  have i1: "writer_inv content owns client_ok w1 s1" using thread_step [OF K inv] pc r1 by (simp add: transparent_step_def)
  obtain w2 s2 where r2: "write_into_externram_thread E (w1, s1) = Some (w2, s2)" and i2: "writer_inv content owns client_ok w2 s2"
    using thread_step [OF K i1] pc1 by (auto simp: transparent_step_def)
  have t2: "w_pc w2 = WDelete" "fm_tio s2 = fm_tio s1" "fm_mach s2 = fm_mach s1"
    using r2 pc1 write_step(2) [OF K(3) i1 pc1] by (auto simp: write_into_externram_thread_def)
  let ?x = "e\<lparr>wi_in_flight := True\<rparr>"
  have "?x \<in> set ws'" using c by (auto simp: case_prod_beta WRITE_BATCH_SIZE_def split: if_splits prod.splits)
  then have x: "?x \<in> set (flying s2)" using t2 by (simp add: flying_def s1_def)
  have w2: "isUfhandlerWaiting (fm_tio s2)" using t2 wait by (simp add: s1_def)
  obtain w' s' where r: "Option.bind (write_into_externram_thread E (w2, s2)) (write_into_externram_thread E) = Some (w', s')"
    and p: "w_pc w' = WCollect" "writer_inv content owns client_ok w' s'"
      "find_write_info (wi_ufd ?x) (wi_pageaddr ?x) (fm_tio s') = None"
      "remote content s' (wi_ufd ?x) (wi_pageaddr ?x) = bufs (fm_mach s2) (wi_page ?x)"
      "ufhandler_sem (fm_tio s') = ufhandler_sem (fm_tio s2) + 1" "length (write_list (fm_tio s')) < length (write_list (fm_tio s2))"
    by (rule delete_progress [OF K i2 t2(1) w2 x])
  have "length ws' = length (write_list (fm_tio s))"
    using arg_cong [OF collect_pages [of "wi_ufd e" 0 "e # ws"], of length] unfolding c l by simp
  then show thesis using that [of w' s'] r1 r2 r p t2 by (simp add: write_round_def s1_def)
qed

end

section \<open>The properties\<close>

definition writer_env :: "noop_client env" where
  "writer_env = sample_env writer_config"

text \<open>A handler waits and the page 12288 is on the list; two pages are resident.\<close>

definition queued_fm :: "noop_client fm" where
  "queued_fm = demo_fm\<lparr>fm_tio := tio_init\<lparr>isUfhandlerWaiting := True, write_list :=
       [\<lparr>wi_ufd = 7, wi_pageaddr = 12288, wi_page = 65536, wi_in_flight = False\<rparr>]\<rparr>,
     fm_mach := (fm_mach demo_fm)\<lparr>bufs := [65536 \<mapsto> ones]\<rparr>\<rparr>"

lemma queued_inv: "writer_inv noop_content noop_owns noop_ok writer0 queued_fm"
proof -
  have "fm_core noop_owns noop_ok no_demands queued_fm"
    by (auto simp: fm_core_def queued_fm_def demo_fm_def demo_client noop_ok_def noop_new_def noop_owns_def client_get_def
        MAP_FAILED_def)
  moreover have "owned noop_owns no_demands queued_fm = {}"
    by (auto simp: owned_def queued_fm_def demo_fm_def demo_client noop_new_def noop_owns_def client_get_def split: if_splits)
  ultimately show ?thesis
    by (simp add: writer_inv_def queued_fm_def demo_fm_def tio_init_def list_ok_def tio_wf_def registered_def
        set_resident_def machine0_def writer_pc_inv_def writer0_def flying_def grounded_def unowned_def)
qed

lemma queued_fields:
  "w_pc writer0 = WCollect" "isUfhandlerWaiting (fm_tio queued_fm)" "ufhandler_sem (fm_tio queued_fm) = 0"
  "write_list (fm_tio queued_fm) = [\<lparr>wi_ufd = 7, wi_pageaddr = 12288, wi_page = 65536, wi_in_flight = False\<rparr>]"
  "bufs (fm_mach queued_fm) 65536 = Some ones"
  by (simp_all add: writer0_def queued_fm_def tio_init_def)

lemma queued_visible: "visible noop_content queued_fm 7 12288 = ones"
  by (simp add: visible_def pending_def queued_fm_def demo_fm_def set_resident_def machine0_def find_write_info_def
      hash_find_def wi_key_def)

lemma writer_env_simps [simp]:
  "e_kernel writer_env = sim_kernel" "e_backend writer_env = noop_backend sim_kernel" "e_cfg writer_env = writer_config"
  by (simp_all add: writer_env_def)

lemma piece_run: "writer_run E x y \<Longrightarrow> write_into_externram_thread E y = Some z \<Longrightarrow> writer_run E x z"
  by (cases y; cases z) (simp add: writer_run.piece)

lemma round_run:
  assumes "write_round E x = Some y"
  shows "writer_run E x y"
proof -
  obtain x1 x2 x3 where "write_into_externram_thread E x = Some x1" "write_into_externram_thread E x1 = Some x2"
    "write_into_externram_thread E x2 = Some x3" "write_into_externram_thread E x3 = Some y"
    using assms unfolding write_round_def by (auto simp: bind_eq_Some_conv)
  then show ?thesis using writer_run.start piece_run by metis
qed

text \<open>
  C10. While the write thread works the fault handler evicts further pages. Whatever the order in which
  the pieces of the thread and the evictions run, the contents of every page stay the same (the page in
  memory, or else the one that waits on the list, or else the one in the store), and so does the
  invariant of the list: every waiting page is in a buffer of its own, which neither the store nor the
  kernel has taken back, and a page is taken off the list only when the store holds it. No buffer that
  still waits is freed.
\<close>

theorem writer_transparent:
  assumes "kernel_ok K" "e_kernel E = K" "e_backend E = noop_backend K" "e_cfg E = writer_config"
    and "writer_run E (w, s) (w', s')" and "writer_inv noop_content noop_owns noop_ok w s"
  shows "writer_inv noop_content noop_owns noop_ok w' s' \<and> visible noop_content s' = visible noop_content s"
  using noopb.run_keeps [OF assms(1-5)] assms(6) by simp

theorem writer_transparent_witness:
  "\<exists>w' s'. writer_run writer_env (writer0, queued_fm) (w', s') \<and> find_write_info 7 12288 (fm_tio s') = None
     \<and> remote noop_content s' 7 12288 = Some ones \<and> visible noop_content s' 7 12288 = ones"
proof -
  have e: "e_kernel writer_env = sim_kernel" "e_backend writer_env = noop_backend sim_kernel" by simp_all
  obtain w' s' where r: "write_round writer_env (writer0, queued_fm) = Some (w', s')"
    "find_write_info 7 12288 (fm_tio s') = None" "remote noop_content s' 7 12288 = Some ones"
    by (rule noopb.round_progress [OF sim_kernel_ok e queued_inv queued_fields(1,4,2)]) (simp add: queued_fields)
  have "visible noop_content s' 7 12288 = ones"
    using writer_transparent [OF sim_kernel_ok e _ round_run [OF r(1)] queued_inv] queued_visible by simp
  then show ?thesis using r(2,3) round_run [OF r(1)] by blast
qed

text \<open>
  C11. The write thread makes progress and nobody waits in vain. If a fault handler waits and the list is
  not empty, a round of the thread completes; then the first page of the list is off the list, the store
  holds it, the handler's semaphore is raised by one, the list is shorter, and the thread starts over.
\<close>

theorem writer_progress:
  assumes "kernel_ok K" "e_kernel E = K" "e_backend E = noop_backend K"
    and "writer_inv noop_content noop_owns noop_ok w s" "w_pc w = WCollect"
    and "write_list (fm_tio s) = e # ws" "isUfhandlerWaiting (fm_tio s)"
  shows "\<exists>w' s'. write_round E (w, s) = Some (w', s') \<and> w_pc w' = WCollect
    \<and> writer_inv noop_content noop_owns noop_ok w' s'
    \<and> find_write_info (wi_ufd e) (wi_pageaddr e) (fm_tio s') = None
    \<and> remote noop_content s' (wi_ufd e) (wi_pageaddr e) = bufs (fm_mach s) (wi_page e)
    \<and> ufhandler_sem (fm_tio s') = ufhandler_sem (fm_tio s) + 1
    \<and> length (write_list (fm_tio s')) < length (write_list (fm_tio s))"
  by (rule noopb.round_progress [OF assms]) blast

theorem writer_progress_witness:
  "\<exists>w' s'. write_round writer_env (writer0, queued_fm) = Some (w', s') \<and> write_list (fm_tio s') = []
     \<and> remote noop_content s' 7 12288 = Some ones \<and> ufhandler_sem (fm_tio s') = 1"
  using writer_progress [OF sim_kernel_ok _ _ queued_inv queued_fields(1,4,2), of writer_env]
  by (auto simp: queued_fields)

text \<open>The wait for the semaphore, when it does not block.\<close>

definition sem_wait_flushed :: "'c fm \<Rightarrow> 'c fm" where
  "sem_wait_flushed s = upd_tio (\<lambda>t. t\<lparr>flushed_write_sem := flushed_write_sem t - 1\<rparr>) s"

lemma munmaps_mach_only: "mach_only s s' \<Longrightarrow> mach_only s (free_all E bs s')"
  by (induction bs arbitrary: s') (simp_all add: free_all_def)

lemma finish_tio:
  assumes "write_finish E w s = Some (w', s')" "\<not> w_flushRemaining w"
  shows "flushed_write_sem (fm_tio s') = flushed_write_sem (fm_tio s) + 1"
    "flushWriteListNeeded (fm_tio s') = flushWriteListNeeded (fm_tio s)" "fm_locks s' = fm_locks s"
proof -
  define s1 where "s1 = (if w_free_values w then free_all E (w_bufs w) (post_flushed s) else post_flushed s)"
  have m: "mach_only (post_flushed s) s1" by (simp add: s1_def munmaps_mach_only)
  have "s' = (if w_waiting w then post_ufhandler s1 else s1)"
    using assms by (auto simp: write_finish_def s1_def free_all_def Let_def)
  then show "flushed_write_sem (fm_tio s') = flushed_write_sem (fm_tio s) + 1"
    "flushWriteListNeeded (fm_tio s') = flushWriteListNeeded (fm_tio s)" "fm_locks s' = fm_locks s"
    using mach_only_fields(4,7) [OF m] by (simp_all add: post_flushed_def post_ufhandler_def upd_tio_def)
qed

text \<open>
  C38. The flush of the write list may return with pages still on the list. The thread raises the
  semaphore of the flush after every batch that leaves nothing behind, also when nobody flushes; a page
  that is evicted after that is still on the list when the next flush returns, because the semaphore is
  up already and the flush does not block.
\<close>

theorem flush_returns_early:
  assumes "write_finish E w s = Some (w', s')" "\<not> w_flushRemaining w" "\<not> flushWriteListNeeded (fm_tio s)"
    and "fm_locks s = {}" "evict_enqueue f a p s' = Some s''"
    and "THREADED_WRITE_TO_EXTERNRAM (e_cfg E)" "e_wait_flushed E = sem_wait_flushed"
  shows "0 < flushed_write_sem (fm_tio s'') \<and> \<not> flushWriteListNeeded (fm_tio s'')
    \<and> (\<exists>s3. flush_write_list E s'' = Some s3 \<and> exist_write_info f a (fm_tio s3))"
proof -
  note t = finish_tio [OF assms(1,2)]
  have "fm_locks s'' = {}" "flushed_write_sem (fm_tio s'') = flushed_write_sem (fm_tio s) + 1"
    "flushWriteListNeeded (fm_tio s'') = flushWriteListNeeded (fm_tio s)"
    "write_list (fm_tio s'') = write_list (fm_tio s') @ [\<lparr>wi_ufd = f, wi_pageaddr = a, wi_page = p, wi_in_flight = False\<rparr>]"
    using assms(4,5) t
    by (auto simp: evict_enqueue_def fm_step_defs post_writer_def add_write_info_def write_list_add_def
        mutex_lock_def mutex_unlock_def Let_def split: if_splits)
  then show ?thesis using assms(3,6,7)
    by (auto simp: flush_write_list_def fm_step_defs post_writer_def sem_wait_flushed_def exist_write_info_def
        hash_find_def wi_key_def mutex_lock_def mutex_unlock_def)
qed

definition flushing_env :: "noop_client env" where
  "flushing_env = writer_env\<lparr>e_wait_flushed := sem_wait_flushed\<rparr>"

theorem flush_returns_early_witness:
  "\<exists>w' s' s'' s3. write_finish flushing_env (writer0\<lparr>w_pc := WFinish\<rparr>) demo_fm = Some (w', s')
     \<and> evict_enqueue 7 4096 65536 s' = Some s'' \<and> flush_write_list flushing_env s'' = Some s3
     \<and> exist_write_info 7 4096 (fm_tio s3)"
proof -
  let ?w = "writer0\<lparr>w_pc := WFinish\<rparr>"
  have w: "write_finish flushing_env ?w demo_fm = Some (?w\<lparr>w_pc := WCollect\<rparr>, post_flushed demo_fm)"
    by (simp add: write_finish_def writer0_def)
  obtain s'' where s'': "evict_enqueue 7 4096 65536 (post_flushed demo_fm) = Some s''"
    by (simp add: evict_enqueue_def fm_step_defs post_flushed_def demo_fm_def mutex_lock_def mutex_unlock_def Let_def)
  show ?thesis
    using flush_returns_early [OF w _ _ _ s''] w s''
    by (auto simp: writer0_def demo_fm_def tio_init_def flushing_env_def writer_config_def)
qed

end
