(* ===== verification/Monitor.thy ===== *)
theory Monitor
  imports Pollfd_Vector Userfault_Flush
begin

text \<open>
  The monitor process of \<^verbatim>\<open>monitor/monitor.c\<close>: the polling thread with its handling of user fault
  messages, the reaper thread, the main thread that receives descriptors and the short-lived threads
  that hand them over to the polling thread.

  The kernel side of a descriptor is an argument: what \<^verbatim>\<open>read\<close> returns on it and what \<^verbatim>\<open>poll\<close> writes. The
  event descriptor \<^verbatim>\<open>reload_addfd\<close> is a counter: writing adds to it, reading takes it and resets it, and
  a write of the largest value fails. Whether the allocator finds the memory for the polling list is
  the argument \<open>ok\<close>. The mutex \<^verbatim>\<open>add_fd_lock\<close> is locked by one thread and unlocked by another, so it is a
  flag here; unlocking it while it is free is undefined.
\<close>

section \<open>State\<close>

record ('c, 'z) monitor =
  mo_fm :: "'c fm"
  mo_zk :: "zk_local \<times> 'z"
  mo_poll :: Pollfd_vector
  mo_efd :: u64
  mo_ufd64 :: u64
  add_fd_lock :: bool
  num_threads :: int
  mo_starting :: "fd list"

definition MAX_THREADS :: int where
  "MAX_THREADS = 100"

definition upd_fm :: "('c fm \<Rightarrow> 'c fm) \<Rightarrow> ('c, 'z) monitor \<Rightarrow> ('c, 'z) monitor" where
  "upd_fm g m = m\<lparr>mo_fm := g (mo_fm m)\<rparr>"

text \<open>
  The flag of the signal handler: an error was reported, by the monitor or inside a client of the store.
\<close>

definition fatal_error_in_progress :: "'c env \<Rightarrow> ('c, 'z) monitor \<Rightarrow> bool" where
  "fatal_error_in_progress E m \<longleftrightarrow> fm_err (mo_fm m) \<or> list_ex (er_reported (e_backend E)) (fm_clients (mo_fm m))"

section \<open>The signal handler\<close>

datatype thread = Polling_thread | Write_thread | Prefetch_thread | Reaper_thread | Ui_thread | Main_thread

datatype cancelled = Worker nat | Thread thread

definition handler_cleanup :: "'c env \<Rightarrow> 'c fm \<Rightarrow> 'c fm option" where
  "handler_cleanup E s = (if PAGECACHE (e_cfg E) then pageCacheCleanup s else Some s)"

text \<open>
  The handler, for a signal from outside; the threads that are cancelled are the result, in order. A
  second run frees the statistics again, which is undefined.
\<close>

definition fatal_error_signal :: "'c env \<Rightarrow> bool \<Rightarrow> bool \<Rightarrow> ('c, 'z) monitor
     \<Rightarrow> (cancelled list \<times> ('c, 'z) monitor) option" where
  "fatal_error_signal E reaper by_ui m =
     (if fatal_error_in_progress E m then None
      else do {
        s \<leftarrow> handler_cleanup E (mo_fm m);
        Some (map Worker [0..<nat (num_threads m)] @ (if by_ui then [] else [Thread Ui_thread])
              @ (if reaper then [Thread Reaper_thread] else []) @ [Thread Main_thread],
          m\<lparr>mo_fm := s\<lparr>fm_err := True\<rparr>\<rparr>)
      })"

text \<open>
  What is left of the handler after a step in which an error was reported, the first one: a later
  \<^verbatim>\<open>log_err\<close> finds a handler that does nothing.
\<close>

definition after_report :: "'c env \<Rightarrow> ('c, 'z) monitor \<Rightarrow> ('c, 'z) monitor \<Rightarrow> ('c, 'z) monitor option" where
  "after_report E m m' =
     (if \<not> fatal_error_in_progress E m \<and> fatal_error_in_progress E m'
      then map_option (\<lambda>s. m'\<lparr>mo_fm := s\<rparr>) (handler_cleanup E (mo_fm m')) else Some m')"

section \<open>Messages\<close>

datatype uffd_event =
    UFFD_EVENT_PAGEFAULT u64 | UFFD_EVENT_FORK | UFFD_EVENT_REMAP | UFFD_EVENT_REMOVE | UFFD_EVENT_UNMAP
  | UFFD_EVENT_OTHER

text \<open>The outcome of \<^verbatim>\<open>read\<close>: a failure, with \<^verbatim>\<open>EAGAIN\<close> or another error, or a number of bytes.\<close>

datatype uffd_read = Read_fails bool | Read_bytes nat uffd_event

definition sizeof_uffd_msg :: nat where
  "sizeof_uffd_msg = 32"

definition del_polled :: "bool \<Rightarrow> fd \<Rightarrow> 'c fm \<times> Pollfd_vector \<Rightarrow> (int \<times> 'c fm \<times> Pollfd_vector) option" where
  "del_polled ok f = (\<lambda>(s, v). do {
     (r, v, st) \<leftarrow> del_fd ok f v (fm_stats s);
     Some (r, s\<lparr>fm_stats := st\<rparr>, v)
   })"

text \<open>A message of the wrong length is reported, but its length is returned as it is.\<close>

definition handle_userfault ::
  "'c env \<Rightarrow> bool \<Rightarrow> uffd_read \<Rightarrow> fd \<Rightarrow> 'c fm \<times> Pollfd_vector \<Rightarrow> (int \<times> 'c fm \<times> Pollfd_vector) option" where
  "handle_userfault E ok r ufd = (\<lambda>(s, v).
     case r of
       Read_fails again \<Rightarrow> Some (if again then (0, s, v) else (- 1, log_err s, v))
     | Read_bytes n ev \<Rightarrow>
         if n \<noteq> sizeof_uffd_msg then Some (int n, log_err s, v)
         else case ev of
           UFFD_EVENT_PAGEFAULT address \<Rightarrow> do {
             (ret, s) \<leftarrow> read_from_externram E ufd (address AND PAGE_MASK) s;
             if ret < 0 then Some (ret, log_err s, v)
             else if ret > 0 then do { (_, s, v) \<leftarrow> del_polled ok ret (s, v); Some (0, s, v) }
             else Some (0, s, v)
           }
         | UFFD_EVENT_OTHER \<Rightarrow> Some (- 1, log_err s, v)
         | _ \<Rightarrow> do { (_, s, v) \<leftarrow> del_polled ok ufd (s, v); Some (0, s, v) })"

section \<open>The poll loop\<close>

text \<open>What the kernel answers in one round of the loop.\<close>

record poll_round =
  pr_ret :: int
  pr_revents :: "nat \<Rightarrow> u16"
  pr_reload_ok :: bool
  pr_reads :: "int \<Rightarrow> fd \<Rightarrow> uffd_read"

definition set_revents :: "(nat \<Rightarrow> u16) \<Rightarrow> Pollfd_vector \<Rightarrow> Pollfd_vector" where
  "set_revents re v = v\<lparr>pv_list := map (\<lambda>i. if i < nat (pv_size v)
       then map_option (\<lambda>p. p\<lparr>prevents := re i\<rparr>) (pv_list v ! i) else pv_list v ! i)
     [0..<length (pv_list v)]\<rparr>"

text \<open>\<^verbatim>\<open>revents\<close> is a signed short.\<close>

definition has_event :: "pollfd \<Rightarrow> bool" where
  "has_event p \<longleftrightarrow> 0 < sint (prevents p)"

definition bad_event :: "pollfd \<Rightarrow> bool" where
  "bad_event p \<longleftrightarrow> prevents p AND POLLERR \<noteq> 0 \<or> prevents p AND POLLIN = 0"

text \<open>The entries from an index on; a failure ends the walk for this round.\<close>

partial_function (option) serve ::
  "'c env \<Rightarrow> bool \<Rightarrow> poll_round \<Rightarrow> int \<Rightarrow> 'c fm \<times> Pollfd_vector \<Rightarrow> ('c fm \<times> Pollfd_vector) option" where
  "serve E ok R i sv =
     (if i < pv_size (snd sv)
      then Option.bind (cell (snd sv) i) (\<lambda>p.
        if has_event p
        then if bad_event p then Some (log_err (fst sv), snd sv)
             else Option.bind (handle_userfault E ok (pr_reads R i (pfd p)) (pfd p) sv) (\<lambda>(rc, s, v).
               if rc < 0 then Some (log_err s, v) else serve E ok R (i + 1) (s, v))
        else serve E ok R (i + 1) sv)
      else Some sv)"

text \<open>
  The event on the first entry: a new descriptor. The result is whether the loop goes on. A read that
  fails leaves the value of the round before.
\<close>

definition reload :: "bool \<Rightarrow> bool \<Rightarrow> ('c, 'z) monitor \<Rightarrow> (bool \<times> ('c, 'z) monitor) option" where
  "reload ok read_ok m = do {
     p \<leftarrow> cell (mo_poll m) 0;
     if bad_event p then Some (False, upd_fm log_err m)
     else do {
       let m = (if read_ok then m\<lparr>mo_ufd64 := mo_efd m, mo_efd := 0\<rparr> else upd_fm log_err m);
       m \<leftarrow> if add_fd_lock m then Some (m\<lparr>add_fd_lock := False\<rparr>) else None;
       let ufd = sint (ucast (mo_ufd64 m) :: u32);
       if ufd \<le> 0 then Some (False, upd_fm log_err m)
       else do {
         (v, st) \<leftarrow> add_fd ok ufd (mo_poll m) (fm_stats (mo_fm m));
         Some (True, upd_fm (\<lambda>s. s\<lparr>fm_stats := st\<rparr>) (m\<lparr>mo_poll := v\<rparr>))
       }
     }
   }"

definition poll_body :: "'c env \<Rightarrow> bool \<Rightarrow> poll_round \<Rightarrow> ('c, 'z) monitor \<Rightarrow> (bool \<times> ('c, 'z) monitor) option" where
  "poll_body E ok R m =
     (if pr_ret R = - 1 then Some (False, upd_fm log_err m)
      else do {
        let m = m\<lparr>mo_poll := set_revents (pr_revents R) (mo_poll m)\<rparr>;
        if fatal_error_in_progress E m then Some (False, m)
        else do {
          p \<leftarrow> cell (mo_poll m) 0;
          (go, m) \<leftarrow> if has_event p then reload ok (pr_reload_ok R) m else Some (True, m);
          if go
          then do {
            (s, v) \<leftarrow> serve E ok R 1 (mo_fm m, mo_poll m);
            Some (True, m\<lparr>mo_fm := s, mo_poll := v\<rparr>)
          }
          else Some (False, m)
        }
      })"

text \<open>
  The loop over the rounds the kernel gives it; without an end it still polls. At the end it closes
  the descriptors, which are the result, and frees the list.
\<close>

fun poll_on_ufds ::
  "'c env \<Rightarrow> bool \<Rightarrow> poll_round list \<Rightarrow> ('c, 'z) monitor \<Rightarrow> (fd list option \<times> ('c, 'z) monitor) option" where
  "poll_on_ufds E ok [] m = Some (None, m)"
| "poll_on_ufds E ok (R # Rs) m = do {
     (go, m') \<leftarrow> poll_body E ok R m;
     m \<leftarrow> after_report E m m';
     if go then poll_on_ufds E ok Rs m
     else do {
       fs \<leftarrow> pollfd_vector_close (mo_poll m);
       Some (Some fs, m\<lparr>mo_poll := pollfd_vector_free (mo_poll m)\<rparr>)
     }
   }"

section \<open>The reaper\<close>

fun del_dead :: "bool \<Rightarrow> fd list \<Rightarrow> 'c fm \<times> Pollfd_vector \<Rightarrow> ('c fm \<times> Pollfd_vector) option" where
  "del_dead ok [] sv = Some sv"
| "del_dead ok (f # fs) sv = do { (_, sv) \<leftarrow> del_polled ok f sv; del_dead ok fs sv }"

text \<open>One round of the thread, which sleeps ten seconds after it.\<close>

definition reaper_thread :: "'c env \<Rightarrow> 'z site \<Rightarrow> bool \<Rightarrow> ('c, 'z) monitor \<Rightarrow> ('c, 'z) monitor option" where
  "reaper_thread E S ok m = do {
     (fds, s, z) \<leftarrow> purgeDeadUpids E S (mo_fm m, mo_zk m);
     (s, v) \<leftarrow> del_dead ok fds (s, mo_poll m);
     Some (m\<lparr>mo_fm := s, mo_zk := z, mo_poll := v\<rparr>)
   }"

section \<open>New descriptors\<close>

text \<open>
  A message on a connection: \<^verbatim>\<open>recv_fd\<close> gave \<open>ufd\<close>, or an error; a thread is started for it in any case.
  A place past the array of threads is undefined.
\<close>

definition main_receive :: "fd \<Rightarrow> int \<Rightarrow> ('c, 'z) monitor \<Rightarrow> ('c, 'z) monitor option" where
  "main_receive ufd rc m =
     (let m = (if ufd < 0 then upd_fm log_err m else m);
          m = m\<lparr>num_threads := num_threads m + 1\<rparr>
      in if 0 \<le> num_threads m \<and> num_threads m < MAX_THREADS
         then Some (if rc = 0 then m\<lparr>mo_starting := mo_starting m @ [ufd]\<rparr>
                    else upd_fm log_err (m\<lparr>num_threads := num_threads m - 1\<rparr>))
         else None)"

text \<open>
  The thread for a descriptor. It blocks while the mutex is taken, and while the counter cannot hold
  the sum.
\<close>

definition new_ufd_handler :: "fd \<Rightarrow> ('c, 'z) monitor \<Rightarrow> ('c, 'z) monitor option" where
  "new_ufd_handler ufd m =
     (let ufd64 = (word_of_int ufd :: u64) in
      if add_fd_lock m then None
      else if ufd64 = - 1 then Some (upd_fm log_err (m\<lparr>num_threads := num_threads m - 1\<rparr>))
      else if unat (mo_efd m) + unat ufd64 < 2 ^ 64 - 1
      then Some (m\<lparr>add_fd_lock := True, mo_efd := mo_efd m + ufd64, num_threads := num_threads m - 1\<rparr>)
      else None)"

end
