(* ===== verification/User_Interface.thy ===== *)
theory User_Interface
  imports Monitor
begin

text \<open>
  \<^verbatim>\<open>monitor/ui_processing.c\<close>: the commands a user sends to the monitor over a local socket, in the build
  without timing. A request is the bytes of one \<^verbatim>\<open>read\<close>; it is cut into words at blanks and line ends,
  the first word names the command, and three commands take a number from the second word. The text
  sent back is a list of replies. Whether a write to the socket meets a closed connection is an
  argument. The page fault rate, a float, is left out of the statistics. A number that does not fit an \<^verbatim>\<open>int\<close> is undefined.
\<close>

section \<open>Words and numbers\<close>

definition is_separator :: "char \<Rightarrow> bool" where
  "is_separator c \<longleftrightarrow> c = CHR '' '' \<or> c = CHR 0x0A"

text \<open>The successive results of \<^verbatim>\<open>strsep\<close>: two separators in a row give an empty word.\<close>

fun strsep :: "string \<Rightarrow> string list" where
  "strsep [] = [[]]"
| "strsep (c # cs) =
     (if is_separator c then [] # strsep cs
      else case strsep cs of w # ws \<Rightarrow> (c # w) # ws | [] \<Rightarrow> [[c]])"

definition is_space :: "char \<Rightarrow> bool" where
  "is_space c \<longleftrightarrow> c \<in> {CHR '' '', CHR 0x09, CHR 0x0A, CHR 0x0B, CHR 0x0C, CHR 0x0D}"

definition digit :: "char \<Rightarrow> int option" where
  "digit c = (let n = int (of_char c :: nat) in if 48 \<le> n \<and> n \<le> 57 then Some (n - 48) else None)"

fun digits :: "int \<Rightarrow> string \<Rightarrow> int" where
  "digits n [] = n"
| "digits n (c # cs) = (case digit c of None \<Rightarrow> n | Some d \<Rightarrow> digits (10 * n + d) cs)"

definition atoi :: "string \<Rightarrow> int option" where
  "atoi s =
     (let n = (case dropWhile is_space s of
                 [] \<Rightarrow> 0
               | c # cs \<Rightarrow> if c = CHR ''-'' then - digits 0 cs
                           else if c = CHR ''+'' then digits 0 cs else digits 0 (c # cs))
      in if - (2 ^ 31) \<le> n \<and> n < 2 ^ 31 then Some n else None)"

section \<open>Commands\<close>

datatype ui_menu = MENU_EVICT | MENU_RESIZE | MENU_DISCONNECT

datatype ui_reply =
    Print_info bool | Error_removing u32 | Pids "u32 list" | Usage int | Stats "u64 list" timeval
  | Cleared | Stopped | Incorrect

text \<open>What follows a word: another word, another request, the end of the connection, or of the monitor.\<close>

datatype ui_next = Menu ui_menu | Again | Done | Stop

record ('c, 'z) ui =
  ui_monitor :: "('c, 'z) monitor"
  print_info :: bool
  isDisconnected :: bool
  stop_by_ui :: bool

text \<open>The surroundings: what the commands need besides the environment of the fault handler.\<close>

record ('c, 'z) ui_env =
  ue_env :: "'c env"
  ue_site :: "'z site"
  ue_ok :: bool
  ue_getUsage :: "'c \<Rightarrow> int option"
  ue_percent :: "u64 \<Rightarrow> u64 \<Rightarrow> u64"
  ue_now :: "timeval \<times> timeval"

definition put_ui_fm :: "'c fm \<Rightarrow> ('c, 'z) ui \<Rightarrow> ('c, 'z) ui" where
  "put_ui_fm s u = u\<lparr>ui_monitor := (ui_monitor u)\<lparr>mo_fm := s\<rparr>\<rparr>"

text \<open>The commands with a number; the eviction takes no lock.\<close>

fun ui_argument ::
  "('c, 'z) ui_env \<Rightarrow> ui_menu \<Rightarrow> string \<Rightarrow> ('c, 'z) ui \<Rightarrow> (ui_reply list \<times> ('c, 'z) ui) option" where
  "ui_argument U MENU_EVICT token u = do {
     size \<leftarrow> atoi token;
     (r, s) \<leftarrow> evict_to_externram_multi (ue_env U) size (mo_fm (ui_monitor u));
     Some ([], put_ui_fm s u)
   }"
| "ui_argument U MENU_RESIZE token u = do {
     size \<leftarrow> atoi token;
     s \<leftarrow> resizeLRUBuffer (ue_env U) size (mo_fm (ui_monitor u));
     Some ([], put_ui_fm s u)
   }"
| "ui_argument U MENU_DISCONNECT token u = do {
     s \<leftarrow> flush_write_list (ue_env U) (mo_fm (ui_monitor u));
     pid \<leftarrow> atoi token;
     (r, s, z) \<leftarrow> removePid (ue_env U) (ue_site U) (word_of_int pid) (s, mo_zk (ui_monitor u));
     Some (if r < 0 then [Error_removing (word_of_int pid)] else [],
           u\<lparr>ui_monitor := (ui_monitor u)\<lparr>mo_fm := s, mo_zk := z\<rparr>\<rparr>)
   }"

definition ui_print :: "('c, 'z) ui \<Rightarrow> ui_reply list \<times> ('c, 'z) ui" where
  "ui_print u = ([Print_info (\<not> print_info u)], u\<lparr>print_info := \<not> print_info u\<rparr>)"

definition ui_flush :: "('c, 'z) ui_env \<Rightarrow> ('c, 'z) ui \<Rightarrow> ('c, 'z) ui option" where
  "ui_flush U u = do {
     let m = ui_monitor u;
     (fds, s, z) \<leftarrow> purgeDeadUpids (ue_env U) (ue_site U) (mo_fm m, mo_zk m);
     (s, v) \<leftarrow> del_dead (ue_ok U) fds (s, mo_poll m);
     Some (u\<lparr>ui_monitor := m\<lparr>mo_fm := s, mo_zk := z, mo_poll := v\<rparr>\<rparr>)
   }"

definition ui_stat :: "('c, 'z) ui_env \<Rightarrow> ('c, 'z) ui \<Rightarrow> ui_reply list \<times> ('c, 'z) ui" where
  "ui_stat U u =
     (let s = mo_fm (ui_monitor u);
          (_, st) = StatsGetRate (\<lambda>_ _ _. ()) (fst (ue_now U)) (snd (ue_now U)) (fm_stats s)
      in ([Stats (map (\<lambda>k. StatsGetStat (ue_percent U) k (fm_stats s))
             [LRU_BUFFERSIZE, LRU_BUFFERCAP, NUM_UFDS, PAGE_FAULTS, ZEROPAGES, PLACED_PAGES, WRITES_SKIPPED_ZERO,
              PAGES_EVICTED, CACHE_HIT, CACHE_MISS, CACHE_HITRATIO, WRITES_AVOIDED, WRITES_SKIPPED_INVALID])
             (StatsGetLastFaultTime st)],
          put_ui_fm (s\<lparr>fm_stats := st\<rparr>) u))"

text \<open>The comparisons of the first word with the names.\<close>

datatype ui_name =
    Cmd_print | Cmd_flush | Cmd_listpids | Cmd_usage | Cmd_evict | Cmd_resize | Cmd_disconnectpid | Cmd_stat | Cmd_clearstats
  | Cmd_stop | Cmd_unknown

definition ui_name_of :: "string \<Rightarrow> ui_name" where
  "ui_name_of token =
     (if token = ''print'' \<or> token = ''p'' then Cmd_print
      else if token = ''flush'' \<or> token = ''f'' then Cmd_flush
      else if token = ''listpids'' \<or> token = ''l'' then Cmd_listpids
      else if token = ''usage'' \<or> token = ''u'' then Cmd_usage
      else if token = ''evict'' \<or> token = ''e'' then Cmd_evict
      else if token = ''resize'' \<or> token = ''r'' then Cmd_resize
      else if token = ''disconnectpid'' \<or> token = ''d'' then Cmd_disconnectpid
      else if token = ''stat'' \<or> token = ''s'' then Cmd_stat
      else if token = ''clearstats'' \<or> token = ''c'' then Cmd_clearstats
      else if token = ''stop'' \<or> token = ''t'' then Cmd_stop
      else Cmd_unknown)"

text \<open>What the first word does. Only \<^verbatim>\<open>print\<close> and the commands with a number end the connection.\<close>

fun ui_run ::
  "('c, 'z) ui_env \<Rightarrow> ui_name \<Rightarrow> ('c, 'z) ui \<Rightarrow> (ui_next \<times> ui_reply list \<times> ('c, 'z) ui) option" where
  "ui_run U Cmd_print u = Some (Done, ui_print u)"
| "ui_run U Cmd_flush u = do { u \<leftarrow> ui_flush U u; Some (Again, [], u) }"
| "ui_run U Cmd_listpids u = do {
     (pids, s) \<leftarrow> listPids (ue_site U) (mo_fm (ui_monitor u));
     Some (Again, [Pids pids], put_ui_fm s u)
   }"
| "ui_run U Cmd_usage u = do {
     (n, s) \<leftarrow> getExternRAMUsage (ue_site U) (ue_getUsage U) (mo_fm (ui_monitor u));
     Some (Again, if n > 0 then [Usage n] else [], put_ui_fm s u)
   }"
| "ui_run U Cmd_evict u = Some (Menu MENU_EVICT, [], u)"
| "ui_run U Cmd_resize u = Some (Menu MENU_RESIZE, [], u)"
| "ui_run U Cmd_disconnectpid u = Some (Menu MENU_DISCONNECT, [], u)"
| "ui_run U Cmd_stat u = Some (Again, ui_stat U u)"
| "ui_run U Cmd_clearstats u =
     Some (Again, [Cleared], put_ui_fm (upd_stats (StatsClear (fst (ue_now U))) (mo_fm (ui_monitor u))) u)"
| "ui_run U Cmd_stop u = Some (Stop, [Stopped], u\<lparr>stop_by_ui := True\<rparr>)"
| "ui_run U Cmd_unknown u = Some (Again, [Incorrect], u)"

definition ui_command ::
  "('c, 'z) ui_env \<Rightarrow> string \<Rightarrow> ('c, 'z) ui \<Rightarrow> (ui_next \<times> ui_reply list \<times> ('c, 'z) ui) option" where
  "ui_command U token u = ui_run U (ui_name_of token) u"

fun ui_tokens ::
  "('c, 'z) ui_env \<Rightarrow> ui_menu option \<Rightarrow> string list \<Rightarrow> ('c, 'z) ui \<Rightarrow> (ui_next \<times> ui_reply list \<times> ('c, 'z) ui) option" where
  "ui_tokens U menu [] u = Some (Again, [], u)"
| "ui_tokens U (Some menu) (token # tokens) u = map_option (Pair Done) (ui_argument U menu token u)"
| "ui_tokens U None (token # tokens) u = do {
     (next, out, u) \<leftarrow> ui_command U token u;
     case next of
       Menu menu \<Rightarrow> ui_tokens U (Some menu) tokens u
     | _ \<Rightarrow> Some (next, out, u)
   }"

section \<open>Requests\<close>

text \<open>The buffer is cleared before the read; if all of it is filled the string has no end.\<close>

definition BUFFER_SIZE :: nat where
  "BUFFER_SIZE = 1024"

definition c_string :: "nat \<Rightarrow> string \<Rightarrow> string option" where
  "c_string n bytes =
     (let s = takeWhile (\<lambda>c. c \<noteq> CHR 0x00) (take n bytes) in if length s < n then Some s else None)"

definition ui_request ::
  "('c, 'z) ui_env \<Rightarrow> string \<Rightarrow> ('c, 'z) ui \<Rightarrow> (ui_next \<times> ui_reply list \<times> ('c, 'z) ui) option" where
  "ui_request U bytes u = do {
     string \<leftarrow> c_string BUFFER_SIZE bytes;
     ui_tokens U None (strsep string) u
   }"

text \<open>
  A connection: the requests with whether the reply met a closed socket. The result is whether the
  monitor stops, the replies and the state. The flag \<^verbatim>\<open>isDisconnected\<close> is never cleared. The connection
  waits for more when the requests are used up.
\<close>

fun ui_connection ::
  "('c, 'z) ui_env \<Rightarrow> (string \<times> bool) list \<Rightarrow> ('c, 'z) ui \<Rightarrow> (ui_next \<times> ui_reply list list \<times> ('c, 'z) ui) option" where
  "ui_connection U [] u = Some (Again, [], u)"
| "ui_connection U ((bytes, closed) # reqs) u = do {
     (next, out, u) \<leftarrow> ui_request U bytes u;
     let u = (if closed then u\<lparr>isDisconnected := True\<rparr> else u);
     if next = Stop then Some (Stop, [out], u)
     else if isDisconnected u \<or> next = Done then Some (Done, [out], u)
     else do {
       (next, outs, u) \<leftarrow> ui_connection U reqs u;
       Some (next, out # outs, u)
     }
   }"

section \<open>The client\<close>

text \<open>
  \<^verbatim>\<open>monitor/ui.c\<close>: the program that sends the commands. Its arguments after the program name decide
  whether it prints how to use it, prompts for commands, or sends one command.
\<close>

definition BUFSIZE :: nat where
  "BUFSIZE = 1024 * 10"

datatype ui_call = Print_usage | Interactive string | Send string "string option" "string option"

fun ui_arguments :: "string list \<Rightarrow> ui_call" where
  "ui_arguments [] = Print_usage"
| "ui_arguments (a # args) =
     (if a = ''-i'' then (case args of addr # _ \<Rightarrow> Interactive addr | [] \<Rightarrow> Print_usage)
      else case args of
        [] \<Rightarrow> Send a None None
      | [command] \<Rightarrow> Send a (Some command) None
      | command # arg # _ \<Rightarrow> Send a (Some command) (Some arg))"

text \<open>The bytes of the request; without a command the program passes a null pointer on.\<close>

definition ui_bytes :: "string option \<Rightarrow> string option \<Rightarrow> string option" where
  "ui_bytes command arg =
     (case command of
        None \<Rightarrow> None
      | Some c \<Rightarrow>
          let s = (case arg of Some a \<Rightarrow> c @ '' '' @ a | None \<Rightarrow> c)
          in if length s < BUFSIZE then Some s else None)"

text \<open>The reply is ended by a byte written behind the ones that were read.\<close>

definition ui_response :: "string \<Rightarrow> string option" where
  "ui_response bytes =
     (if bytes = [] then Some []
      else if length bytes < BUFSIZE then Some bytes else None)"

text \<open>A line at the prompt, as \<^verbatim>\<open>fgets\<close> reads it.\<close>

datatype ui_prompt = Quit | Help | Request string

definition interactive_prompt :: "string \<Rightarrow> ui_prompt" where
  "interactive_prompt command =
     (let token = hd (strsep command)
      in if token = ''q'' \<or> token = ''quit'' then Quit
         else if token = ''h'' \<or> token = ''help'' then Help
         else Request command)"

end
