(* ===== verification/Monitor_Props.thy ===== *)
theory Monitor_Props
  imports Monitor Transparency Flush_Props
begin

text \<open>
  The monitor as a whole. The polling thread serves the faults of all applications without changing
  the contents of any page; the reaper forgets dead processes in the map and in the polling list; the
  hand-over of descriptors through the event descriptor neither loses nor mixes them up.
\<close>

section \<open>Return codes of the fault handler\<close>

text \<open>A positive code is the descriptor of a page that was in the LRU buffer, or the faulting one.\<close>

definition fault_codes :: "fd \<Rightarrow> 'c fm \<Rightarrow> int set" where
  "fault_codes f s = {r. r \<le> 0} \<union> insert f (cn_ufd ` set (il (fm_lru s)))"

lemma evict_attempts_code:
  "evict_attempts E n f a s = Inr (r, p, s') \<Longrightarrow> r \<in> {-1, 0, 1, 2}"
proof (induction n arbitrary: s)
  case (Suc n)
  then show ?case
    by (auto split: prod.splits if_splits dest: evict_switch_mach)
qed simp

lemma evict_code: "evict_to_externram E f a s = Some (r, s') \<Longrightarrow> r \<in> {-1, 0, 1, 2}"
  by (auto simp: evict_to_externram_def bind_eq_Some_conv split: sum.splits prod.splits if_splits
      dest: evict_attempts_code)

lemma set_del_first: "set (del_first P xs) \<subseteq> set xs"
  by (induction xs) auto

lemma lru_insert_ufd: "n \<in> set (lru_insert (new_node a f) xs) \<Longrightarrow> cn_ufd n \<in> insert f (cn_ufd ` set xs)"
  using set_del_first [of "\<lambda>z. cn_hashcode z = cn_hashcode (new_node a f)" xs]
  by (auto simp: lru_insert_def find_Some_iff split: option.splits)

lemma evict_if_needed_code:
  assumes "evict_if_needed E f a t s = Some (r, s')"
  shows "r \<in> fault_codes f s"
proof -
  let ?xs = "lru_insert (new_node a f) (il (fm_lru s))"
  obtain s1 where s1: "lockS lru_lock s = Some s1" using assms by (auto simp: evict_if_needed_def bind_eq_Some_conv)
  then have l: "fm_lru s1 = fm_lru s" by (auto simp: lockS_def)
  have "?xs \<noteq> []" by (auto simp: lru_insert_def split: option.splits)
  then have n: "cn_ufd n \<in> insert f (cn_ufd ` set (il (fm_lru s))) \<or> n = null_node"
    if "insertCacheNodeAndEvict a f (fm_lru s1, fm_stats s1) = Some (n, ls)" for n ls
    using that lru_insert_ufd [of "last ?xs" a f "il (fm_lru s)"] l
      insertCacheNodeAndEvict_room [of a f "fm_lru s" "fm_stats s1"] insertCacheNodeAndEvict_full [of "fm_lru s" a f "fm_stats s1"]
    by (cases "length ?xs \<le> max_num_items (fm_lru s)") auto
  obtain m ls s2 where m: "insertCacheNodeAndEvict a f (fm_lru s1, fm_stats s1) = Some (m, ls)"
    and s2: "unlockS lru_lock (put_lru ls s1) = Some s2"
    using assms s1 by (auto simp: evict_if_needed_def bind_eq_Some_conv)
  show ?thesis
  proof (cases "cn_hashcode m = 0")
    case True
    then show ?thesis using assms s1 m s2 by (simp add: evict_if_needed_def fault_codes_def)
  next
    case False
    then have u: "cn_ufd m \<in> insert f (cn_ufd ` set (il (fm_lru s)))" using n [OF m] by (auto simp: null_node_def)
    obtain r2 s3 where e: "evict_to_externram E (cn_ufd m) (cn_hashcode m AND PAGE_MASK) s2 = Some (r2, s3)"
      using assms s1 m s2 False by (auto simp: evict_if_needed_def bind_eq_Some_conv Let_def)
    from evict_code [OF e] have "r \<le> 0 \<or> r = cn_ufd m"
      using assms s1 m s2 False e by (auto simp: evict_if_needed_def bind_eq_Some_conv Let_def split: if_splits)
    then show ?thesis using u by (auto simp: fault_codes_def)
  qed
qed

lemma place_page_out_code:
  assumes "place_page_out E f a n b s = Some (r, s')" "e_cfg E = plain_config"
  shows "r \<in> fault_codes f s"
  using assms
  by (auto simp: place_page_out_def place_data_page_def place_zero_page_def bind_eq_Some_conv Let_def fault_codes_def
      split: if_splits prod.splits dest!: evict_if_needed_code)

lemma read_from_externram_code:
  assumes "read_from_externram E f a s = Some (r, s')" "e_cfg E = plain_config"
  shows "r \<in> fault_codes f s"
proof -
  obtain n r2 s4 b s5 where 1: "fetch_direct E f a (upd_stats StatsIncrPageFault s) = Some (n, r2, s4)"
    "place_page_out E f a n b s4 = Some (r, s5)"
    using assms by (auto simp: read_from_externram_def bind_eq_Some_conv Let_def)
  have "fm_lru s4 = fm_lru s"
    using 1(1) assms(2)
    by (auto simp: fetch_direct_def fm_readPage_def put_client_def bind_eq_Some_conv Let_def upd_stats_def log_err_def
        case_prod_beta split: if_splits)
  then show ?thesis using place_page_out_code [OF 1(2) assms(2)] by (simp add: fault_codes_def)
qed

section \<open>The polling list\<close>

text \<open>
  The first entry is the event descriptor, which no application owns; the others are descriptors of
  applications in the map.
\<close>

definition poll_ok :: "'c fm \<Rightarrow> Pollfd_vector \<Rightarrow> bool" where
  "poll_ok s v \<longleftrightarrow> pv_wf v \<and> entries_of v \<noteq> [] \<and> pfd (hd (entries_of v)) = reload_addfd v
     \<and> \<not> registered (reload_addfd v) s \<and> (\<forall>p \<in> set (tl (entries_of v)). registered (pfd p) s)"

lemma set_revents_list:
  assumes "pv_list v = map Some ps @ rest" "nat (pv_size v) = length ps"
  shows "pv_list (set_revents re v) = map Some (map (\<lambda>i. (ps ! i)\<lparr>prevents := re i\<rparr>) [0..<length ps]) @ rest"
  using assms by (intro nth_equalityI) (auto simp: set_revents_def nth_append)

lemma set_revents_entries:
  assumes "pv_wf v"
  shows "pv_wf (set_revents re v)" "reload_addfd (set_revents re v) = reload_addfd v"
    "entries_of (set_revents re v) = map (\<lambda>i. (entries_of v ! i)\<lparr>prevents := re i\<rparr>) [0..<length (entries_of v)]"
proof -
  note wf = pv_wfD [OF assms]
  obtain rest where r: "pv_list v = map Some (entries_of v) @ rest" "length rest = nat (pv_capacity v - pv_size v)"
    using pv_wf_cells [OF assms] .
  have l: "pv_list (set_revents re v) = map Some (map (\<lambda>i. (entries_of v ! i)\<lparr>prevents := re i\<rparr>) [0..<length (entries_of v)]) @ rest"
    using set_revents_list [OF r(1)] wf by simp
  have same: "pv_size (set_revents re v) = pv_size v" "pv_capacity (set_revents re v) = pv_capacity v"
    by (simp_all add: set_revents_def)
  show "pv_wf (set_revents re v)"
    "entries_of (set_revents re v) = map (\<lambda>i. (entries_of v ! i)\<lparr>prevents := re i\<rparr>) [0..<length (entries_of v)]"
    using pv_wfI [OF l] same wf r(2) by (auto simp: nat_diff_distrib)
  show "reload_addfd (set_revents re v) = reload_addfd v" by (simp add: set_revents_def)
qed

lemma set_revents_ok:
  assumes "poll_ok s v"
  shows "poll_ok s (set_revents re v)"
proof -
  have wf: "pv_wf v" and ne: "entries_of v \<noteq> []" using assms by (auto simp: poll_ok_def)
  let ?es = "entries_of (set_revents re v)"
  have p: "map pfd ?es = map pfd (entries_of v)"
    unfolding set_revents_entries(3) [OF wf] by (intro nth_equalityI) auto
  have n: "?es \<noteq> []" using ne arg_cong [OF p, of length] by auto
  have "pfd (hd ?es) = pfd (hd (entries_of v))" using p n ne by (metis hd_map)
  moreover have "registered (pfd q) s" if q: "q \<in> set (tl ?es)" for q
  proof -
    have "pfd ` set (tl ?es) = pfd ` set (tl (entries_of v))" using p by (metis map_tl set_map)
    then obtain q' where "q' \<in> set (tl (entries_of v))" "pfd q' = pfd q" using imageI [OF q, of pfd] by force
    then show ?thesis using assms by (metis poll_ok_def)
  qed
  ultimately show ?thesis
    using assms n set_revents_entries(1,2) [OF wf, of re] by (auto simp: poll_ok_def)
qed

lemma set_swap_remove: "set (swap_remove f ps) \<subseteq> set ps"
proof (induction ps)
  case (Cons p ps)
  then show ?case using last_in_set [of ps] in_set_butlastD [of _ ps] by auto
qed simp

lemma del_polled_ok:
  assumes ok: "poll_ok s v" and f: "f \<noteq> reload_addfd v"
  shows "\<exists>r st v'. del_polled True f (s, v) = Some (r, s\<lparr>fm_stats := st\<rparr>, v') \<and> poll_ok s v'
    \<and> reload_addfd v' = reload_addfd v \<and> pv_size v' \<le> pv_size v \<and> entries_of v' = swap_remove f (entries_of v)"
proof -
  have wf: "pv_wf v" and ne: "entries_of v \<noteq> []" and h: "pfd (hd (entries_of v)) = reload_addfd v"
    using ok by (auto simp: poll_ok_def)
  obtain r v' st where d: "pollfd_vector_remove True f v (fm_stats s) = Some (r, v', st)" "pv_wf v'"
    "entries_of v' = swap_remove f (entries_of v)" "reload_addfd v' = reload_addfd v"
    using remove_behaviour [OF wf, of f "fm_stats s"] by blast
  have hd: "hd (entries_of v') = hd (entries_of v)" "entries_of v' \<noteq> []"
    using swap_remove_hd [OF ne, of f] h f d(3) by auto
  have tl: "set (tl (entries_of v')) \<subseteq> set (tl (entries_of v))"
    using ne h f set_swap_remove [of f "tl (entries_of v)"] unfolding d(3) by (cases "entries_of v") auto
  have "length (entries_of v') \<le> length (entries_of v)" using swap_remove_length [of f "entries_of v"] d(3) by simp
  then have "pv_size v' \<le> pv_size v" using pv_wf_size [OF wf] pv_wf_size [OF d(2)] by simp
  moreover have "poll_ok s v'" using ok d hd tl by (auto simp: poll_ok_def)
  ultimately show ?thesis using d(1,3,4) by (auto simp: del_polled_def del_fd_def)
qed

lemma poll_ok_cong: "fm_map s' = fm_map s \<Longrightarrow> poll_ok s' v = poll_ok s v"
  by (simp add: poll_ok_def registered_def)

section \<open>Serving faults\<close>

abbreviation plain_noop :: "kernel \<Rightarrow> noop_client env \<Rightarrow> bool" where
  "plain_noop K E \<equiv> kernel_ok K \<and> e_kernel E = K \<and> e_backend E = noop_backend K \<and> e_cfg E = plain_config"

lemma noop_inv_agree:
  assumes "fm_map s' = fm_map s" "fm_clients s' = fm_clients s" "fm_mach s' = fm_mach s" "fm_lru s' = fm_lru s"
    "fm_locks s' = fm_locks s" "fm_read_tmp_page s' = fm_read_tmp_page s"
  shows "noop_inv s' = noop_inv s" "noop_logical s' = noop_logical s"
  using assms core_agree [OF assms(1-3,6)] by (simp_all add: fm_inv_def lru_resident_def)

lemma noop_inv_stats: "noop_inv (s\<lparr>fm_stats := st\<rparr>) = noop_inv s" "noop_logical (s\<lparr>fm_stats := st\<rparr>) = noop_logical s"
  by (rule noop_inv_agree; simp)+

lemma noop_inv_log: "noop_inv (log_err s) = noop_inv s" "noop_logical (log_err s) = noop_logical s"
  "fm_map (log_err s) = fm_map s"
  by (rule noop_inv_agree; simp add: log_err_def)+ (simp add: log_err_def)

text \<open>What serving leaves as it was.\<close>

definition served :: "noop_client fm \<times> Pollfd_vector \<Rightarrow> noop_client fm \<times> Pollfd_vector \<Rightarrow> bool" where
  "served = (\<lambda>(s, v) (s', v'). noop_inv s' \<and> noop_logical s' = noop_logical s \<and> fm_map s' = fm_map s \<and> poll_ok s' v'
     \<and> pv_size v' \<le> pv_size v \<and> reload_addfd v' = reload_addfd v)"

lemma served_trans: "served x y \<Longrightarrow> served y z \<Longrightarrow> served x z"
  by (auto simp: served_def split: prod.splits)

lemma handle_fault:
  assumes K: "plain_noop K E" "region_stable K f" and inv: "noop_inv s" and reg: "registered f s" and ok: "poll_ok s v"
  shows "\<exists>rc s' v'. handle_userfault E True (Read_bytes sizeof_uffd_msg (UFFD_EVENT_PAGEFAULT address)) f (s, v)
      = Some (rc, s', v') \<and> served (s, v) (s', v')
    \<and> (v' = v \<or> (\<exists>g. entries_of v' = swap_remove g (entries_of v)))
    \<and> (length (il (fm_lru s)) < max_num_items (fm_lru s) \<or> 2 \<le> max_num_items (fm_lru s) \<longrightarrow>
         resident (fm_mach s') f (address AND PAGE_MASK) = Some (noop_logical s f (address AND PAGE_MASK)))"
proof -
  let ?a = "address AND PAGE_MASK"
  have al: "page_aligned ?a" by simp
  obtain ret s1 where r: "read_from_externram E f ?a s = Some (ret, s1)" and i: "noop_inv s1" "keeps noop_content s s1"
    and res: "length (il (fm_lru s)) < max_num_items (fm_lru s) \<or> 2 \<le> max_num_items (fm_lru s) \<Longrightarrow>
       resident (fm_mach s1) f ?a = Some (noop_logical s f ?a)"
    using noop.read_from_externram_keeps [of K E f s ?a] K inv reg al no_demands_simps(1) by metis
  have m: "fm_map s1 = fm_map s" "noop_logical s1 = noop_logical s" using i(2) by (simp_all add: keeps_def)
  have ok1: "poll_ok s1 v" using ok m poll_ok_cong by blast
  show ?thesis
  proof (cases "ret \<le> 0")
    case True
    let ?s = "if ret < 0 then log_err s1 else s1"
    have "handle_userfault E True (Read_bytes sizeof_uffd_msg (UFFD_EVENT_PAGEFAULT address)) f (s, v) = Some (ret, ?s, v)"
      using r True by (auto simp: handle_userfault_def)
    moreover have "served (s, v) (?s, v)"
      using i m ok1 poll_ok_cong [of "log_err s1" s1 v] by (auto simp: served_def noop_inv_log)
    moreover have "resident (fm_mach ?s) = resident (fm_mach s1)" by simp
    ultimately show ?thesis using res by auto
  next
    case False
    have "ret \<in> insert f (cn_ufd ` set (il (fm_lru s)))"
      using read_from_externram_code [OF r] K False by (simp add: fault_codes_def)
    then have "registered ret s" using reg inv by (auto simp: fm_inv_def lru_resident_def node_resident_def)
    then have "ret \<noteq> reload_addfd v" using ok by (auto simp: poll_ok_def)
    then obtain c st v' where d: "del_polled True ret (s1, v) = Some (c, s1\<lparr>fm_stats := st\<rparr>, v')" "poll_ok s1 v'"
      "reload_addfd v' = reload_addfd v" "pv_size v' \<le> pv_size v" "entries_of v' = swap_remove ret (entries_of v)"
      using del_polled_ok [OF ok1] by blast
    have "handle_userfault E True (Read_bytes sizeof_uffd_msg (UFFD_EVENT_PAGEFAULT address)) f (s, v)
        = Some (0, s1\<lparr>fm_stats := st\<rparr>, v')" using r d(1) False by (simp add: handle_userfault_def)
    moreover have "served (s, v) (s1\<lparr>fm_stats := st\<rparr>, v')"
      using i m d poll_ok_cong [of "s1\<lparr>fm_stats := st\<rparr>" s1 v'] by (simp add: served_def noop_inv_stats)
    ultimately show ?thesis using res d(5) by auto
  qed
qed

lemma handle_keeps:
  assumes K: "plain_noop K E" "region_stable K f" and inv: "noop_inv s" and reg: "registered f s" and ok: "poll_ok s v"
  shows "\<exists>rc s' v'. handle_userfault E True r f (s, v) = Some (rc, s', v') \<and> served (s, v) (s', v')"
proof -
  have f: "f \<noteq> reload_addfd v" using ok reg by (auto simp: poll_ok_def)
  have same: "served (s, v) (s, v)" "served (s, v) (log_err s, v)"
    using inv ok poll_ok_cong [of "log_err s" s v] by (simp_all add: served_def noop_inv_log)
  obtain c st v' where d: "del_polled True f (s, v) = Some (c, s\<lparr>fm_stats := st\<rparr>, v')" "poll_ok s v'"
    "reload_addfd v' = reload_addfd v" "pv_size v' \<le> pv_size v" using del_polled_ok [OF ok f] by blast
  then have del: "served (s, v) (s\<lparr>fm_stats := st\<rparr>, v')"
    using inv poll_ok_cong [of "s\<lparr>fm_stats := st\<rparr>" s v'] by (simp add: served_def noop_inv_stats)
  show ?thesis
  proof (cases r)
    case (Read_fails b)
    then show ?thesis using same by (simp add: handle_userfault_def)
  next
    case (Read_bytes n ev)
    show ?thesis
    proof (cases "n = sizeof_uffd_msg")
      case False
      then show ?thesis using same Read_bytes by (simp add: handle_userfault_def)
    next
      case True
      show ?thesis
      proof (cases "\<exists>address. ev = UFFD_EVENT_PAGEFAULT address")
        case pf: True
        then show ?thesis using handle_fault [OF K inv reg ok] Read_bytes True by blast
      next
        case False
        then show ?thesis using same d(1) del Read_bytes True by (cases ev) (auto simp: handle_userfault_def)
      qed
    qed
  qed
qed

lemma serve_keeps:
  assumes K: "plain_noop K E" "\<And>f. region_stable K f" and inv: "noop_inv s" and ok: "poll_ok s v" and i: "1 \<le> i"
  shows "\<exists>s' v'. serve E True R i (s, v) = Some (s', v') \<and> served (s, v) (s', v')"
  using inv ok i
proof (induction "nat (pv_size v - i)" arbitrary: i s v rule: less_induct)
  case (less i v s)
  have wf: "pv_wf v" using less.prems(2) by (simp add: poll_ok_def)
  have refl: "served (s, v) (s, v)" "served (s, v) (log_err s, v)"
    using less.prems poll_ok_cong [of "log_err s" s v] by (simp_all add: served_def noop_inv_log)
  show ?case
  proof (cases "i < pv_size v")
    case False
    then show ?thesis using refl by (simp add: serve.simps)
  next
    case True
    let ?p = "entries_of v ! nat i"
    have c: "cell v i = Some ?p" using cell_entries [OF wf, of i] True less.prems(3) by simp
    have l: "nat i < length (entries_of v)" using pv_wf_size [OF wf] True less.prems(3) by simp
    then have "tl (entries_of v) ! (nat i - 1) = ?p" "nat i - 1 < length (tl (entries_of v))"
      using less.prems(3) by (auto simp: nth_tl)
    then have "?p \<in> set (tl (entries_of v))" using nth_mem by metis
    then have reg: "registered (pfd ?p) s" using less.prems(2) by (simp add: poll_ok_def)
    consider (idle) "\<not> has_event ?p" | (bad) "has_event ?p" "bad_event ?p" | (good) "has_event ?p" "\<not> bad_event ?p" by blast
    then show ?thesis
    proof cases
      case idle
      then have "serve E True R i (s, v) = serve E True R (i + 1) (s, v)" using True c by (simp add: serve.simps)
      then show ?thesis using less.hyps [of v "i + 1" s] True less.prems by simp
    next
      case bad
      then show ?thesis using True c refl by (simp add: serve.simps)
    next
      case good
      obtain rc s1 v1 where h: "handle_userfault E True (pr_reads R i (pfd ?p)) (pfd ?p) (s, v) = Some (rc, s1, v1)"
        "served (s, v) (s1, v1)" using handle_keeps [OF K less.prems(1) reg less.prems(2)] by blast
      have s1: "noop_inv s1" "poll_ok s1 v1" "pv_size v1 \<le> pv_size v" using h(2) by (simp_all add: served_def)
      show ?thesis
      proof (cases "rc < 0")
        case True
        then have "serve E True R i (s, v) = Some (log_err s1, v1)" using h \<open>i < pv_size v\<close> c good by (simp add: serve.simps)
        moreover have "served (s, v) (log_err s1, v1)"
          using h(2) poll_ok_cong [of "log_err s1" s1 v1] by (simp add: served_def noop_inv_log)
        ultimately show ?thesis by blast
      next
        case False
        then have "serve E True R i (s, v) = serve E True R (i + 1) (s1, v1)" using h True c good by (simp add: serve.simps)
        then show ?thesis using less.hyps [of v1 "i + 1" s1] s1 True less.prems(3) served_trans [OF h(2)] by fastforce
      qed
    qed
  qed
qed

section \<open>Rounds of the loop\<close>

text \<open>A round in which \<^verbatim>\<open>poll\<close> succeeds and announces no new descriptor.\<close>

definition plain_round :: "poll_round \<Rightarrow> bool" where
  "plain_round R \<longleftrightarrow> pr_ret R \<noteq> - 1 \<and> pr_revents R 0 = 0"

lemma first_entry:
  assumes "poll_ok s v"
  shows "\<exists>p. cell (set_revents re v) 0 = Some p \<and> prevents p = re 0"
proof -
  have wf: "pv_wf v" and ne: "entries_of v \<noteq> []" using assms by (auto simp: poll_ok_def)
  note e = set_revents_entries [OF wf, of re]
  have "0 < pv_size (set_revents re v)" using pv_wf_size [OF e(1)] e(3) ne by simp
  then have "cell (set_revents re v) 0 = Some (entries_of (set_revents re v) ! 0)" using cell_entries [OF e(1), of 0] by simp
  then show ?thesis using e(3) ne by simp
qed

lemma fatal_poll [simp]: "fatal_error_in_progress E (m\<lparr>mo_poll := v\<rparr>) = fatal_error_in_progress E m"
  by (simp add: fatal_error_in_progress_def)

lemma plain_round_body:
  assumes "plain_round R" "\<not> fatal_error_in_progress E m" "poll_ok (mo_fm m) (mo_poll m)"
  shows "poll_body E ok R m = map_option (\<lambda>(s, v). (True, m\<lparr>mo_fm := s, mo_poll := v\<rparr>))
    (serve E ok R 1 (mo_fm m, set_revents (pr_revents R) (mo_poll m)))"
proof -
  obtain p where "cell (set_revents (pr_revents R) (mo_poll m)) 0 = Some p" "prevents p = pr_revents R 0"
    using first_entry [OF assms(3)] by blast
  then show ?thesis using assms
    by (cases "serve E ok R 1 (mo_fm m, set_revents (pr_revents R) (mo_poll m))")
      (auto simp: poll_body_def plain_round_def has_event_def)
qed

lemma plain_round_keeps:
  assumes K: "plain_noop K E" "\<And>f. region_stable K f" and R: "plain_round R" "\<not> fatal_error_in_progress E m"
    and inv: "noop_inv (mo_fm m)" "poll_ok (mo_fm m) (mo_poll m)"
  shows "\<exists>s v. poll_body E True R m = Some (True, m\<lparr>mo_fm := s, mo_poll := v\<rparr>) \<and> served (mo_fm m, mo_poll m) (s, v)"
proof -
  let ?v = "set_revents (pr_revents R) (mo_poll m)"
  have ok: "poll_ok (mo_fm m) ?v" using set_revents_ok [OF inv(2)] .
  obtain s v where "serve E True R 1 (mo_fm m, ?v) = Some (s, v)" "served (mo_fm m, ?v) (s, v)"
    using serve_keeps [OF K inv(1) ok, of 1 R] by auto
  moreover have "pv_size ?v = pv_size (mo_poll m)" "reload_addfd ?v = reload_addfd (mo_poll m)"
    by (simp_all add: set_revents_def)
  ultimately have "served (mo_fm m, mo_poll m) (s, v)"
    and "poll_body E True R m = Some (True, m\<lparr>mo_fm := s, mo_poll := v\<rparr>)"
    using plain_round_body [OF R inv(2), of True] by (simp_all add: served_def)
  then show ?thesis by blast
qed

text \<open>In this build the handler cleans up no page cache, and the clients report nothing.\<close>

lemma plain_report: "\<not> PAGECACHE (e_cfg E) \<Longrightarrow> after_report E m m' = Some m'"
  by (simp add: after_report_def handler_cleanup_def)

lemma noop_fatal: "e_backend E = noop_backend K \<Longrightarrow> fatal_error_in_progress E m \<longleftrightarrow> fm_err (mo_fm m)"
  by (simp add: fatal_error_in_progress_def noop_backend_def list_ex_iff)

lemma poll_append:
  "poll_on_ufds E ok (Qs @ [R]) m = Option.bind (poll_on_ufds E ok Qs m) (\<lambda>(r, m1).
     if r = None then poll_on_ufds E ok [R] m1 else Some (r, m1))"
proof (induction Qs arbitrary: m)
  case (Cons Q Qs)
  then show ?case by (auto split: Option.bind_splits)
qed simp

text \<open>A round that finds the flag set is the last.\<close>

lemma fatal_round:
  assumes "fatal_error_in_progress E m" "\<not> PAGECACHE (e_cfg E)" "pv_wf (mo_poll m)"
  shows "\<exists>v. poll_on_ufds E ok (R # Rs) m = Some (Some (map pfd (entries_of (mo_poll m))),
      m\<lparr>mo_fm := if pr_ret R = - 1 then log_err (mo_fm m) else mo_fm m, mo_poll := v\<rparr>)"
proof -
  let ?v = "if pr_ret R = - 1 then mo_poll m else set_revents (pr_revents R) (mo_poll m)"
  note e = set_revents_entries [OF assms(3), of "pr_revents R"]
  have p: "map pfd (entries_of ?v) = map pfd (entries_of (mo_poll m))" "pv_wf ?v"
    using assms(3) e by (auto intro: nth_equalityI)
  have b: "poll_body E ok R m = Some (False, m\<lparr>mo_fm := if pr_ret R = - 1 then log_err (mo_fm m) else mo_fm m, mo_poll := ?v\<rparr>)"
    using assms(1) by (simp add: poll_body_def upd_fm_def fatal_error_in_progress_def)
  have "pollfd_vector_close ?v = Some (map pfd (entries_of (mo_poll m)))"
    using close_from [OF p(2), of 0] pv_wf_size [OF p(2)] unfolding p(1) [symmetric] by (simp add: pollfd_vector_close_def)
  then show ?thesis by (simp add: b plain_report [OF assms(2)]) blast
qed

lemma plain_rounds_keep:
  fixes m :: "(noop_client, 'z) monitor"
  assumes K: "plain_noop K E" "\<And>f. region_stable K f"
    and m: "\<not> fatal_error_in_progress E m" "noop_inv (mo_fm m)" "poll_ok (mo_fm m) (mo_poll m)"
  shows "list_all plain_round Rs \<Longrightarrow> \<exists>r s v. poll_on_ufds E True Rs m = Some (r, m\<lparr>mo_fm := s, mo_poll := v\<rparr>)
    \<and> noop_inv s \<and> noop_logical s = noop_logical (mo_fm m) \<and> fm_map s = fm_map (mo_fm m)
    \<and> (if r = None then poll_ok s v else fm_err s)
    \<and> (r = None \<longleftrightarrow> Rs = [] \<or> (\<exists>m1. poll_on_ufds E True (butlast Rs) m = Some (None, m1) \<and> \<not> fatal_error_in_progress E m1))"
proof (induction Rs rule: rev_induct)
  case Nil
  show ?case using m by (intro exI [of _ None] exI [of _ "mo_fm m"] exI [of _ "mo_poll m"]) simp
next
  case (snoc R Qs)
  obtain r s v where q: "poll_on_ufds E True Qs m = Some (r, m\<lparr>mo_fm := s, mo_poll := v\<rparr>)" "noop_inv s"
    "noop_logical s = noop_logical (mo_fm m)" "fm_map s = fm_map (mo_fm m)" "if r = None then poll_ok s v else fm_err s"
    using snoc by auto
  let ?m = "m\<lparr>mo_fm := s, mo_poll := v\<rparr>"
  have R: "plain_round R" using snoc.prems by simp
  have nc: "\<not> PAGECACHE (e_cfg E)" and nf: "\<And>m :: (noop_client, 'z) monitor. fatal_error_in_progress E m \<longleftrightarrow> fm_err (mo_fm m)"
    using K(1) noop_fatal by auto
  show ?case
  proof (cases r)
    case (Some fs)
    then show ?thesis using q poll_append [of E True Qs R m]
      by (intro exI [of _ r] exI [of _ s] exI [of _ v]) simp
  next
    case None
    then have ok: "poll_ok s v" using q(5) by simp
    have a: "poll_on_ufds E True (Qs @ [R]) m = poll_on_ufds E True [R] ?m" using q(1) None poll_append [of E True Qs R m] by simp
    show ?thesis
    proof (cases "fm_err s")
      case True
      have "pv_wf v" using ok by (simp add: poll_ok_def)
      moreover have "fatal_error_in_progress E ?m" using True nf by simp
      ultimately obtain v' where "poll_on_ufds E True [R] ?m = Some (Some (map pfd (entries_of v)), ?m\<lparr>mo_poll := v'\<rparr>)"
        using fatal_round [OF _ nc, of ?m True R "[]"] R by (auto simp: plain_round_def simp del: poll_on_ufds.simps)
      then show ?thesis using a q None True nf
        by (intro exI [of _ "Some (map pfd (entries_of v))"] exI [of _ s] exI [of _ v']) simp
    next
      case False
      obtain s' v' where b: "poll_body E True R ?m = Some (True, ?m\<lparr>mo_fm := s', mo_poll := v'\<rparr>)" "served (s, v) (s', v')"
        using plain_round_keeps [OF K R, of ?m] False nf q(2) ok by auto
      then have "poll_on_ufds E True [R] ?m = Some (None, m\<lparr>mo_fm := s', mo_poll := v'\<rparr>)" by (simp add: plain_report [OF nc])
      then show ?thesis using a q b(2) None False nf
        by (intro exI [of _ None] exI [of _ s'] exI [of _ v']) (simp add: served_def)
    qed
  qed
qed

text \<open>Entries without an event are passed over.\<close>

lemma serve_idle:
  assumes wf: "pv_wf v" and i: "0 \<le> i" "i \<le> j" "j \<le> pv_size v"
    and idle: "\<And>k. i \<le> k \<Longrightarrow> k < j \<Longrightarrow> \<not> has_event (entries_of v ! nat k)"
  shows "serve E ok R i (s, v) = serve E ok R j (s, v)"
  using i idle
proof (induction "nat (j - i)" arbitrary: i)
  case (Suc n)
  have lt: "i < pv_size v" using Suc by linarith
  then have "cell v i = Some (entries_of v ! nat i)" using cell_entries [OF wf Suc.prems(1)] by simp
  moreover have "\<not> has_event (entries_of v ! nat i)" using Suc.hyps(2) Suc.prems(4) by simp
  ultimately have "serve E ok R i (s, v) = serve E ok R (i + 1) (s, v)" using lt by (simp add: serve.simps)
  also have "\<dots> = serve E ok R j (s, v)" using Suc.hyps(1) [of "i + 1"] Suc.hyps(2) Suc.prems by force
  finally show ?case .
qed simp

lemma revents_event:
  assumes "pv_wf v" "k < length (entries_of v)"
  shows "prevents (entries_of (set_revents re v) ! k) = re k" "pfd (entries_of (set_revents re v) ! k) = pfd (entries_of v ! k)"
  using assms set_revents_entries(3) [OF assms(1), of re] by simp_all

lemma swap_remove_nth: "k < length (swap_remove f ps) \<Longrightarrow> swap_remove f ps ! k = ps ! k \<or> swap_remove f ps ! k = last ps"
proof (induction ps arbitrary: k)
  case (Cons p ps)
  show ?case
  proof (cases k)
    case (Suc n)
    then show ?thesis using Cons.IH [of n] Cons.prems by (auto simp: nth_butlast)
  qed (use Cons.prems in auto)
qed simp

lemma serve_rest:
  assumes wf: "pv_wf v" "pv_wf v1" and le: "pv_size v1 \<le> pv_size v"
    and h: "v1 = v \<or> (\<exists>g. entries_of v1 = swap_remove g (entries_of v))"
    and ev: "\<And>k. k < length (entries_of v) \<Longrightarrow> prevents (entries_of v ! k) = (if k = j then POLLIN else 0)"
  shows "serve E True R (int j + 1) (s1, v1) = Some (s1, v1)"
proof (cases "int j + 1 \<le> pv_size v1")
  case True
  have "\<not> has_event (entries_of v1 ! nat k)" if k: "int j + 1 \<le> k" "k < pv_size v1" for k
  proof -
    have k1: "nat k < length (entries_of v1)" using k pv_wf_size [OF wf(2)] by simp
    have k2: "nat k < length (entries_of v)" using k le pv_wf_size [OF wf(1)] by linarith
    have kj: "nat k \<noteq> j" "length (entries_of v) - 1 \<noteq> j" using k k2 by linarith+
    have "prevents (last (entries_of v)) = 0"
      using ev [of "length (entries_of v) - 1"] k2 kj by (subst last_conv_nth) auto
    moreover have "prevents (entries_of v ! nat k) = 0" using ev [OF k2] kj by simp
    moreover have "entries_of v1 ! nat k = entries_of v ! nat k \<or> entries_of v1 ! nat k = last (entries_of v)"
      using h k1 swap_remove_nth by metis
    ultimately show ?thesis by (auto simp: has_event_def)
  qed
  then have "serve E True R (int j + 1) (s1, v1) = serve E True R (pv_size v1) (s1, v1)"
    using True by (intro serve_idle [OF wf(2)]) auto
  then show ?thesis by (simp add: serve.simps)
qed (simp add: serve.simps)

lemma serve_single:
  assumes K: "plain_noop K E" "\<And>f. region_stable K f" and inv: "noop_inv s" and ok: "poll_ok s v"
    and j: "1 \<le> j" "j < length (entries_of v)" and f: "pfd (entries_of v ! j) = f"
    and ev: "\<And>k. k < length (entries_of v) \<Longrightarrow> prevents (entries_of v ! k) = (if k = j then POLLIN else 0)"
    and rd: "pr_reads R (int j) f = Read_bytes sizeof_uffd_msg (UFFD_EVENT_PAGEFAULT address)"
    and room: "length (il (fm_lru s)) < max_num_items (fm_lru s) \<or> 2 \<le> max_num_items (fm_lru s)"
  shows "\<exists>s' v'. serve E True R 1 (s, v) = Some (s', v') \<and> served (s, v) (s', v')
    \<and> resident (fm_mach s') f (address AND PAGE_MASK) = Some (noop_logical s f (address AND PAGE_MASK))"
proof -
  have wf: "pv_wf v" using ok by (simp add: poll_ok_def)
  have sz: "pv_size v = int (length (entries_of v))" using pv_wf_size [OF wf] by simp
  have idle: "\<not> has_event (entries_of v ! nat k)" if "1 \<le> k" "k < int j" for k
    using that ev [of "nat k"] j by (cases "nat k = j") (auto simp: has_event_def)
  have to_j: "serve E True R 1 (s, v) = serve E True R (int j) (s, v)"
    using j sz idle by (intro serve_idle [OF wf]) auto
  have "entries_of v ! j \<in> set (tl (entries_of v))" using j by (cases "entries_of v") (auto simp: nth_Cons')
  then have reg: "registered f s" using ok f by (auto simp: poll_ok_def)
  obtain rc s1 v1 where h: "handle_userfault E True (pr_reads R (int j) f) f (s, v) = Some (rc, s1, v1)" "served (s, v) (s1, v1)"
    "v1 = v \<or> (\<exists>g. entries_of v1 = swap_remove g (entries_of v))"
    "resident (fm_mach s1) f (address AND PAGE_MASK) = Some (noop_logical s f (address AND PAGE_MASK))"
    using handle_fault [OF K inv reg ok, of address] room rd by auto
  have c: "cell v (int j) = Some (entries_of v ! j)" "has_event (entries_of v ! j)" "\<not> bad_event (entries_of v ! j)"
    using cell_entries [OF wf, of "int j"] j sz ev [OF j(2)] by (auto simp: has_event_def bad_event_def POLLIN_def POLLERR_def)
  have at_j: "serve E True R (int j) (s, v) = (if rc < 0 then Some (log_err s1, v1) else serve E True R (int j + 1) (s1, v1))"
    using c h(1) f j sz by (subst serve.simps) simp
  have wf1: "pv_wf v1" using h(2) by (simp add: served_def poll_ok_def)
  have "pv_size v1 \<le> pv_size v" using h(2) by (simp add: served_def)
  then have "serve E True R (int j + 1) (s1, v1) = Some (s1, v1)" by (rule serve_rest [OF wf wf1 _ h(3) ev])
  then have r: "serve E True R 1 (s, v) = Some (if rc < 0 then log_err s1 else s1, v1)" using to_j at_j by simp
  have "served (s, v) (if rc < 0 then log_err s1 else s1, v1)"
    using h(2) poll_ok_cong [of "log_err s1" s1 v1] by (auto simp: served_def noop_inv_log)
  then show ?thesis using r h(4) by (intro exI [of _ "if rc < 0 then log_err s1 else s1"] exI [of _ v1]) auto
qed

text \<open>The walk stops at an entry that \<^verbatim>\<open>poll\<close> reports with an error.\<close>

lemma serve_bad:
  assumes wf: "pv_wf v" and j: "1 \<le> j" "j < length (entries_of v)"
    and ev: "\<And>k. 1 \<le> k \<Longrightarrow> k < j \<Longrightarrow> prevents (entries_of v ! k) = 0"
    and bad: "has_event (entries_of v ! j)" "bad_event (entries_of v ! j)"
  shows "serve E ok R 1 (s, v) = Some (log_err s, v)"
proof -
  have sz: "pv_size v = int (length (entries_of v))" using pv_wf_size [OF wf] by simp
  have "\<not> has_event (entries_of v ! nat k)" if "1 \<le> k" "k < int j" for k
    using that ev [of "nat k"] by (simp add: has_event_def)
  then have "serve E ok R 1 (s, v) = serve E ok R (int j) (s, v)"
    using j sz by (intro serve_idle [OF wf]) auto
  also have "\<dots> = Some (log_err s, v)"
    using cell_entries [OF wf, of "int j"] j sz bad by (subst serve.simps) simp
  finally show ?thesis .
qed

section \<open>Theorems on the polling thread\<close>

text \<open>
  C12. The polling thread is transparent, and errors end it. In the build without page cache and threads,
  with the in-process store, every sequence of rounds in which \<^verbatim>\<open>poll\<close> succeeds runs without undefined
  behaviour, whatever messages the kernel delivers on the descriptors (faults, short reads, errors, events
  that end a descriptor): the invariant of the monitor holds after it, the contents of every page and the
  registered descriptors are the same. The loop is still polling, with the event descriptor as the first
  entry of its list and registered descriptors behind it, exactly if no error was reported before the
  last round; otherwise it has ended, with the flag of the signal handler set.
\<close>

theorem polling_transparent:
  assumes "plain_noop K E" "\<And>f. region_stable K f" "list_all plain_round Rs" "\<not> fatal_error_in_progress E m"
    and "noop_inv (mo_fm m)" "poll_ok (mo_fm m) (mo_poll m)"
  shows "\<exists>r m'. poll_on_ufds E True Rs m = Some (r, m') \<and> noop_inv (mo_fm m')
    \<and> noop_logical (mo_fm m') = noop_logical (mo_fm m) \<and> fm_map (mo_fm m') = fm_map (mo_fm m)
    \<and> (if r = None then poll_ok (mo_fm m') (mo_poll m') else fatal_error_in_progress E m')
    \<and> (r = None \<longleftrightarrow> Rs = [] \<or> (\<exists>m1. poll_on_ufds E True (butlast Rs) m = Some (None, m1) \<and> \<not> fatal_error_in_progress E m1))"
proof -
  obtain r s v where "poll_on_ufds E True Rs m = Some (r, m\<lparr>mo_fm := s, mo_poll := v\<rparr>)" "noop_inv s"
    "noop_logical s = noop_logical (mo_fm m)" "fm_map s = fm_map (mo_fm m)" "if r = None then poll_ok s v else fm_err s"
    "r = None \<longleftrightarrow> Rs = [] \<or> (\<exists>m1. poll_on_ufds E True (butlast Rs) m = Some (None, m1) \<and> \<not> fatal_error_in_progress E m1)"
    using plain_rounds_keep [OF assms(1,2,4-6,3)] by blast
  then show ?thesis
    by (intro exI [of _ r] exI [of _ "m\<lparr>mo_fm := s, mo_poll := v\<rparr>"]) (simp add: fatal_error_in_progress_def)
qed

definition polled_vector :: "fd list \<Rightarrow> Pollfd_vector" where
  "polled_vector fs = \<lparr>pv_size = int (length fs), pv_capacity = 50, reload_addfd = hd fs,
     pv_list = map (\<lambda>f. Some \<lparr>pfd = f, pevents = POLLIN, prevents = 0\<rparr>) fs @ replicate (50 - length fs) None\<rparr>"

definition demo_monitor :: "(noop_client, unit) monitor" where
  "demo_monitor = \<lparr>mo_fm = demo_fm, mo_zk = (zk_local0, ()), mo_poll = polled_vector [3, 7], mo_efd = 0, mo_ufd64 = 0,
     add_fd_lock = False, num_threads = - 1, mo_starting = []\<rparr>"

definition demo_round :: poll_round where
  "demo_round = \<lparr>pr_ret = 1, pr_revents = (\<lambda>i. if i = 1 then POLLIN else 0), pr_reload_ok = True,
     pr_reads = (\<lambda>i f. Read_bytes sizeof_uffd_msg (UFFD_EVENT_PAGEFAULT 12300))\<rparr>"

lemma demo_entries: "entries_of (polled_vector [3, 7])
    = [\<lparr>pfd = 3, pevents = POLLIN, prevents = 0\<rparr>, \<lparr>pfd = 7, pevents = POLLIN, prevents = 0\<rparr>]"
  by (simp add: polled_vector_def entries_of_def)

lemma demo_poll_ok: "poll_ok demo_fm (polled_vector [3, 7])"
proof -
  have "doubled 50" by (auto simp: doubled_def VECTOR_INITIAL_CAPACITY_def intro: exI [of _ 0])
  then have "pv_wf (polled_vector [3, 7])"
    unfolding pv_wf_def demo_entries by (simp add: polled_vector_def VECTOR_INITIAL_CAPACITY_def)
  then show ?thesis using demo_entries by (simp add: poll_ok_def registered_def demo_fm_def polled_vector_def)
qed

lemma demo_fatal: "\<not> fatal_error_in_progress plain_env demo_monitor"
  using noop_fatal [of plain_env sim_kernel demo_monitor] by (simp add: demo_monitor_def demo_fm_def)

theorem polling_transparent_witness:
  "\<exists>r m'. poll_on_ufds plain_env True [demo_round, demo_round] demo_monitor = Some (r, m')
     \<and> noop_logical (mo_fm m') 7 4096 = ones \<and> noop_logical (mo_fm m') 7 12288 = zero_page"
proof -
  have "list_all plain_round [demo_round, demo_round]" by (simp add: plain_round_def demo_round_def)
  from polling_transparent [OF _ sim_kernel_stable this demo_fatal] show ?thesis
    using demo_inv demo_poll_ok sim_kernel_ok by (auto simp: demo_monitor_def demo_logical simp del: poll_on_ufds.simps)
qed

text \<open>
  C13. A fault is served. If \<^verbatim>\<open>poll\<close> reports one ready descriptor and the message on it is a fault, then
  after the round the page of the fault is resident with its contents, provided that the LRU buffer has
  room for one more page or is bounded by two pages or more.
\<close>

theorem polling_serves:
  assumes "plain_noop K E" "\<And>f. region_stable K f" "noop_inv (mo_fm m)" "poll_ok (mo_fm m) (mo_poll m)"
    and "\<not> fatal_error_in_progress E m" "pr_ret R \<noteq> - 1" "1 \<le> j" "j < length (entries_of (mo_poll m))"
    and "pr_revents R = (\<lambda>k. if k = j then POLLIN else 0)" "pfd (entries_of (mo_poll m) ! j) = f"
    and "pr_reads R (int j) f = Read_bytes sizeof_uffd_msg (UFFD_EVENT_PAGEFAULT address)"
    and "length (il (fm_lru (mo_fm m))) < max_num_items (fm_lru (mo_fm m)) \<or> 2 \<le> max_num_items (fm_lru (mo_fm m))"
  shows "\<exists>m'. poll_body E True R m = Some (True, m') \<and> noop_logical (mo_fm m') = noop_logical (mo_fm m)
    \<and> resident (fm_mach (mo_fm m')) f (address AND PAGE_MASK) = Some (noop_logical (mo_fm m) f (address AND PAGE_MASK))"
proof -
  have wf: "pv_wf (mo_poll m)" using assms(4) by (simp add: poll_ok_def)
  let ?v = "set_revents (pr_revents R) (mo_poll m)"
  note e = revents_event [OF wf, of _ "pr_revents R"] set_revents_entries(3) [OF wf, of "pr_revents R"]
  have "plain_round R" using assms(6,7,9) by (simp add: plain_round_def)
  note b = plain_round_body [OF this assms(5,4), of True]
  have "\<exists>s' v'. serve E True R 1 (mo_fm m, ?v) = Some (s', v') \<and> served (mo_fm m, ?v) (s', v')
      \<and> resident (fm_mach s') f (address AND PAGE_MASK) = Some (noop_logical (mo_fm m) f (address AND PAGE_MASK))"
    using assms(7-12) e by (intro serve_single [OF assms(1-3) set_revents_ok [OF assms(4)]]) auto
  then show ?thesis unfolding b by (auto simp: served_def)
qed

theorem polling_serves_witness:
  "\<exists>m'. poll_body plain_env True demo_round demo_monitor = Some (True, m')
     \<and> resident (fm_mach (mo_fm m')) 7 12288 = Some zero_page \<and> noop_logical (mo_fm m') 7 4096 = ones"
proof -
  have "(12300 :: u64) AND PAGE_MASK = 12288" by (simp add: PAGE_MASK_def PAGE_SIZE_def)
  then show ?thesis
    using polling_serves [OF _ sim_kernel_stable, of plain_env demo_monitor demo_round 1 7 12300]
      demo_inv demo_poll_ok sim_kernel_ok demo_fatal
    by (auto simp: demo_monitor_def demo_round_def demo_entries demo_logical demo_bound)
qed

text \<open>
  C39. One bad descriptor stops the monitor. If \<^verbatim>\<open>poll\<close> reports an error on an entry, the round ends at
  this entry, without serving or removing any entry behind it and without touching a page, and the
  next round is the last, whatever it brings: the loop closes every descriptor it polls, of all
  applications.
\<close>

theorem bad_entry_stops_monitor:
  assumes "pv_wf (mo_poll m)" "\<not> fatal_error_in_progress E m" "\<not> PAGECACHE (e_cfg E)"
    and "1 \<le> j" "j < length (entries_of (mo_poll m))"
    and "pr_ret R \<noteq> - 1" "\<forall>k < j. pr_revents R k = 0" "pr_revents R j = POLLERR"
  shows "\<exists>m1 m'. poll_on_ufds E ok [R] m = Some (None, m1) \<and> mo_fm m1 = log_err (mo_fm m)
    \<and> map pfd (entries_of (mo_poll m1)) = map pfd (entries_of (mo_poll m))
    \<and> poll_on_ufds E ok (R # R' # Rs) m = Some (Some (map pfd (entries_of (mo_poll m))), m')
    \<and> mo_fm m' = log_err (mo_fm m)"
proof -
  let ?v = "set_revents (pr_revents R) (mo_poll m)"
  note e = set_revents_entries [OF assms(1), of "pr_revents R"] revents_event [OF assms(1), of _ "pr_revents R"]
  have p: "map pfd (entries_of ?v) = map pfd (entries_of (mo_poll m))"
    unfolding e(3) by (intro nth_equalityI) auto
  have l: "length (entries_of ?v) = length (entries_of (mo_poll m))" using e(3) by simp
  have j: "has_event (entries_of ?v ! j)" "bad_event (entries_of ?v ! j)"
    using e(4) [OF assms(5)] assms(8) by (auto simp: has_event_def bad_event_def POLLIN_def POLLERR_def)
  have s: "serve E ok R 1 (mo_fm m, ?v) = Some (log_err (mo_fm m), ?v)"
    using assms(4,5,7) l e(4) j by (intro serve_bad [OF e(1)]) auto
  have "0 < pv_size ?v" using pv_wf_size [OF e(1)] l assms(5) by linarith
  then have "cell ?v 0 = Some (entries_of ?v ! 0)" using cell_entries [OF e(1), of 0] by simp
  moreover have "\<not> has_event (entries_of ?v ! 0)"
    using e(4) [OF le_less_trans [OF le0 assms(5)]] assms(4,7) by (simp add: has_event_def)
  ultimately have b: "poll_body E ok R m = Some (True, m\<lparr>mo_fm := log_err (mo_fm m), mo_poll := ?v\<rparr>)"
    using assms(2,6) s by (simp add: poll_body_def Let_def)
  let ?m = "m\<lparr>mo_fm := log_err (mo_fm m), mo_poll := ?v\<rparr>"
  have 1: "poll_on_ufds E ok [R] m = Some (None, ?m)" "poll_on_ufds E ok (R # R' # Rs) m = poll_on_ufds E ok (R' # Rs) ?m"
    by (simp_all add: b plain_report [OF assms(3)])
  have "fatal_error_in_progress E ?m" by (simp add: fatal_error_in_progress_def)
  from fatal_round [OF this assms(3), of ok R' Rs] e(1) p obtain v where
    2: "poll_on_ufds E ok (R' # Rs) ?m = Some (Some (map pfd (entries_of (mo_poll m))),
      ?m\<lparr>mo_fm := if pr_ret R' = - 1 then log_err (mo_fm ?m) else mo_fm ?m, mo_poll := v\<rparr>)" by auto
  have "log_err (log_err (mo_fm m)) = log_err (mo_fm m)" by (simp add: log_err_def)
  then show ?thesis using 1 2 p
    by (intro exI [of _ ?m] exI [of _ "?m\<lparr>mo_fm := if pr_ret R' = - 1 then log_err (mo_fm ?m) else mo_fm ?m, mo_poll := v\<rparr>"]) simp
qed

definition bad_round :: poll_round where
  "bad_round = \<lparr>pr_ret = 2, pr_revents = (\<lambda>i. if i = 1 then POLLERR else if i = 2 then POLLIN else 0),
     pr_reload_ok = True, pr_reads = (\<lambda>i f. Read_bytes sizeof_uffd_msg (UFFD_EVENT_PAGEFAULT 12288))\<rparr>"

theorem bad_entry_stops_monitor_witness:
  "\<exists>m'. poll_on_ufds plain_env True [bad_round, demo_round] (demo_monitor\<lparr>mo_poll := polled_vector [3, 9, 7]\<rparr>)
      = Some (Some [3, 9, 7], m') \<and> fm_mach (mo_fm m') = fm_mach demo_fm"
proof -
  let ?m = "demo_monitor\<lparr>mo_poll := polled_vector [3, 9, 7]\<rparr>"
  have en: "entries_of (polled_vector [3, 9, 7]) = map (\<lambda>f. \<lparr>pfd = f, pevents = POLLIN, prevents = 0\<rparr>) [3, 9, 7]"
    by (simp add: polled_vector_def entries_of_def)
  have "doubled 50" by (auto simp: doubled_def VECTOR_INITIAL_CAPACITY_def intro: exI [of _ 0])
  then have "pv_wf (mo_poll ?m)"
    using en by (simp add: pv_wf_def polled_vector_def VECTOR_INITIAL_CAPACITY_def)
  moreover have "\<not> fatal_error_in_progress plain_env ?m" using demo_fatal by simp
  ultimately show ?thesis
    using bad_entry_stops_monitor [of ?m plain_env 1 bad_round True demo_round "[]"] en
    by (auto simp: demo_monitor_def bad_round_def simp del: poll_on_ufds.simps)
qed

end
