(* ===== verification/Monitor_Handover.thy ===== *)
theory Monitor_Handover
  imports Monitor_Props
begin

text \<open>
  How descriptors come and go. A received descriptor waits in a thread of its own until that thread
  gets the mutex \<^verbatim>\<open>add_fd_lock\<close>, travels through the counter of the event descriptor, and is put on the
  polling list by the polling thread, which also releases the mutex. The reaper takes the descriptors of
  dead processes off the list.
\<close>

section \<open>The reaper\<close>

lemma del_dead_spec:
  "pv_wf v \<Longrightarrow> \<exists>st v'. del_dead True fs (s, v) = Some (s\<lparr>fm_stats := st\<rparr>, v') \<and> pv_wf v'
     \<and> watched v' = watched v - mset fs \<and> reload_addfd v' = reload_addfd v"
proof (induction fs arbitrary: s v)
  case Nil
  then show ?case by (intro exI [of _ "fm_stats s"]) simp
next
  case (Cons f fs)
  obtain r v1 st where d: "pollfd_vector_remove True f v (fm_stats s) = Some (r, v1, st)" "pv_wf v1"
    "entries_of v1 = swap_remove f (entries_of v)" "reload_addfd v1 = reload_addfd v"
    using remove_behaviour [OF Cons.prems, of f "fm_stats s"] by blast
  obtain st2 v2 where r: "del_dead True fs (s\<lparr>fm_stats := st\<rparr>, v1) = Some (s\<lparr>fm_stats := st\<rparr>\<lparr>fm_stats := st2\<rparr>, v2)"
    "pv_wf v2" "watched v2 = watched v1 - mset fs" "reload_addfd v2 = reload_addfd v1"
    using Cons.IH [OF d(2), of "s\<lparr>fm_stats := st\<rparr>"] by blast
  have "del_dead True (f # fs) (s, v) = Some (s\<lparr>fm_stats := st2\<rparr>, v2)"
    using d(1) r(1) by (simp add: del_polled_def del_fd_def)
  moreover have "watched v2 = watched v - mset (f # fs)"
    using r(3) d(3) swap_remove_mset [of f "entries_of v"] by (simp add: watched_def)
  ultimately show ?case using r(2,4) d(4) by auto
qed

section \<open>The hand-over\<close>

text \<open>A received descriptor, or the failure of \<^verbatim>\<open>recv_fd\<close>.\<close>

definition received_ok :: "fd \<Rightarrow> bool" where
  "received_ok f \<longleftrightarrow> f = - 1 \<or> 0 < f \<and> f < 2 ^ 31"

inductive handshake :: "('c, 'z) monitor \<Rightarrow> fd list \<Rightarrow> ('c, 'z) monitor \<Rightarrow> bool" for m0 where
  start: "handshake m0 [] m0"
| receive: "handshake m0 fs m \<Longrightarrow> received_ok f \<Longrightarrow> main_receive f rc m = Some m' \<Longrightarrow>
    handshake m0 (if rc = 0 then f # fs else fs) m'"
| announce: "handshake m0 fs m \<Longrightarrow> mo_starting m = xs @ f # ys \<Longrightarrow> new_ufd_handler f m = Some m' \<Longrightarrow>
    handshake m0 fs (m'\<lparr>mo_starting := xs @ ys\<rparr>)"
| reload: "handshake m0 fs m \<Longrightarrow> mo_efd m \<noteq> 0 \<Longrightarrow> length (entries_of (mo_poll m)) < 2 ^ 30 \<Longrightarrow> re 0 = POLLIN \<Longrightarrow>
    reload True True (m\<lparr>mo_poll := set_revents re (mo_poll m)\<rparr>) = Some (go, m') \<Longrightarrow> handshake m0 fs m'"

definition in_transit :: "('c, 'z) monitor \<Rightarrow> fd multiset" where
  "in_transit m = (if add_fd_lock m then {#sint (ucast (mo_efd m) :: u32)#} else {#})"

definition waiting :: "fd list \<Rightarrow> fd multiset" where
  "waiting fs = filter_mset (\<lambda>f. 0 < f) (mset fs)"

text \<open>The mutex is held exactly while the counter holds a descriptor.\<close>

definition hs_inv :: "('c, 'z) monitor \<Rightarrow> bool" where
  "hs_inv m \<longleftrightarrow> pv_wf (mo_poll m) \<and> entries_of (mo_poll m) \<noteq> [] \<and> list_all received_ok (mo_starting m)
     \<and> (if add_fd_lock m then \<exists>f. 0 < f \<and> f < 2 ^ 31 \<and> mo_efd m = word_of_int f else mo_efd m = 0)"

lemma fd_word:
  assumes "0 < f" "f < 2 ^ 31"
  shows "sint (ucast (word_of_int f :: u64) :: u32) = f" "(word_of_int f :: u64) \<noteq> 0" "(word_of_int f :: u64) \<noteq> - 1"
    "unat (word_of_int f :: u64) = nat f"
proof -
  have "(ucast (word_of_int f :: u64) :: u32) = word_of_int f" by (auto simp: bit_eq_iff bit_simps)
  moreover have "signed_take_bit 31 f = f" using assms by (intro signed_take_bit_int_eq_self) auto
  ultimately show "sint (ucast (word_of_int f :: u64) :: u32) = f" by (simp add: signed_of_int)
  have u: "uint (word_of_int f :: u64) = f" using assms by (simp add: uint_word_of_int)
  then show "unat (word_of_int f :: u64) = nat f" by (simp add: unat_eq_nat_uint)
  show "(word_of_int f :: u64) \<noteq> 0" using u assms by auto
  have "uint (- 1 :: u64) = 2 ^ 64 - 1" by (simp add: uint_word_ariths)
  then show "(word_of_int f :: u64) \<noteq> - 1" using u assms by auto
qed

lemma receive_step:
  assumes "hs_inv m" "received_ok f" "main_receive f rc m = Some m'"
  shows "hs_inv m'" "in_transit m' = in_transit m" "mo_poll m' = mo_poll m"
    "waiting (mo_starting m') = waiting (mo_starting m) + (if rc = 0 then waiting [f] else {#})"
  using assms
  by (auto simp: main_receive_def hs_inv_def in_transit_def waiting_def upd_fm_def Let_def split: if_splits)

lemma announce_step:
  assumes inv: "hs_inv m" and s: "mo_starting m = xs @ f # ys" and h: "new_ufd_handler f m = Some m'"
  shows "hs_inv (m'\<lparr>mo_starting := xs @ ys\<rparr>)" "mo_poll m' = mo_poll m"
    "waiting (xs @ ys) + in_transit (m'\<lparr>mo_starting := xs @ ys\<rparr>) = waiting (mo_starting m) + in_transit m"
proof -
  have l: "\<not> add_fd_lock m" using h by (auto simp: new_ufd_handler_def)
  have f: "received_ok f" using inv s by (simp add: hs_inv_def)
  have e: "mo_efd m = 0" using inv l by (simp add: hs_inv_def)
  show "hs_inv (m'\<lparr>mo_starting := xs @ ys\<rparr>)" "mo_poll m' = mo_poll m"
    "waiting (xs @ ys) + in_transit (m'\<lparr>mo_starting := xs @ ys\<rparr>) = waiting (mo_starting m) + in_transit m"
    using inv s h l e f fd_word [of f]
    by (auto simp: new_ufd_handler_def hs_inv_def in_transit_def waiting_def upd_fm_def received_ok_def Let_def
        split: if_splits)
qed

lemma reload_step:
  assumes inv: "hs_inv m" and e: "mo_efd m \<noteq> 0" and n: "length (entries_of (mo_poll m)) < 2 ^ 30" and re: "re 0 = POLLIN"
  shows "\<exists>m'. reload True True (m\<lparr>mo_poll := set_revents re (mo_poll m)\<rparr>) = Some (True, m') \<and> hs_inv m'
    \<and> mo_starting m' = mo_starting m \<and> in_transit m' = {#} \<and> watched (mo_poll m') = watched (mo_poll m) + in_transit m"
proof -
  let ?v = "set_revents re (mo_poll m)"
  have wf: "pv_wf (mo_poll m)" and ne: "entries_of (mo_poll m) \<noteq> []" and l: "add_fd_lock m"
    using inv e by (auto simp: hs_inv_def split: if_splits)
  obtain f where f: "0 < f" "f < 2 ^ 31" "mo_efd m = word_of_int f" using inv l by (auto simp: hs_inv_def)
  note v = set_revents_entries [OF wf, of re]
  have "0 < pv_size ?v" using pv_wf_size [OF v(1)] v(3) ne by simp
  then have c: "cell ?v 0 = Some (entries_of ?v ! 0)" using cell_entries [OF v(1), of 0] by simp
  have "prevents (entries_of ?v ! 0) = POLLIN" using v(3) ne re by simp
  then have b: "\<not> bad_event (entries_of ?v ! 0)" by (simp add: bad_event_def POLLIN_def POLLERR_def)
  obtain v' st where a: "add_fd True f ?v (fm_stats (mo_fm m)) = Some (v', st)" "pv_wf v'"
    "entries_of v' = entries_of ?v @ [\<lparr>pfd = f, pevents = POLLIN, prevents = 0\<rparr>]"
    using append_behaviour [OF v(1), of "\<lparr>pfd = f, pevents = POLLIN, prevents = 0\<rparr>" "fm_stats (mo_fm m)"] n v(3)
    by (auto simp: add_fd_def)
  have p: "map pfd (entries_of ?v) = map pfd (entries_of (mo_poll m))" unfolding v(3) by (intro nth_equalityI) auto
  have "watched v' = watched (mo_poll m) + {#f#}"
    using arg_cong [OF p, of mset] a(3) by (simp add: watched_def)
  then show ?thesis
    using c b l f fd_word [of f] a inv
    by (auto simp: reload_def hs_inv_def in_transit_def upd_fm_def Let_def)
qed

lemma handshake_inv:
  assumes "handshake m0 fs m" "hs_inv m0" "mo_starting m0 = []" "\<not> add_fd_lock m0"
  shows "hs_inv m \<and> waiting fs + watched (mo_poll m0) = waiting (mo_starting m) + in_transit m + watched (mo_poll m)"
  using assms(1)
proof induction
  case start
  then show ?case using assms(2-4) by (simp add: waiting_def in_transit_def)
next
  case (receive fs m f rc m')
  then show ?case using receive_step [of m f rc m'] by (auto simp: waiting_def)
next
  case (announce fs m xs f ys m')
  then have "hs_inv m" by simp
  from announce_step [OF this announce.hyps(2,3)] announce.IH show ?case by simp
next
  case (reload fs m re go m')
  have i: "hs_inv m" and eq: "waiting fs + watched (mo_poll m0) = waiting (mo_starting m) + in_transit m + watched (mo_poll m)"
    using reload.IH by simp_all
  obtain m1 where m1: "reload True True (m\<lparr>mo_poll := set_revents re (mo_poll m)\<rparr>) = Some (True, m1)" "hs_inv m1"
    "mo_starting m1 = mo_starting m" "in_transit m1 = {#}" "watched (mo_poll m1) = watched (mo_poll m) + in_transit m"
    using reload_step [where re = re, OF i reload.hyps(2,3,4)] by blast
  have "m' = m1" using m1(1) reload.hyps(5) by simp
  then show ?case using m1 eq by (simp add: ac_simps)
qed

section \<open>Theorems\<close>

text \<open>
  C20. The hand-over loses no descriptor and mixes none up. However the receptions, the threads of the
  received descriptors and the polling thread interleave, every descriptor that was received is in
  exactly one place: waiting in its thread, in the counter of the event descriptor, or on the polling
  list; the counter never holds a sum of two descriptors. A descriptor in the counter is put on the
  list by the next round, which releases the mutex. A failed reception is dropped here; where it was
  reported as an error it ends the monitor as well.
\<close>

theorem handover_delivers:
  assumes "handshake m0 fs m" "pv_wf (mo_poll m0)" "entries_of (mo_poll m0) \<noteq> []" "mo_starting m0 = []"
    and "\<not> add_fd_lock m0" "mo_efd m0 = 0"
  shows "waiting fs + watched (mo_poll m0) = waiting (mo_starting m) + in_transit m + watched (mo_poll m)
    \<and> (mo_efd m \<noteq> 0 \<and> length (entries_of (mo_poll m)) < 2 ^ 30 \<and> re 0 = POLLIN \<longrightarrow>
        (\<exists>m'. reload True True (m\<lparr>mo_poll := set_revents re (mo_poll m)\<rparr>) = Some (True, m')
          \<and> \<not> add_fd_lock m' \<and> watched (mo_poll m') = watched (mo_poll m) + in_transit m))"
proof -
  have "hs_inv m0" using assms(2-6) by (simp add: hs_inv_def)
  note i = handshake_inv [OF assms(1) this assms(4,5)]
  have "\<exists>m'. reload True True (m\<lparr>mo_poll := set_revents re (mo_poll m)\<rparr>) = Some (True, m')
          \<and> \<not> add_fd_lock m' \<and> watched (mo_poll m') = watched (mo_poll m) + in_transit m"
    if "mo_efd m \<noteq> 0" "length (entries_of (mo_poll m)) < 2 ^ 30" "re 0 = POLLIN"
    using reload_step [of m re] i that by (auto simp: in_transit_def split: if_splits)
  then show ?thesis using i by blast
qed

theorem handover_delivers_witness:
  "\<exists>m. handshake demo_monitor [11, 9] m \<and> waiting (mo_starting m) = {#11#} \<and> in_transit m = {#9#}"
proof -
  let ?m1 = "demo_monitor\<lparr>num_threads := 0, mo_starting := [9]\<rparr>"
  let ?m2 = "?m1\<lparr>num_threads := 1, mo_starting := [9, 11]\<rparr>"
  let ?m3 = "?m2\<lparr>add_fd_lock := True, mo_efd := 9, num_threads := 0\<rparr>"
  have "handshake demo_monitor [9] ?m1"
    using handshake.receive [of demo_monitor "[]" demo_monitor 9 0 ?m1] handshake.start [of demo_monitor]
    by (simp add: received_ok_def main_receive_def MAX_THREADS_def demo_monitor_def)
  then have "handshake demo_monitor [11, 9] ?m2"
    using handshake.receive [of demo_monitor "[9]" ?m1 11 0 ?m2]
    by (simp add: received_ok_def main_receive_def MAX_THREADS_def)
  then have h: "handshake demo_monitor [11, 9] (?m3\<lparr>mo_starting := [11]\<rparr>)"
    using handshake.announce [of demo_monitor "[11, 9]" ?m2 "[]" 9 "[11]" ?m3]
    by (simp add: new_ufd_handler_def demo_monitor_def)
  have "pv_wf (polled_vector [3, 7])" using demo_poll_ok by (simp add: poll_ok_def)
  then have "waiting [11, 9] + watched (mo_poll demo_monitor)
      = waiting [11] + in_transit (?m3\<lparr>mo_starting := [11]\<rparr>) + watched (mo_poll demo_monitor)"
    using handover_delivers [OF h] demo_entries by (simp add: demo_monitor_def)
  then have "in_transit (?m3\<lparr>mo_starting := [11]\<rparr>) = {#9#}" by (simp add: waiting_def)
  then show ?thesis using h by (intro exI [of _ "?m3\<lparr>mo_starting := [11]\<rparr>"]) (simp add: waiting_def)
qed

text \<open>
  The descriptor 0 wedges the monitor. If the received descriptor is 0 (the kernel gives the lowest
  free number, so it can be when standard input is closed), its thread adds nothing to the counter and
  ends with the mutex held: the event descriptor never becomes readable, and no later descriptor can be
  announced.
\<close>

lemma descriptor_zero_wedges:
  assumes "\<not> add_fd_lock m" "mo_efd m = 0"
  shows "\<exists>m'. new_ufd_handler 0 m = Some m' \<and> add_fd_lock m' \<and> mo_efd m' = 0 \<and> mo_poll m' = mo_poll m
    \<and> (\<forall>f. new_ufd_handler f m' = None)"
  using assms by (simp add: new_ufd_handler_def)

lemma descriptor_zero_wedges_witness:
  "\<exists>m'. new_ufd_handler 0 demo_monitor = Some m' \<and> new_ufd_handler 9 m' = None"
  using descriptor_zero_wedges [of demo_monitor] by (auto simp: demo_monitor_def)

text \<open>
  C21. A round of the reaper forgets the dead processes everywhere: their descriptors leave the map and
  the polling list (each once for each dead entry), their pages leave the LRU buffer, the other
  processes stay, and every mutex is released.
\<close>

theorem reaper_forgets:
  assumes "sweep_ok E S nodes pgid" "\<not> THREADED_WRITE_TO_EXTERNRAM (e_cfg E)" "lru_wf (fm_lru (mo_fm m))"
    "length (il (fm_lru (mo_fm m))) < 2 ^ 31" "fm_locks (mo_fm m) = {}" "distinct_keys ms_fd (fm_map (mo_fm m))"
    and "pv_wf (mo_poll m)"
  shows "\<exists>m'. reaper_thread E S True m = Some m' \<and> fm_locks (mo_fm m') = {}
    \<and> fm_map (mo_fm m') = filter (\<lambda>c. \<not> dead_entry S pgid c) (fm_map (mo_fm m))
    \<and> il (fm_lru (mo_fm m')) = swept (filter (dead_entry S pgid) (fm_map (mo_fm m))) (il (fm_lru (mo_fm m)))
    \<and> watched (mo_poll m') = watched (mo_poll m) - mset (map ms_fd (filter (dead_entry S pgid) (fm_map (mo_fm m))))"
proof -
  let ?fs = "map ms_fd (filter (dead_entry S pgid) (fm_map (mo_fm m)))"
  obtain s' z' where p: "purgeDeadUpids E S (mo_fm m, mo_zk m) = Some (?fs, s', z')" "fm_locks s' = {}"
    "fm_map s' = filter (\<lambda>c. \<not> dead_entry S pgid c) (fm_map (mo_fm m))"
    "il (fm_lru s') = swept (filter (dead_entry S pgid) (fm_map (mo_fm m))) (il (fm_lru (mo_fm m)))"
    using purgeDeadUpids_spec [OF assms(1-6), of "mo_zk m"] by blast
  obtain st v' where "del_dead True ?fs (s', mo_poll m) = Some (s'\<lparr>fm_stats := st\<rparr>, v')" "watched v' = watched (mo_poll m) - mset ?fs"
    using del_dead_spec [OF assms(7), of ?fs s'] by blast
  then show ?thesis using p by (simp add: reaper_thread_def)
qed

definition sweep_monitor :: "(noop_client, string set) monitor" where
  "sweep_monitor = \<lparr>mo_fm = sweep_fm, mo_zk = (zk_local0, {}), mo_poll = polled_vector [3, 7, 9], mo_efd = 0, mo_ufd64 = 0,
     add_fd_lock = False, num_threads = - 1, mo_starting = []\<rparr>"

theorem reaper_forgets_witness:
  "\<exists>m'. reaper_thread sweep_env sweep_site True sweep_monitor = Some m'
    \<and> map ms_fd (fm_map (mo_fm m')) = [9] \<and> watched (mo_poll m') = {#3, 9#}"
proof -
  have d: "dead_entry sweep_site (\<lambda>p. if p = 5 then - 1 else 1) \<lparr>ms_fd = f, ms_upid = upid_pack 0 p 1, ms_client = 1\<rparr>
      \<longleftrightarrow> p = 5" for f p by (simp add: dead_entry_def sweep_site_def node_id_0)
  have m: "fm_map sweep_fm = [\<lparr>ms_fd = 7, ms_upid = upid_pack 0 5 1, ms_client = 1\<rparr>,
                \<lparr>ms_fd = 9, ms_upid = upid_pack 0 6 1, ms_client = 1\<rparr>]" by (simp add: sweep_fm_def)
  have en: "entries_of (polled_vector [3, 7, 9]) = map (\<lambda>f. \<lparr>pfd = f, pevents = POLLIN, prevents = 0\<rparr>) [3, 7, 9]"
    by (simp add: polled_vector_def entries_of_def)
  have "doubled 50" by (auto simp: doubled_def VECTOR_INITIAL_CAPACITY_def intro: exI [of _ 0])
  then have wf: "pv_wf (mo_poll sweep_monitor)"
    using en by (simp add: pv_wf_def sweep_monitor_def polled_vector_def VECTOR_INITIAL_CAPACITY_def)
  have w: "watched (mo_poll sweep_monitor) = {#3, 7, 9#}" using en by (simp add: watched_def sweep_monitor_def)
  have "mo_fm sweep_monitor = sweep_fm" by (simp add: sweep_monitor_def)
  then show ?thesis
    using reaper_forgets [of sweep_env sweep_site _ _ sweep_monitor, OF sweep_example(1)] sweep_example(2-6) wf w
    by (auto simp: m d)
qed

end
