(* ===== verification/Interface_Props.thy ===== *)
theory Interface_Props
  imports User_Interface Monitor_Handover
begin

text \<open>
  The user interface. A command given to the client reaches the monitor as it was meant; commands do
  what the operations behind them do; long and short names are the same commands.
\<close>

section \<open>Words\<close>

lemma strsep_ne: "strsep s \<noteq> []"
  by (induction s) (auto split: list.splits)

lemma strsep_word: "list_all (\<lambda>c. \<not> is_separator c) w \<Longrightarrow> strsep w = [w]"
  by (induction w) auto

lemma strsep_words:
  "list_all (\<lambda>c. \<not> is_separator c) w \<Longrightarrow> is_separator c \<Longrightarrow> strsep (w @ c # s) = w # strsep s"
  by (induction w) auto

lemma takeWhile_no_nul: "CHR 0x00 \<notin> set s \<Longrightarrow> takeWhile (\<lambda>c. c \<noteq> CHR 0x00) s = s"
  by (auto simp: takeWhile_eq_all_conv)

lemma c_string_request:
  assumes "CHR 0x00 \<notin> set s" "length s < n"
  shows "c_string n s = Some s"
  using assms by (simp add: c_string_def takeWhile_no_nul)

text \<open>A word as a user types it.\<close>

definition plain_word :: "string \<Rightarrow> bool" where
  "plain_word w \<longleftrightarrow> list_all (\<lambda>c. \<not> is_separator c \<and> c \<noteq> CHR 0x00) w"

lemma plain_word_parts: "plain_word w \<Longrightarrow> list_all (\<lambda>c. \<not> is_separator c) w" "plain_word w \<Longrightarrow> CHR 0x00 \<notin> set w"
  by (auto simp: plain_word_def list_all_iff)

lemma request_words:
  assumes "plain_word c" "plain_word a" "length c + length a + 1 < BUFFER_SIZE"
  shows "ui_bytes (Some c) (Some a) = Some (c @ '' '' @ a)"
    "ui_request U (c @ '' '' @ a) u = ui_tokens U None [c, a] u"
proof -
  have "strsep (c @ CHR '' '' # a) = [c, a]"
    using strsep_words [OF plain_word_parts(1) [OF assms(1)], of "CHR '' ''" a] strsep_word [OF plain_word_parts(1) [OF assms(2)]]
    by (simp add: is_separator_def)
  moreover have "c_string BUFFER_SIZE (c @ CHR '' '' # a) = Some (c @ CHR '' '' # a)"
    using assms plain_word_parts(2) by (intro c_string_request) auto
  ultimately show "ui_request U (c @ '' '' @ a) u = ui_tokens U None [c, a] u" by (simp add: ui_request_def)
  show "ui_bytes (Some c) (Some a) = Some (c @ '' '' @ a)"
    using assms(3) by (simp add: ui_bytes_def BUFFER_SIZE_def BUFSIZE_def)
qed

text \<open>No command clears the flag.\<close>

lemma ui_argument_flag: "ui_argument U menu token u = Some (out, u') \<Longrightarrow> isDisconnected u' = isDisconnected u"
  by (cases menu) (auto simp: bind_eq_Some_conv put_ui_fm_def)

lemma ui_command_flag: "ui_command U token u = Some (next, out, u') \<Longrightarrow> isDisconnected u' = isDisconnected u"
  unfolding ui_command_def
  by (cases "ui_name_of token")
    (auto simp: ui_print_def ui_flush_def ui_stat_def put_ui_fm_def bind_eq_Some_conv Let_def case_prod_beta)

lemma ui_menu_flag: "ui_tokens U (Some menu) tokens u = Some (next, out, u') \<Longrightarrow> isDisconnected u' = isDisconnected u"
  by (cases tokens) (auto dest: ui_argument_flag)

lemma ui_tokens_flag:
  assumes "ui_tokens U None tokens u = Some (next, out, u')"
  shows "isDisconnected u' = isDisconnected u"
proof (cases tokens)
  case (Cons token ts)
  then obtain nx o1 u1 where c: "ui_command U token u = Some (nx, o1, u1)"
    using assms by (auto simp: bind_eq_Some_conv)
  have "isDisconnected u' = isDisconnected u1"
    using assms Cons c by (cases nx) (auto dest: ui_menu_flag)
  then show ?thesis using ui_command_flag [OF c] by simp
qed (use assms in simp)

lemma ui_request_flag: "ui_request U bytes u = Some (next, out, u') \<Longrightarrow> isDisconnected u' = isDisconnected u"
  by (auto simp: ui_request_def bind_eq_Some_conv dest: ui_tokens_flag)

section \<open>Theorems\<close>

text \<open>
  C22. Resizing from the command line is transparent. In the build without page cache and threads, with
  the in-process store, the command \<^verbatim>\<open>ui <address> resize <n>\<close> with a number that is not negative sets the
  bound, keeps the newest nodes up to it and evicts the pages of all others, which are no longer resident
  unless an error was reported, a write was counted as skipped or the kernel answers that the page is
  busy; it changes the contents of no page, and ends the connection without a reply.
\<close>

theorem ui_resize_transparent:
  assumes "kernel_ok K" "e_kernel (ue_env U) = K" "e_backend (ue_env U) = noop_backend K" "e_cfg (ue_env U) = plain_config"
    and "noop_inv (mo_fm (ui_monitor u))" "atoi a = Some sz" "0 \<le> sz" "sz < 2 ^ 31 - 2"
    and "plain_word a" "length a < 1000" "ui_arguments [addr, ''resize'', a] = Send addr c d" "\<not> isDisconnected u"
  shows "\<exists>bytes u'. ui_bytes c d = Some bytes \<and> ui_connection U [(bytes, False)] u = Some (Done, [[]], u')
    \<and> noop_inv (mo_fm (ui_monitor u')) \<and> noop_logical (mo_fm (ui_monitor u')) = noop_logical (mo_fm (ui_monitor u))
    \<and> max_num_items (fm_lru (mo_fm (ui_monitor u'))) = nat sz
    \<and> il (fm_lru (mo_fm (ui_monitor u'))) = take (nat sz) (il (fm_lru (mo_fm (ui_monitor u))))
    \<and> (\<forall>n \<in> set (drop (nat sz) (il (fm_lru (mo_fm (ui_monitor u))))). gone K (mo_fm (ui_monitor u)) (mo_fm (ui_monitor u')) n)"
proof -
  have cd: "c = Some ''resize''" "d = Some a" using assms(11) by (auto split: if_splits)
  have w: "plain_word ''resize''" by (simp add: plain_word_def is_separator_def)
  note r = request_words(1) [OF w assms(9)] request_words(2) [OF w assms(9), of U u]
  obtain s' where s': "resizeLRUBuffer (ue_env U) sz (mo_fm (ui_monitor u)) = Some s'" "noop_inv s'"
    "keeps noop_content (mo_fm (ui_monitor u)) s'" "max_num_items (fm_lru s') = nat sz"
    "il (fm_lru s') = take (nat sz) (il (fm_lru (mo_fm (ui_monitor u))))"
    "\<forall>n \<in> set (drop (nat sz) (il (fm_lru (mo_fm (ui_monitor u))))). gone K (mo_fm (ui_monitor u)) s' n"
    using noop.resizeLRUBuffer_keeps [OF assms(1-5,7,8)] by metis
  have "ui_request U (''resize'' @ '' '' @ a) u = Some (Done, [], put_ui_fm s' u)"
    using r(2) assms(10) s'(1) assms(6) by (simp add: BUFFER_SIZE_def ui_command_def ui_name_of_def)
  then have "ui_connection U [(''resize'' @ '' '' @ a, False)] u = Some (Done, [[]], put_ui_fm s' u)" by simp
  then show ?thesis
    using r(1) assms(10) cd s' by (simp add: BUFFER_SIZE_def put_ui_fm_def keeps_def)
qed

definition demo_ui_env :: "(noop_client, unit) ui_env" where
  "demo_ui_env = \<lparr>ue_env = plain_env,
     ue_site = \<lparr>si_zk = dead_zk, si_conn = ''10.0.1.1:2181'', si_machine_id = [], si_stale = True, si_value_kept = True\<rparr>,
     ue_ok = True, ue_getUsage = base_getUsage, ue_percent = (\<lambda>_ _. 0), ue_now = ((0, 0), (0, 0))\<rparr>"

definition demo_ui :: "(noop_client, unit) ui" where
  "demo_ui = \<lparr>ui_monitor = demo_monitor, print_info = False, isDisconnected = False, stop_by_ui = False\<rparr>"

lemma demo_ui_fields:
  "ue_env demo_ui_env = plain_env" "mo_fm (ui_monitor demo_ui) = demo_fm" "\<not> isDisconnected demo_ui"
  by (simp_all add: demo_ui_env_def demo_ui_def demo_monitor_def)

theorem ui_resize_transparent_witness:
  "\<exists>u'. ui_connection demo_ui_env [(''resize 1'', False)] demo_ui = Some (Done, [[]], u')
     \<and> max_num_items (fm_lru (mo_fm (ui_monitor u'))) = 1 \<and> noop_logical (mo_fm (ui_monitor u')) 7 8192 = ones
     \<and> gone sim_kernel demo_fm (mo_fm (ui_monitor u')) (new_node 8192 7)"
proof -
  have "atoi ''1'' = Some 1" "plain_word ''1''" by code_simp+
  then obtain bytes u' where "ui_bytes (Some ''resize'') (Some ''1'') = Some bytes"
    and c: "ui_connection demo_ui_env [(bytes, False)] demo_ui = Some (Done, [[]], u')"
      "noop_logical (mo_fm (ui_monitor u')) = noop_logical demo_fm" "max_num_items (fm_lru (mo_fm (ui_monitor u'))) = nat 1"
      "\<forall>n \<in> set (drop (nat 1) (il (fm_lru demo_fm))). gone sim_kernel demo_fm (mo_fm (ui_monitor u')) n"
    using ui_resize_transparent [OF sim_kernel_ok, of demo_ui_env demo_ui "''1''" 1 "''127.0.0.1''" "Some ''resize''" "Some ''1''"]
      demo_inv demo_ui_fields by auto
  moreover from this(1) have "bytes = ''resize 1''" by (simp add: ui_bytes_def BUFSIZE_def)
  moreover from c(3) have "max_num_items (fm_lru (mo_fm (ui_monitor u'))) = 1" by simp
  moreover have "gone sim_kernel demo_fm (mo_fm (ui_monitor u')) (new_node 8192 7)"
    using c(4) by (simp add: demo_nodes)
  ultimately show ?thesis using demo_logical by (intro exI [of _ u']) (simp del: ui_connection.simps)
qed

text \<open>
  Every command has a long and a short name, and they are the same command: whatever words follow
  and whatever the state, the replies, the next step and the new state agree.
\<close>

lemma ui_short_names:
  "list_all (\<lambda>(long, short). ui_tokens U None (long # tokens) u = ui_tokens U None (short # tokens) u)
     [(''print'', ''p''), (''flush'', ''f''), (''listpids'', ''l''), (''usage'', ''u''), (''evict'', ''e''), (''resize'', ''r''),
      (''disconnectpid'', ''d''), (''stat'', ''s''), (''clearstats'', ''c''), (''stop'', ''t'')]"
  by (simp add: ui_command_def ui_name_of_def)

text \<open>The name the help text gives to the command that clears the statistics is not known to the monitor.\<close>

lemma documented_clear_unknown: "ui_command U ''clear'' u = Some (Again, [Incorrect], u)"
  by (simp add: ui_command_def ui_name_of_def)

text \<open>
  One lost connection spoils the others. Once a reply met a closed socket, every later connection is
  closed after its first request, whatever the request was, because the flag is never cleared.
\<close>

lemma ui_disconnect_sticks:
  assumes "isDisconnected u" "ui_connection U (r # reqs) u = Some (next, outs, u')"
  shows "length outs = 1 \<and> next \<in> {Done, Stop} \<and> isDisconnected u'"
proof -
  obtain bytes closed where r: "r = (bytes, closed)" by fastforce
  obtain nx out u1 where q: "ui_request U bytes u = Some (nx, out, u1)"
    using assms(2) r by (auto simp: bind_eq_Some_conv)
  have "isDisconnected u1" using ui_request_flag [OF q] assms(1) by simp
  then show ?thesis using assms(2) r q by (auto simp: Let_def split: if_splits)
qed

lemma ui_disconnect_sticks_witness:
  "\<exists>u'. ui_connection demo_ui_env [(''stat'', False), (''listpids'', False)] (demo_ui\<lparr>isDisconnected := True\<rparr>)
     = Some (Done, [fst (ui_stat demo_ui_env demo_ui)], u') \<and> isDisconnected u'"
proof -
  let ?u = "demo_ui\<lparr>isDisconnected := True\<rparr>"
  have "c_string BUFFER_SIZE ''stat'' = Some ''stat''" by (simp add: c_string_def BUFFER_SIZE_def)
  then have q: "ui_request demo_ui_env ''stat'' ?u = Some (Again, ui_stat demo_ui_env ?u)"
    by (simp add: ui_request_def is_separator_def ui_command_def ui_name_of_def)
  have e: "fst (ui_stat demo_ui_env ?u) = fst (ui_stat demo_ui_env demo_ui)" "isDisconnected (snd (ui_stat demo_ui_env ?u))"
    by (simp_all add: ui_stat_def put_ui_fm_def Let_def case_prod_beta)
  have c: "ui_connection demo_ui_env [(''stat'', False), (''listpids'', False)] ?u
      = Some (Done, [fst (ui_stat demo_ui_env demo_ui)], snd (ui_stat demo_ui_env ?u))"
    using q e by (cases "ui_stat demo_ui_env ?u") simp
  then show ?thesis using ui_disconnect_sticks [OF _ c] by simp
qed

end
