(* ===== verification/RAMCloud.thy ===== *)
theory RAMCloud
  imports Extern_RAM C_Format
begin

text \<open>
  The store of \<^verbatim>\<open>lib/externram/ramcloud\<close>: a client of the RAMCloud library. The library and the servers
  behind it are not code of this repository; they are the fields of a record \<open>ramcloud_lib\<close> over a state
  \<open>'r\<close>. A call that may throw returns the exception. The library keeps the objects it reads in buffers of
  its own, which are lists of chunks in the memory of the monitor; it releases them when it fills the
  buffer again or destroys it. An exception nobody catches ends the process, which is \<open>None\<close>, as is
  undefined behaviour. Timing and log messages are left out.
\<close>

section \<open>The library\<close>

datatype rc_exception = ClientException int | Exception int

type_synonym chunks = "(ptr \<times> nat) list"

text \<open>The sizes a server reports: of its log, of the part in use, of the free part.\<close>

record PerfStats =
  logSizeBytes :: u64
  logUsedBytes :: u64
  logFreeBytes :: u64

text \<open>
  \<open>rc_read\<close> empties the buffer it is given and fills it; \<open>rc_wait\<close> does the same for a request that was
  started before. A read of many objects gives for each a status, 0 for success, and the object; a write
  of many objects gives a status for each. \<open>rc_copy\<close> and \<open>rc_peek\<close> are the methods of a buffer: they copy
  its bytes to memory, and give the length and the address of its first chunk. \<open>rc_doesnt_exist\<close> is the
  constant \<^verbatim>\<open>STATUS_OBJECT_DOESNT_EXIST\<close>.
\<close>

record 'r ramcloud_lib =
  rc_connect :: "string \<Rightarrow> 'r option"
  rc_getTableId :: "string \<Rightarrow> 'r \<Rightarrow> (rc_exception + u64) \<times> 'r"
  rc_createTable :: "string \<Rightarrow> 'r \<Rightarrow> (rc_exception + u64) \<times> 'r"
  rc_write :: "u64 \<Rightarrow> u64 \<Rightarrow> u8 list \<Rightarrow> 'r \<Rightarrow> rc_exception option \<times> 'r"
  rc_read :: "u64 \<Rightarrow> u64 \<Rightarrow> chunks \<Rightarrow> machine \<times> 'r \<Rightarrow> rc_exception option \<times> chunks \<times> machine \<times> 'r"
  rc_copy :: "chunks \<Rightarrow> nat \<Rightarrow> ptr \<Rightarrow> machine \<Rightarrow> (int \<times> machine) option"
  rc_peek :: "chunks \<Rightarrow> int \<times> ptr"
  rc_start :: "u64 \<Rightarrow> u64 \<Rightarrow> 'r \<Rightarrow> rc_exception option \<times> 'r"
  rc_wait :: "u64 \<Rightarrow> u64 \<Rightarrow> chunks \<Rightarrow> machine \<times> 'r \<Rightarrow> rc_exception option \<times> chunks \<times> machine \<times> 'r"
  rc_multiRead :: "u64 \<Rightarrow> u64 list \<Rightarrow> machine \<times> 'r \<Rightarrow> rc_exception option \<times> (int \<times> ptr \<times> u32) list \<times> machine \<times> 'r"
  rc_multiStart :: "u64 \<Rightarrow> u64 list \<Rightarrow> 'r \<Rightarrow> rc_exception option \<times> 'r"
  rc_multiWait :: "u64 \<Rightarrow> u64 list \<Rightarrow> machine \<times> 'r \<Rightarrow> rc_exception option \<times> (int \<times> ptr \<times> u32) list \<times> machine \<times> 'r"
  rc_multiWrite :: "u64 \<Rightarrow> (u64 \<times> u8 list) list \<Rightarrow> 'r \<Rightarrow> rc_exception option \<times> int list \<times> 'r"
  rc_remove :: "u64 \<Rightarrow> u64 \<Rightarrow> 'r \<Rightarrow> rc_exception option \<times> 'r"
  rc_doesnt_exist :: int
  rc_perfStatsAll :: "'r \<Rightarrow> rc_exception + PerfStats list"
  rc_perfStats :: "u64 \<Rightarrow> u64 \<Rightarrow> 'r \<Rightarrow> rc_exception + PerfStats"

section \<open>The client\<close>

text \<open>The build options that decide which connections a client has.\<close>

record rc_config =
  rc_threaded_write :: bool
  rc_multiread :: bool

text \<open>
  A request of \<^verbatim>\<open>read_top\<close> that has been waited for and deleted is \<open>None\<close>. \<open>rc_reported\<close> is whether an
  operation has called \<^verbatim>\<open>log_err\<close>.
\<close>

record 'r ramcloud_client =
  rc_state :: 'r
  tableId :: u64
  tableId_write :: u64
  tableId_multiread :: u64
  RCBuf :: chunks
  buf_for_asynread :: chunks
  read_for_asynread :: "u64 option"
  read_for_asynmread :: "u64 list option"
  rc_reported :: bool

definition rc_report :: "bool \<Rightarrow> 'r ramcloud_client \<Rightarrow> 'r ramcloud_client" where
  "rc_report b c = c\<lparr>rc_reported := rc_reported c \<or> b\<rparr>"

text \<open>The name of the table is the upid; \<^verbatim>\<open>clientId\<close> has room for every upid.\<close>

definition createTable :: "'r ramcloud_lib \<Rightarrow> string \<Rightarrow> 'r \<Rightarrow> (u64 \<times> 'r) option" where
  "createTable L tag r =
     (case rc_getTableId L tag r of
        (Inr tid, r) \<Rightarrow> Some (tid, r)
      | (Inl (Exception _), r) \<Rightarrow> None
      | (Inl (ClientException _), r) \<Rightarrow> (case rc_createTable L tag r of (Inr tid, r) \<Rightarrow> Some (tid, r) | (Inl _, r) \<Rightarrow> None))"

definition getTableId :: "'r ramcloud_lib \<Rightarrow> bool \<Rightarrow> string \<Rightarrow> 'r \<Rightarrow> (u64 \<times> 'r) option" where
  "getTableId L used tag r =
     (if used then (case rc_getTableId L tag r of (Inr tid, r) \<Rightarrow> Some (tid, r) | (Inl _, r) \<Rightarrow> None)
      else Some (0, r))"

definition ramcloud_create :: "rc_config \<Rightarrow> 'r ramcloud_lib \<Rightarrow> int \<Rightarrow> string \<Rightarrow> u64 \<Rightarrow> 'r ramcloud_client option" where
  "ramcloud_create C L t config upid = do {
     let tag = decimal (unat upid);
     r \<leftarrow> rc_connect L config;
     (tid, r) \<leftarrow> createTable L tag r;
     (tid_w, r) \<leftarrow> getTableId L (rc_threaded_write C) tag r;
     (tid_m, r) \<leftarrow> getTableId L (rc_multiread C) tag r;
     Some \<lparr>rc_state = r, tableId = tid, tableId_write = tid_w, tableId_multiread = tid_m, RCBuf = [],
       buf_for_asynread = [], read_for_asynread = None, read_for_asynmread = None, rc_reported = False\<rparr>
   }"

definition write_table :: "rc_config \<Rightarrow> 'r ramcloud_client \<Rightarrow> u64" where
  "write_table C c = (if rc_threaded_write C then tableId_write c else tableId c)"

definition multiread_table :: "rc_config \<Rightarrow> 'r ramcloud_client \<Rightarrow> u64" where
  "multiread_table C c = (if rc_multiread C then tableId_multiread c else tableId c)"

fun exception_code :: "rc_exception \<Rightarrow> int" where
  "exception_code (ClientException status) = status"
| "exception_code (Exception errNo) = errNo"

text \<open>The reads report every exception except that of an object that is not there.\<close>

definition read_reports :: "'r ramcloud_lib \<Rightarrow> rc_exception option \<Rightarrow> bool" where
  "read_reports L e \<longleftrightarrow> e \<noteq> None \<and> e \<noteq> Some (ClientException (rc_doesnt_exist L))"

section \<open>Single pages\<close>

definition ramcloud_write :: "rc_config \<Rightarrow> 'r ramcloud_lib \<Rightarrow> u64 \<Rightarrow> ptr \<Rightarrow> int \<Rightarrow> machine \<times> 'r ramcloud_client
     \<Rightarrow> (ptr \<times> int \<times> machine \<times> 'r ramcloud_client) option" where
  "ramcloud_write C L hashcode data sz = (\<lambda>(M, c). do {
     pg \<leftarrow> bufs M data;
     if 0 \<le> sz \<and> nat sz \<le> length pg
     then let (e, r) = rc_write L (write_table C c) hashcode (take (nat sz) pg) (rc_state c)
          in Some (case e of
               None \<Rightarrow> (data, 0, M, c\<lparr>rc_state := r\<rparr>)
             | Some x \<Rightarrow> (NULL, exception_code x, M, rc_report True (c\<lparr>rc_state := r\<rparr>)))
     else None
   })"

text \<open>
  More than one chunk is copied to the buffer of the caller, a single one stays where it is and the
  caller gets its address. The number of chunks is that of \<open>RCBuf\<close>, for both kinds of read.
\<close>

definition take_object :: "'r ramcloud_lib \<Rightarrow> nat \<Rightarrow> chunks \<Rightarrow> ptr \<Rightarrow> machine \<Rightarrow> (int \<times> ptr \<times> machine) option" where
  "take_object L n cs recvBuf M =
     (if n > 1
      then do { (k, M) \<leftarrow> rc_copy L cs 4096 recvBuf M; Some (k, recvBuf, M) }
      else let (k, p) = rc_peek L cs in Some (k, p, M))"

definition ramcloud_read :: "'r ramcloud_lib \<Rightarrow> u64 \<Rightarrow> ptr \<Rightarrow> machine \<times> 'r ramcloud_client
     \<Rightarrow> (int \<times> ptr \<times> machine \<times> 'r ramcloud_client) option" where
  "ramcloud_read L hashcode recvBuf = (\<lambda>(M, c).
     let (e, cs, M, r) = rc_read L (tableId c) hashcode (RCBuf c) (M, rc_state c);
         c = rc_report (read_reports L e) (c\<lparr>rc_state := r, RCBuf := cs\<rparr>)
     in case e of
          Some _ \<Rightarrow> Some (0, recvBuf, M, c)
        | None \<Rightarrow> do { (n, b, M) \<leftarrow> take_object L (length cs) cs recvBuf M; Some (n, b, M, c) })"

text \<open>A request that could not be started leaves the pointer to the one before.\<close>

definition ramcloud_read_top :: "'r ramcloud_lib \<Rightarrow> u64 \<Rightarrow> ptr \<Rightarrow> machine \<times> 'r ramcloud_client
     \<Rightarrow> (machine \<times> 'r ramcloud_client) option" where
  "ramcloud_read_top L hashcode recvBuf = (\<lambda>(M, c).
     let (e, r) = rc_start L (tableId c) hashcode (rc_state c); c = rc_report (read_reports L e) (c\<lparr>rc_state := r\<rparr>)
     in Some (M, if e = None then c\<lparr>read_for_asynread := Some hashcode\<rparr> else c))"

definition ramcloud_read_bottom :: "'r ramcloud_lib \<Rightarrow> u64 \<Rightarrow> ptr \<Rightarrow> machine \<times> 'r ramcloud_client
     \<Rightarrow> (int \<times> ptr \<times> machine \<times> 'r ramcloud_client) option" where
  "ramcloud_read_bottom L hashcode recvBuf = (\<lambda>(M, c). do {
     key \<leftarrow> read_for_asynread c;
     let (e, cs, M, r) = rc_wait L (tableId c) key (buf_for_asynread c) (M, rc_state c);
     let c = rc_report (read_reports L e) (c\<lparr>rc_state := r, buf_for_asynread := cs, read_for_asynread := None\<rparr>);
     case e of
       Some _ \<Rightarrow> Some (0, recvBuf, M, c)
     | None \<Rightarrow> do { (n, b, M) \<leftarrow> take_object L (length (RCBuf c)) cs recvBuf M; Some (n, b, M, c) }
   })"

definition ramcloud_remove :: "'r ramcloud_lib \<Rightarrow> u64 \<Rightarrow> machine \<times> 'r ramcloud_client
     \<Rightarrow> (int \<times> machine \<times> 'r ramcloud_client) option" where
  "ramcloud_remove L hashcode = (\<lambda>(M, c).
     let (e, r) = rc_remove L (tableId c) hashcode (rc_state c)
     in Some (if e = None then 1 else 0, M, rc_report (e \<noteq> None) (c\<lparr>rc_state := r\<rparr>)))"

section \<open>Many pages\<close>

text \<open>
  The answers of a read of many objects. \<open>bad_format\<close> is whether the report of a missing object passes
  its key where the format expects a string, which is undefined.
\<close>

fun take_objects :: "bool \<Rightarrow> u64 list \<Rightarrow> (int \<times> ptr \<times> u32) list \<Rightarrow> nat list \<Rightarrow> ptr list \<Rightarrow> int list \<Rightarrow> (ptr list \<times> int list) option" where
  "take_objects bad_format hs rs [] recvBufs lengths = Some (recvBufs, lengths)"
| "take_objects bad_format hs rs (j # js) recvBufs lengths =
     (if j < length rs \<and> j < length recvBufs \<and> j < length lengths
      then case rs ! j of (status, p, n) \<Rightarrow>
             if status \<noteq> 0
             then if bad_format \<or> length hs \<le> j then None else take_objects bad_format hs rs js recvBufs lengths
             else take_objects bad_format hs rs js (recvBufs[j := p]) (lengths[j := sint n])
      else None)"

text \<open>An object that is missing, or has no value, is reported.\<close>

definition objects_report :: "nat \<Rightarrow> (int \<times> ptr \<times> u32) list \<Rightarrow> bool" where
  "objects_report n rs = list_ex (\<lambda>(status, p, _). status \<noteq> 0 \<or> p = NULL) (take n rs)"

text \<open>The objects that are local to \<^verbatim>\<open>multiRead\<close> are destroyed at its end.\<close>

definition release :: "ptr list \<Rightarrow> machine \<Rightarrow> machine" where
  "release ps M = M\<lparr>bufs := (\<lambda>p. if p \<in> set ps then None else bufs M p)\<rparr>"

definition ramcloud_multiRead :: "rc_config \<Rightarrow> 'r ramcloud_lib \<Rightarrow> u64 list \<Rightarrow> int \<Rightarrow> ptr list \<Rightarrow> int list
     \<Rightarrow> machine \<times> 'r ramcloud_client \<Rightarrow> (int \<times> ptr list \<times> int list \<times> machine \<times> 'r ramcloud_client) option" where
  "ramcloud_multiRead C L hs num_prefetch recvBufs lengths = (\<lambda>(M, c).
     if 0 \<le> num_prefetch \<and> nat num_prefetch \<le> length hs
     then let (e, rs, M, r) = rc_multiRead L (multiread_table C c) (take (nat num_prefetch) hs) (M, rc_state c);
              c = rc_report (e \<noteq> None \<or> objects_report (nat num_prefetch) rs) (c\<lparr>rc_state := r\<rparr>);
              M' = release (map (fst \<circ> snd) rs) M
          in case e of
               Some _ \<Rightarrow> Some (0, recvBufs, lengths, M', c)
             | None \<Rightarrow> do {
                 (recvBufs, lengths) \<leftarrow> take_objects True hs rs [0..<nat num_prefetch] recvBufs lengths;
                 Some (0, recvBufs, lengths, M', c)
               }
     else None)"

text \<open>
  A read that could not be started leaves the pointer to the one before, whose requests are overwritten;
  using it is undefined.
\<close>

definition ramcloud_multiRead_top :: "'r ramcloud_lib \<Rightarrow> u64 list \<Rightarrow> int \<Rightarrow> machine \<times> 'r ramcloud_client
     \<Rightarrow> (machine \<times> 'r ramcloud_client) option" where
  "ramcloud_multiRead_top L hs num_prefetch = (\<lambda>(M, c).
     if 0 \<le> num_prefetch \<and> nat num_prefetch \<le> length hs \<and> nat num_prefetch \<le> MAX_MULTI_READ
     then let ks = take (nat num_prefetch) hs; (e, r) = rc_multiStart L (tableId_multiread c) ks (rc_state c);
              c = rc_report (e \<noteq> None) (c\<lparr>rc_state := r\<rparr>)
          in Some (M, c\<lparr>read_for_asynmread := if e = None then Some ks else None\<rparr>)
     else None)"

definition ramcloud_multiRead_bottom :: "'r ramcloud_lib \<Rightarrow> u64 list \<Rightarrow> int \<Rightarrow> ptr list \<Rightarrow> int list
     \<Rightarrow> machine \<times> 'r ramcloud_client \<Rightarrow> (int \<times> ptr list \<times> int list \<times> machine \<times> 'r ramcloud_client) option" where
  "ramcloud_multiRead_bottom L hs num_prefetch recvBufs lengths = (\<lambda>(M, c). do {
     ks \<leftarrow> read_for_asynmread c;
     let (e, rs, M, r) = rc_multiWait L (tableId_multiread c) ks (M, rc_state c);
     let c = rc_report (e \<noteq> None \<or> objects_report (nat num_prefetch) rs) (c\<lparr>rc_state := r, read_for_asynmread := None\<rparr>);
     case e of
       Some _ \<Rightarrow> Some (0, recvBufs, lengths, M, c)
     | None \<Rightarrow> do {
         (recvBufs, lengths) \<leftarrow> take_objects False hs rs [0..<nat num_prefetch] recvBufs lengths;
         Some (0, recvBufs, lengths, M, c)
       }
   })"

fun write_objects :: "u64 list \<Rightarrow> ptr list \<Rightarrow> int list \<Rightarrow> nat list \<Rightarrow> machine \<Rightarrow> (u64 \<times> u8 list) list option" where
  "write_objects hs data lengths [] M = Some []"
| "write_objects hs data lengths (i # is) M =
     (if i < length hs \<and> i < length data \<and> i < length lengths
      then do {
        pg \<leftarrow> bufs M (data ! i);
        if 0 \<le> lengths ! i \<and> nat (lengths ! i) \<le> length pg
        then map_option ((#) (hs ! i, take (nat (lengths ! i)) pg)) (write_objects hs data lengths is M) else None
      }
      else None)"

text \<open>
  The buffers are to be freed, whether or not they were written, and the status of each object is not
  looked at.
\<close>

definition ramcloud_multiWrite :: "rc_config \<Rightarrow> 'r ramcloud_lib \<Rightarrow> u64 list \<Rightarrow> int \<Rightarrow> ptr list \<Rightarrow> int list
     \<Rightarrow> machine \<times> 'r ramcloud_client \<Rightarrow> (bool \<times> int \<times> ptr list \<times> machine \<times> 'r ramcloud_client) option" where
  "ramcloud_multiWrite C L hs num_write data lengths = (\<lambda>(M, c). do {
     objects \<leftarrow> (if 0 \<le> num_write then write_objects hs data lengths [0..<nat num_write] M else None);
     let (e, _, r) = rc_multiWrite L (write_table C c) objects (rc_state c);
     Some (True, case e of None \<Rightarrow> 0 | Some x \<Rightarrow> exception_code x, data, M, rc_report (e \<noteq> None) (c\<lparr>rc_state := r\<rparr>))
   })"

section \<open>Usage of the servers\<close>

definition MAX_NUMBER_OF_RAMCLOUD_SERVERS :: nat where
  "MAX_NUMBER_OF_RAMCLOUD_SERVERS = 20"

record ServerUsage =
  su_size :: u64
  su_used :: u64
  su_free :: u64

definition no_stats :: PerfStats where
  "no_stats = \<lparr>logSizeBytes = 0, logUsedBytes = 0, logFreeBytes = 0\<rparr>"

text \<open>
  The array of the caller, cleared before; an answer of more servers than it holds overruns it. Nobody
  catches an exception of the control calls.
\<close>

definition getPerfStats :: "'r ramcloud_lib \<Rightarrow> 'r \<Rightarrow> PerfStats list option" where
  "getPerfStats L r =
     (case rc_perfStatsAll L r of
        Inl _ \<Rightarrow> None
      | Inr st \<Rightarrow>
          if length st \<le> MAX_NUMBER_OF_RAMCLOUD_SERVERS
          then Some (st @ replicate (MAX_NUMBER_OF_RAMCLOUD_SERVERS - length st) no_stats) else None)"

definition isFull :: "'r ramcloud_lib \<Rightarrow> u64 \<Rightarrow> 'r ramcloud_client \<Rightarrow> bool option" where
  "isFull L hashcode c =
     (case rc_perfStats L (tableId c) hashcode (rc_state c) of
        Inl _ \<Rightarrow> None
      | Inr st \<Rightarrow> Some (logSizeBytes st \<le> logUsedBytes st))"

fun isFullAll_loop :: "PerfStats list \<Rightarrow> bool \<Rightarrow> bool" where
  "isFullAll_loop [] ret = ret"
| "isFullAll_loop (st # sts) ret =
     (if logSizeBytes st = 0 then ret else isFullAll_loop sts (ret \<or> logSizeBytes st \<le> logUsedBytes st))"

definition isFullAll :: "'r ramcloud_lib \<Rightarrow> 'r ramcloud_client \<Rightarrow> bool option" where
  "isFullAll L c = map_option (\<lambda>sts. isFullAll_loop sts False) (getPerfStats L (rc_state c))"

definition ramcloud_backend :: "rc_config \<Rightarrow> 'r ramcloud_lib \<Rightarrow> 'r ramcloud_client backend" where
  "ramcloud_backend C L = \<lparr>
     er_create = ramcloud_create C L,
     er_write = ramcloud_write C L,
     er_read = ramcloud_read L,
     er_multiRead = ramcloud_multiRead C L,
     er_multiWrite = ramcloud_multiWrite C L,
     er_remove = ramcloud_remove L,
     er_read_top = ramcloud_read_top L,
     er_read_bottom = ramcloud_read_bottom L,
     er_multiRead_top = ramcloud_multiRead_top L,
     er_multiRead_bottom = ramcloud_multiRead_bottom L,
     er_isFull = isFull L,
     er_isFullAll = isFullAll L,
     er_reported = rc_reported\<rparr>"

definition mb :: u64 where
  "mb = 1024 * 1024"

fun getUsage_loop :: "PerfStats list \<Rightarrow> ServerUsage list \<Rightarrow> ServerUsage list" where
  "getUsage_loop [] us = us"
| "getUsage_loop (st # sts) us =
     (if logSizeBytes st = 0 then getUsage_loop sts us
      else getUsage_loop sts (us @ [\<lparr>su_size = logSizeBytes st div mb, su_used = logUsedBytes st div mb,
             su_free = logFreeBytes st div mb\<rparr>]))"

definition ramcloud_getUsage :: "'r ramcloud_lib \<Rightarrow> 'r ramcloud_client \<Rightarrow> (int \<times> ServerUsage list) option" where
  "ramcloud_getUsage L c =
     map_option (\<lambda>sts. let us = getUsage_loop sts [] in (int (length us), us)) (getPerfStats L (rc_state c))"

end
