(* ===== verification/Memcached.thy ===== *)
theory Memcached
  imports Extern_RAM C_Format
begin

text \<open>
  The store of \<^verbatim>\<open>lib/externram/memcached\<close>: a client of libmemcached. The library and the servers behind it
  are not code of this repository; they are the fields of a record \<open>memcached_lib\<close> over a state \<open>'m\<close> that
  the operations take as an argument. The connections of the class reach the same servers and the name
  space of a client is its own, so that one state stands for what a client can reach. The timing, the
  log messages and the pauses between attempts are left out. A write past the end of a buffer is
  undefined.
\<close>

section \<open>The library\<close>

datatype memcached_return_t =
    MEMCACHED_SUCCESS | MEMCACHED_NOTFOUND | MEMCACHED_SERVER_MEMORY_ALLOCATION_FAILURE
  | MEMCACHED_SERVER_TEMPORARILY_DISABLED | MEMCACHED_OTHER

text \<open>
  A value is its bytes, and empty for a null pointer. \<open>mc_fetch\<close> gives the next key and value of the last
  \<open>mc_mget\<close>, or nothing. \<open>mc_malloc\<close> is the C allocator for a buffer of a page.
\<close>

record 'm memcached_lib =
  mc_pool :: "string \<Rightarrow> memcached_return_t \<times> 'm"
  mc_set :: "string \<Rightarrow> u8 list \<Rightarrow> 'm \<Rightarrow> memcached_return_t \<times> 'm"
  mc_get :: "string \<Rightarrow> 'm \<Rightarrow> u8 list \<times> memcached_return_t \<times> 'm"
  mc_delete :: "string \<Rightarrow> 'm \<Rightarrow> memcached_return_t \<times> 'm"
  mc_mget :: "string list \<Rightarrow> 'm \<Rightarrow> memcached_return_t \<times> 'm"
  mc_fetch :: "'m \<Rightarrow> (string \<times> u8 list) option \<times> memcached_return_t \<times> 'm"
  mc_malloc :: "machine \<Rightarrow> ptr \<times> machine"
  mc_junk :: string

section \<open>The client\<close>

definition KEYSTR_LEN :: nat where
  "KEYSTR_LEN = 12"

record 'm memcached_client =
  mc_state :: 'm
  hashcodeStrings :: "string list"
  mc_reported :: bool

definition mc_report :: "bool \<Rightarrow> 'm memcached_client \<Rightarrow> 'm memcached_client" where
  "mc_report b c = c\<lparr>mc_reported := mc_reported c \<or> b\<rparr>"

text \<open>The options of the connection: the servers, and the upid as the name space of the keys.\<close>

definition memcached_locator :: "string \<Rightarrow> u64 \<Rightarrow> string" where
  "memcached_locator config upid =
     take 199 (config @ '' --HASH-WITH-NAMESPACE --NAMESPACE='' @ [CHR 0x22] @ decimal (unat upid) @ [CHR 0x22])"

text \<open>A connection that fails is reported, and the client is used all the same.\<close>

definition memcached_create :: "'m memcached_lib \<Rightarrow> int \<Rightarrow> string \<Rightarrow> u64 \<Rightarrow> 'm memcached_client option" where
  "memcached_create L t config upid =
     (let (rc, m) = mc_pool L (memcached_locator config upid)
      in Some \<lparr>mc_state = m, hashcodeStrings = replicate MAX_MULTI_READ (take (KEYSTR_LEN + 1) (mc_junk L)),
           mc_reported = (rc \<noteq> MEMCACHED_SUCCESS)\<rparr>)"

text \<open>\<^verbatim>\<open>sprintf\<close> of a key into a buffer of a given size, the null byte included.\<close>

definition key_string :: "nat \<Rightarrow> u64 \<Rightarrow> string option" where
  "key_string n hashcode = (let s = hex (unat hashcode) in if length s < n then Some s else None)"

section \<open>Single pages\<close>

text \<open>The attempts go on while the servers are full or temporarily disabled.\<close>

partial_function (option) memcached_set_loop ::
  "'m memcached_lib \<Rightarrow> string \<Rightarrow> u8 list \<Rightarrow> 'm \<Rightarrow> (memcached_return_t \<times> 'm) option" where
  "memcached_set_loop L key value m =
     (case mc_set L key value m of (rc, m1) \<Rightarrow>
        if rc = MEMCACHED_SERVER_MEMORY_ALLOCATION_FAILURE \<or> rc = MEMCACHED_SERVER_TEMPORARILY_DISABLED
        then memcached_set_loop L key value m1 else Some (rc, m1))"

definition memcached_write :: "'m memcached_lib \<Rightarrow> u64 \<Rightarrow> ptr \<Rightarrow> int \<Rightarrow> machine \<times> 'm memcached_client
     \<Rightarrow> (ptr \<times> int \<times> machine \<times> 'm memcached_client) option" where
  "memcached_write L hashcode data sz = (\<lambda>(M, c). do {
     key \<leftarrow> key_string (KEYSTR_LEN + 1) hashcode;
     pg \<leftarrow> bufs M data;
     if 0 \<le> sz \<and> nat sz \<le> length pg
     then do {
       (rc, m) \<leftarrow> memcached_set_loop L key (take (nat sz) pg) (mc_state c);
       Some (if rc = MEMCACHED_SUCCESS then (data, 0, M, c\<lparr>mc_state := m\<rparr>)
             else (NULL, - 1, M, mc_report True (c\<lparr>mc_state := m\<rparr>)))
     }
     else None
   })"

text \<open>\<^verbatim>\<open>memcpy\<close> of a value to the start of a buffer.\<close>

definition c_memcpy :: "ptr \<Rightarrow> u8 list \<Rightarrow> machine \<Rightarrow> machine option" where
  "c_memcpy p value M =
     (if value = [] then Some M
      else do {
        old \<leftarrow> bufs M p;
        if length value \<le> length old
        then Some (set_buf p (Some (value @ drop (length value) old)) M) else None
      })"

definition memcached_read :: "'m memcached_lib \<Rightarrow> u64 \<Rightarrow> ptr \<Rightarrow> machine \<times> 'm memcached_client
     \<Rightarrow> (int \<times> ptr \<times> machine \<times> 'm memcached_client) option" where
  "memcached_read L hashcode recvBuf = (\<lambda>(M, c). do {
     key \<leftarrow> key_string 20 hashcode;
     let (value, error, m) = mc_get L key (mc_state c);
     M1 \<leftarrow> if error = MEMCACHED_SUCCESS then c_memcpy recvBuf value M else Some M;
     Some (int_of_size (length value), recvBuf, M1, c\<lparr>mc_state := m\<rparr>)
   })"

partial_function (option) memcached_delete_loop ::
  "'m memcached_lib \<Rightarrow> string \<Rightarrow> 'm \<Rightarrow> (memcached_return_t \<times> 'm) option" where
  "memcached_delete_loop L key m =
     (case mc_delete L key m of (rc, m1) \<Rightarrow>
        if rc = MEMCACHED_SERVER_MEMORY_ALLOCATION_FAILURE \<or> rc = MEMCACHED_SERVER_TEMPORARILY_DISABLED
        then memcached_delete_loop L key m1 else Some (rc, m1))"

text \<open>The function ends without returning its result, which is undefined.\<close>

definition memcached_remove :: "'m memcached_lib \<Rightarrow> u64 \<Rightarrow> machine \<times> 'm memcached_client
     \<Rightarrow> (int \<times> machine \<times> 'm memcached_client) option" where
  "memcached_remove L hashcode = (\<lambda>(M, c). do {
     key \<leftarrow> key_string 20 hashcode;
     (rc, m) \<leftarrow> memcached_delete_loop L key (mc_state c);
     None
   })"

section \<open>Many pages\<close>

text \<open>
  The keys are printed into buffers that are kept from call to call: the bytes behind the end of a
  shorter key are those of an earlier one.
\<close>

fun buildHashStrings :: "u64 list \<Rightarrow> nat list \<Rightarrow> string list \<Rightarrow> string list option" where
  "buildHashStrings hs [] strs = Some strs"
| "buildHashStrings hs (j # js) strs =
     (if j < length hs \<and> j < length strs
      then do {
        key \<leftarrow> key_string (KEYSTR_LEN + 1) (hs ! j);
        buildHashStrings hs js (strs[j := key @ [CHR 0x00] @ drop (length key + 1) (strs ! j)])
      }
      else None)"

text \<open>Every key is sent with the length \<open>KEYSTR_LEN\<close>.\<close>

definition memcached_multiRead_top :: "'m memcached_lib \<Rightarrow> u64 list \<Rightarrow> int \<Rightarrow> machine \<times> 'm memcached_client
     \<Rightarrow> (machine \<times> 'm memcached_client) option" where
  "memcached_multiRead_top L hs num_prefetch = (\<lambda>(M, c). do {
     strs \<leftarrow> buildHashStrings hs [0..<nat num_prefetch] (hashcodeStrings c);
     let (error, m) = mc_mget L (map (take KEYSTR_LEN) (take (nat num_prefetch) strs)) (mc_state c);
     Some (M, mc_report (error \<noteq> MEMCACHED_SUCCESS) (c\<lparr>mc_state := m, hashcodeStrings := strs\<rparr>))
   })"

text \<open>
  The \<open>i\<close>-th value that arrives is put at index \<open>i\<close>, whatever its key. A key that is not the start of the
  \<open>i\<close>-th string, a value too many and an error are reported; the result has whether one was.
\<close>

partial_function (option) memcached_fetch_loop ::
  "'m memcached_lib \<Rightarrow> string list \<Rightarrow> nat \<Rightarrow> nat \<Rightarrow> ptr list \<Rightarrow> int list \<Rightarrow> bool \<Rightarrow> machine \<times> 'm
     \<Rightarrow> (int list \<times> bool \<times> machine \<times> 'm) option" where
  "memcached_fetch_loop L strs n i recvBufs lengths rep s =
     (case mc_fetch L (snd s) of (found, rc, m) \<Rightarrow>
        case found of
          None \<Rightarrow> Some (lengths, rep, fst s, m)
        | Some (return_key, value) \<Rightarrow>
            if rc = MEMCACHED_SUCCESS
            then if i = n then Some (lengths, True, fst s, m)
                 else if i < length strs \<and> i < length recvBufs \<and> i < length lengths
                 then Option.bind (c_memcpy (recvBufs ! i) value (fst s)) (\<lambda>M.
                   memcached_fetch_loop L strs n (i + 1) recvBufs (lengths[i := int (length value)])
                     (rep \<or> take (length return_key) (strs ! i) \<noteq> return_key) (M, m))
                 else None
            else memcached_fetch_loop L strs n (i + 1) recvBufs lengths True (fst s, m))"

definition memcached_multiRead_bottom :: "'m memcached_lib \<Rightarrow> u64 list \<Rightarrow> int \<Rightarrow> ptr list \<Rightarrow> int list
     \<Rightarrow> machine \<times> 'm memcached_client \<Rightarrow> (int \<times> ptr list \<times> int list \<times> machine \<times> 'm memcached_client) option" where
  "memcached_multiRead_bottom L hs num_prefetch recvBufs lengths = (\<lambda>(M, c). do {
     let n = nat num_prefetch;
     if n \<le> length lengths
     then do {
       (lengths, rep, M, m) \<leftarrow> memcached_fetch_loop L (hashcodeStrings c) n 0 recvBufs
         (replicate n 0 @ drop n lengths) False (M, mc_state c);
       Some (0, recvBufs, lengths, M, mc_report rep (c\<lparr>mc_state := m\<rparr>))
     }
     else None
   })"

fun malloc_bufs :: "'m memcached_lib \<Rightarrow> nat list \<Rightarrow> ptr list \<Rightarrow> machine \<Rightarrow> (ptr list \<times> machine) option" where
  "malloc_bufs L [] recvBufs M = Some (recvBufs, M)"
| "malloc_bufs L (i # is) recvBufs M =
     (if i < length recvBufs
      then let (p, M1) = mc_malloc L M in malloc_bufs L is (recvBufs[i := p]) M1 else None)"

definition memcached_multiRead :: "'m memcached_lib \<Rightarrow> u64 list \<Rightarrow> int \<Rightarrow> ptr list \<Rightarrow> int list
     \<Rightarrow> machine \<times> 'm memcached_client \<Rightarrow> (int \<times> ptr list \<times> int list \<times> machine \<times> 'm memcached_client) option" where
  "memcached_multiRead L hs num_prefetch recvBufs lengths = (\<lambda>(M, c). do {
     (recvBufs, M) \<leftarrow> malloc_bufs L [0..<nat num_prefetch] recvBufs M;
     s \<leftarrow> memcached_multiRead_top L hs num_prefetch (M, c);
     (rc, recvBufs, lengths, s) \<leftarrow> memcached_multiRead_bottom L hs num_prefetch recvBufs lengths s;
     Some (0, recvBufs, lengths, s)
   })"

definition memcached_read_top :: "'m memcached_lib \<Rightarrow> u64 \<Rightarrow> ptr \<Rightarrow> machine \<times> 'm memcached_client
     \<Rightarrow> (machine \<times> 'm memcached_client) option" where
  "memcached_read_top L key value s = memcached_multiRead_top L [key] 1 s"

definition memcached_read_bottom :: "'m memcached_lib \<Rightarrow> u64 \<Rightarrow> ptr \<Rightarrow> machine \<times> 'm memcached_client
     \<Rightarrow> (int \<times> ptr \<times> machine \<times> 'm memcached_client) option" where
  "memcached_read_bottom L hashcode recvBuf s = do {
     (rc, bs, lengths, s) \<leftarrow> memcached_multiRead_bottom L [hashcode] 1 [recvBuf] [0] s;
     Some (hd lengths, recvBuf, s)
   }"

fun memcached_multiWrite_loop :: "'m memcached_lib \<Rightarrow> u64 list \<Rightarrow> nat list \<Rightarrow> bool \<Rightarrow> int \<Rightarrow> ptr list \<Rightarrow> int list
     \<Rightarrow> machine \<times> 'm memcached_client \<Rightarrow> (bool \<times> int \<times> ptr list \<times> machine \<times> 'm memcached_client) option" where
  "memcached_multiWrite_loop L hs [] should_free err data lengths s = Some (should_free, err, data, s)"
| "memcached_multiWrite_loop L hs (i # is) should_free err data lengths s =
     (if i < length hs \<and> i < length data \<and> i < length lengths
      then Option.bind (memcached_write L (hs ! i) (data ! i) (lengths ! i) s) (\<lambda>(ret_addr, read_err, s).
             memcached_multiWrite_loop L hs is (should_free \<or> ret_addr \<noteq> NULL)
               (if read_err < 0 then read_err else err) data lengths s)
      else None)"

definition memcached_multiWrite :: "'m memcached_lib \<Rightarrow> u64 list \<Rightarrow> int \<Rightarrow> ptr list \<Rightarrow> int list
     \<Rightarrow> machine \<times> 'm memcached_client \<Rightarrow> (bool \<times> int \<times> ptr list \<times> machine \<times> 'm memcached_client) option" where
  "memcached_multiWrite L hs num_write data lengths s =
     memcached_multiWrite_loop L hs [0..<nat num_write] False 0 data lengths s"

definition memcached_backend :: "'m memcached_lib \<Rightarrow> 'm memcached_client backend" where
  "memcached_backend L = \<lparr>
     er_create = memcached_create L,
     er_write = memcached_write L,
     er_read = memcached_read L,
     er_multiRead = memcached_multiRead L,
     er_multiWrite = memcached_multiWrite L,
     er_remove = memcached_remove L,
     er_read_top = memcached_read_top L,
     er_read_bottom = memcached_read_bottom L,
     er_multiRead_top = memcached_multiRead_top L,
     er_multiRead_bottom = memcached_multiRead_bottom L,
     er_isFull = base_isFull,
     er_isFullAll = base_isFullAll,
     er_reported = mc_reported\<rparr>"

end
