(* ===== verification/Memcached_Props.thy ===== *)
theory Memcached_Props
  imports Memcached Transparency
begin

text \<open>
  The monitor over memcached. What is relied on of the library and the servers is the locale
  \<open>memcached_server\<close>: a server may have no memory for a value for a while, but not for ever, and otherwise
  it stores what it is given and returns what it stores; every request to read is answered. From it
  follows the contract of a store, so that the lemmas on the fault handler hold for this backend too. A
  request to read that is not answered is outside of it: its effect is a theorem of its own. A second
  locale adds the requests for many keys.
\<close>

section \<open>One page at a time\<close>

definition memcached_content ::
  "('m \<Rightarrow> string \<Rightarrow> u8 list option) \<Rightarrow> machine \<Rightarrow> 'm memcached_client \<Rightarrow> u64 \<Rightarrow> page option" where
  "memcached_content stored M c k = stored (mc_state c) (hex (unat k))"

definition memcached_owns :: "'m memcached_client \<Rightarrow> ptr set" where
  "memcached_owns c = {}"

definition memcached_ok :: "('m \<Rightarrow> string \<Rightarrow> u8 list option) \<Rightarrow> machine \<Rightarrow> 'm memcached_client \<Rightarrow> bool" where
  "memcached_ok stored M c \<longleftrightarrow> (\<forall>k v. stored (mc_state c) k = Some v \<longrightarrow> length v = 4096)"

text \<open>A key has at most twelve digits, a value is a page, and a page that is read is copied.\<close>

definition memcached_demands :: demands where
  "memcached_demands = \<lparr>key_ok = (\<lambda>k. unat k < 16 ^ 12), page_ok = (\<lambda>pg. length pg = 4096), copies = True\<rparr>"

lemma memcached_demands_simps [simp]:
  "key_ok memcached_demands k \<longleftrightarrow> unat k < 16 ^ 12" "page_ok memcached_demands pg \<longleftrightarrow> length pg = 4096"
  "copies memcached_demands"
  by (simp_all add: memcached_demands_def)

lemma mc_report_simps [simp]:
  "mc_state (mc_report b c) = mc_state c" "hashcodeStrings (mc_report b c) = hashcodeStrings c"
  by (simp_all add: mc_report_def)

lemma key_string_short: "unat k < 16 ^ 12 \<Longrightarrow> 13 \<le> n \<Longrightarrow> key_string n k = Some (hex (unat k))"
  using length_hex [of "unat k" 11] by (simp add: key_string_def Let_def)

lemma key_string_long: "\<not> unat k < 16 ^ 12 \<Longrightarrow> key_string 13 k = None"
  using length_hex [of "unat k" 11] by (simp add: key_string_def Let_def)

locale memcached_server =
  fixes L :: "'m memcached_lib"
    and stored :: "'m \<Rightarrow> string \<Rightarrow> u8 list option"
    and shortage :: "'m \<Rightarrow> nat"
  assumes set_law: "mc_set L k v m = (rc, m') \<Longrightarrow>
      rc = MEMCACHED_SUCCESS \<and> stored m' = (stored m)(k \<mapsto> v)
      \<or> rc = MEMCACHED_SERVER_MEMORY_ALLOCATION_FAILURE \<and> stored m' = stored m \<and> shortage m' < shortage m"
    and get_law: "mc_get L k m = (v, rc, m') \<Longrightarrow> stored m' = stored m
      \<and> (case stored m k of None \<Rightarrow> v = [] \<and> rc = MEMCACHED_NOTFOUND | Some w \<Rightarrow> v = w \<and> rc = MEMCACHED_SUCCESS)"
begin

lemma set_loop:
  "\<exists>m'. memcached_set_loop L k v m = Some (MEMCACHED_SUCCESS, m') \<and> stored m' = (stored m)(k \<mapsto> v)"
proof (induction "shortage m" arbitrary: m rule: less_induct)
  case less
  obtain rc m1 where s: "mc_set L k v m = (rc, m1)" by fastforce
  from set_law [OF s] show ?case
  proof (elim disjE conjE)
    assume "rc = MEMCACHED_SUCCESS" "stored m1 = (stored m)(k \<mapsto> v)"
    then show ?thesis using s by (simp add: memcached_set_loop.simps)
  next
    assume again: "rc = MEMCACHED_SERVER_MEMORY_ALLOCATION_FAILURE"
      and "stored m1 = stored m" and less1: "shortage m1 < shortage m"
    moreover have "memcached_set_loop L k v m = memcached_set_loop L k v m1"
      using s again by (subst memcached_set_loop.simps) auto
    ultimately show ?thesis using less.hyps [OF less1] by simp
  qed
qed

lemma write_page:
  assumes "memcached_ok stored M c" "unat k < 16 ^ 12" "length pg = 4096" "bufs M v = Some pg"
  shows "\<exists>c'. memcached_write L k v 4096 (M, c) = Some (v, 0, M, c') \<and> memcached_ok stored M c'
    \<and> memcached_content stored M c' = (memcached_content stored M c)(k \<mapsto> pg)"
proof -
  obtain m' where m': "memcached_set_loop L (hex (unat k)) pg (mc_state c) = Some (MEMCACHED_SUCCESS, m')"
    "stored m' = (stored (mc_state c))(hex (unat k) \<mapsto> pg)"
    using set_loop by blast
  have "memcached_write L k v 4096 (M, c) = Some (v, 0, M, c\<lparr>mc_state := m'\<rparr>)"
    using assms m'(1) by (simp add: memcached_write_def key_string_short KEYSTR_LEN_def)
  moreover have "memcached_ok stored M (c\<lparr>mc_state := m'\<rparr>)" using assms(1,3) m'(2) by (auto simp: memcached_ok_def)
  moreover have "memcached_content stored M (c\<lparr>mc_state := m'\<rparr>) = (memcached_content stored M c)(k \<mapsto> pg)"
    using m'(2) hex_inj by (auto simp: memcached_content_def fun_eq_iff word_unat_eq_iff)
  ultimately show ?thesis by blast
qed

lemma read_page:
  assumes "memcached_ok stored M c" "unat k < 16 ^ 12" "bufs M v = Some old" "length old = 4096"
  shows "\<exists>len M' c'. memcached_read L k v (M, c) = Some (len, v, M', c') \<and> memcached_ok stored M c'
    \<and> memcached_content stored M c' = memcached_content stored M c
    \<and> M' = (if memcached_content stored M c k \<noteq> None then set_buf v (memcached_content stored M c k) M else M)
    \<and> (case memcached_content stored M c k of None \<Rightarrow> len = 0 | Some pg \<Rightarrow> len = 4096 \<and> bufs M' v = Some pg)"
proof -
  obtain w rc m' where g: "mc_get L (hex (unat k)) (mc_state c) = (w, rc, m')" by (metis prod_cases3)
  note law = get_law [OF g]
  let ?c = "c\<lparr>mc_state := m'\<rparr>"
  have keep: "memcached_ok stored M ?c" "memcached_content stored M ?c = memcached_content stored M c"
    using assms(1) law by (simp_all add: memcached_ok_def memcached_content_def fun_eq_iff)
  show ?thesis
  proof (cases "memcached_content stored M c k")
    case None
    then have "memcached_read L k v (M, c) = Some (0, v, M, ?c)"
      using g law assms(2) by (simp add: memcached_read_def memcached_content_def key_string_short int_of_size_def)
    then show ?thesis using keep None by auto
  next
    case (Some pg)
    then have w: "w = pg" "rc = MEMCACHED_SUCCESS" and len: "length pg = 4096"
      using law assms(1) by (simp_all add: memcached_content_def memcached_ok_def)
    then have "c_memcpy v w M = Some (set_buf v (Some pg) M)"
      using assms(3,4) by (auto simp: c_memcpy_def)
    then have "memcached_read L k v (M, c) = Some (4096, v, set_buf v (Some pg) M, ?c)"
      using g w len assms(2) by (simp add: memcached_read_def key_string_short int_of_size_small)
    then show ?thesis using keep Some by (auto simp: set_buf_def)
  qed
qed

end

sublocale memcached_server \<subseteq> mc: extern_ram K "memcached_backend L" "memcached_content stored" memcached_owns
  "memcached_ok stored" memcached_demands for K
proof unfold_locales
  fix M :: machine and c :: "'m memcached_client" and k v pg
  assume "memcached_ok stored M c" "key_ok memcached_demands k" "page_ok memcached_demands pg" "bufs M v = Some pg"
  then obtain c' where "memcached_write L k v 4096 (M, c) = Some (v, 0, M, c')" "memcached_ok stored M c'"
    "memcached_content stored M c' = (memcached_content stored M c)(k \<mapsto> pg)" using write_page [of M c k pg v] by auto
  then show "\<exists>ret c'. er_write (memcached_backend L) k v 4096 (M, c) = Some (ret, 0, M, c') \<and> memcached_ok stored M c'
      \<and> memcached_content stored M c' = (memcached_content stored M c)(k \<mapsto> pg) \<and> memcached_owns c' \<subseteq> insert v (memcached_owns c)
      \<and> (ret \<noteq> NULL \<longrightarrow> ret \<in> insert v (memcached_owns c) \<and> ret \<notin> memcached_owns c')"
    by (auto simp: memcached_backend_def memcached_owns_def)
next
  fix M :: machine and c :: "'m memcached_client" and k v
  assume a: "memcached_ok stored M c" "key_ok memcached_demands k"
    "copies memcached_demands \<Longrightarrow> (\<exists>old. bufs M v = Some old \<and> page_ok memcached_demands old) \<and> v \<notin> memcached_owns c"
  then obtain old where old: "bufs M v = Some old" "length old = 4096" by auto
  then obtain len M' c' where "memcached_read L k v (M, c) = Some (len, v, M', c')" "memcached_ok stored M c'"
    "memcached_content stored M c' = memcached_content stored M c"
    "M' = (if memcached_content stored M c k \<noteq> None then set_buf v (memcached_content stored M c k) M else M)"
    "case memcached_content stored M c k of None \<Rightarrow> len = 0 | Some pg \<Rightarrow> len = 4096 \<and> bufs M' v = Some pg"
    using read_page a(1,2) by (metis memcached_demands_simps(1))
  then show "\<exists>len v' M' c'. er_read (memcached_backend L) k v (M, c) = Some (len, v', M', c') \<and> memcached_ok stored M' c'
      \<and> memcached_content stored M' c' = memcached_content stored M c \<and> resident M' = resident M
      \<and> (\<forall>p. p \<notin> memcached_owns c \<longrightarrow> p \<notin> memcached_owns c' \<longrightarrow> copies memcached_demands \<and> p = v \<or> bufs M' p = bufs M p)
      \<and> (\<forall>p \<in> memcached_owns c' - memcached_owns c. bufs M p = None \<and> p \<noteq> MAP_FAILED)
      \<and> (copies memcached_demands \<longrightarrow> v' = v \<and> (\<exists>new. bufs M' v = Some new \<and> page_ok memcached_demands new))
      \<and> (case memcached_content stored M c k of None \<Rightarrow> len = 0 | Some pg \<Rightarrow> len = 4096 \<and> bufs M' v' = Some pg)"
    using old a(1)
    by (intro exI [of _ len] exI [of _ v] exI [of _ M'] exI [of _ c'])
      (auto simp: memcached_backend_def memcached_owns_def memcached_ok_def memcached_content_def set_buf_def fun_eq_iff split: option.splits)
qed (auto simp: memcached_owns_def memcached_ok_def memcached_content_def zero_page_def)

context memcached_server
begin

lemmas events_refine = mc.run_events_refine

end

section \<open>Many pages at once\<close>

text \<open>A request for many keys is answered by the pairs that are stored, in the order of the keys.\<close>

locale memcached_fetching = memcached_server +
  fixes pending :: "'m \<Rightarrow> (string \<times> u8 list) list"
  assumes mget_law: "mc_mget L ks m = (rc, m') \<Longrightarrow>
      stored m' = stored m \<and> pending m' = List.map_filter (\<lambda>k. map_option (Pair k) (stored m k)) ks"
    and fetch_law: "mc_fetch L m = (found, rc, m') \<Longrightarrow> stored m' = stored m
      \<and> (case pending m of [] \<Rightarrow> found = None \<and> pending m' = []
         | x # xs \<Rightarrow> found = Some x \<and> rc = MEMCACHED_SUCCESS \<and> pending m' = xs)"

text \<open>Keys of exactly twelve digits; a shorter one is sent with the bytes that follow it in the buffer.\<close>

definition wide_key :: "u64 \<Rightarrow> bool" where
  "wide_key k \<longleftrightarrow> 16 ^ 11 \<le> unat k \<and> unat k < 16 ^ 12"

lemma length_wide_key: "wide_key k \<Longrightarrow> length (hex (unat k)) = 12"
  using length_hex [of "unat k" 11] length_hex [of "unat k" 10] by (simp add: wide_key_def)

lemma buildHashStrings_keys:
  assumes "n \<le> length hs" "n \<le> length strs" "\<forall>h \<in> set hs. unat h < 16 ^ 12" "i \<le> n"
    "\<And>j. j < i \<Longrightarrow> \<exists>rest. strs ! j = hex (unat (hs ! j)) @ CHR 0x00 # rest"
  shows "\<exists>strs'. buildHashStrings hs [i..<n] strs = Some strs' \<and> length strs' = length strs
    \<and> (\<forall>j < n. \<exists>rest. strs' ! j = hex (unat (hs ! j)) @ CHR 0x00 # rest)"
  using assms(2,4,5)
proof (induction "n - i" arbitrary: i strs)
  case 0
  then show ?case by simp
next
  case (Suc m)
  then have i: "i < n" and l: "i < length hs" "i < length strs" using assms(1) by auto
  let ?key = "hex (unat (hs ! i))"
  let ?strs = "strs[i := ?key @ [CHR 0x00] @ drop (length ?key + 1) (strs ! i)]"
  have "unat (hs ! i) < 16 ^ 12" using assms(3) l(1) by simp
  then have k: "key_string 13 (hs ! i) = Some ?key" by (simp add: key_string_short)
  have m: "m = n - Suc i" using Suc.hyps(2) by simp
  have st: "\<exists>rest. ?strs ! j = hex (unat (hs ! j)) @ CHR 0x00 # rest" if "j < Suc i" for j
    using Suc.prems(3) [of j] that l by (cases "j = i") auto
  have "n \<le> length ?strs" "Suc i \<le> n" using Suc.prems(1) i by simp_all
  from Suc.hyps(1) [OF m this st] obtain strs' where "buildHashStrings hs [Suc i..<n] ?strs = Some strs'" "length strs' = length ?strs"
    "\<forall>j < n. \<exists>rest. strs' ! j = hex (unat (hs ! j)) @ CHR 0x00 # rest" by blast
  then show ?case using i l k by (simp add: upt_conv_Cons KEYSTR_LEN_def)
qed

context memcached_fetching
begin

lemma fetch_loop:
  assumes "distinct recvBufs" "length recvBufs = n" "length lengths = n" "i + length (pending m) \<le> n"
    "\<forall>b \<in> set recvBufs. \<exists>old. bufs M b = Some old \<and> length old = 4096"
    "\<forall>x \<in> set (pending m). length (snd x) = 4096" "drop i lengths = replicate (n - i) 0" and strs: "n \<le> length strs"
  shows "\<exists>M' m' rep'. memcached_fetch_loop L strs n i recvBufs lengths rep (M, m)
      = Some (take i lengths @ replicate (length (pending m)) 4096 @ replicate (n - i - length (pending m)) 0, rep', M', m')
    \<and> stored m' = stored m
    \<and> (\<forall>j < n. bufs M' (recvBufs ! j) = (if i \<le> j \<and> j < i + length (pending m)
          then Some (snd (pending m ! (j - i))) else bufs M (recvBufs ! j)))"
  using assms(3-7)
proof (induction "pending m" arbitrary: i m M lengths rep)
  case Nil
  obtain found rc m1 where f: "mc_fetch L m = (found, rc, m1)" by (metis prod_cases3)
  have "found = None" "stored m1 = stored m" using fetch_law [OF f] Nil.hyps [symmetric] by simp_all
  moreover have "lengths = take i lengths @ replicate (n - i) 0" using Nil.prems(5) by (metis append_take_drop_id)
  ultimately show ?case using f Nil.hyps [symmetric] by (subst memcached_fetch_loop.simps) auto
next
  case (Cons x xs)
  obtain key v where x: "x = (key, v)" by fastforce
  obtain found rc m1 where f: "mc_fetch L m = (found, rc, m1)" by (metis prod_cases3)
  have f1: "found = Some x" "rc = MEMCACHED_SUCCESS" "pending m1 = xs" "stored m1 = stored m"
    using fetch_law [OF f] Cons.hyps(2) [symmetric] by simp_all
  have p: "pending m = x # xs" using Cons.hyps(2) by simp
  have i: "i < n" "length v = 4096" using Cons.prems(2,4) p x by auto
  then obtain old where old: "bufs M (recvBufs ! i) = Some old" "length old = 4096"
    using Cons.prems(3) assms(2) by force
  let ?M = "set_buf (recvBufs ! i) (Some v) M" and ?l = "lengths[i := 4096]"
  have cp: "c_memcpy (recvBufs ! i) v M = Some ?M" using old i(2) by (auto simp: c_memcpy_def)
  have "drop (Suc i) lengths = drop 1 (drop i lengths)" by simp
  then have d: "drop (Suc i) ?l = replicate (n - Suc i) 0" unfolding Cons.prems(5) by simp
  have b: "\<forall>b \<in> set recvBufs. \<exists>old. bufs ?M b = Some old \<and> length old = 4096"
    using Cons.prems(3) i(2) by (simp add: set_buf_def)
  have "length ?l = n" "Suc i + length (pending m1) \<le> n" "\<forall>x \<in> set (pending m1). length (snd x) = 4096"
    using Cons.prems p f1(3) by simp_all
  note ih = Cons.hyps(1) [OF f1(3) [symmetric] this(1,2) b this(3) d, unfolded f1(3)]
  then obtain M' m' rep' where r: "memcached_fetch_loop L strs n (Suc i) recvBufs ?l
        (rep \<or> take (length key) (strs ! i) \<noteq> key) (?M, m1)
      = Some (take (Suc i) ?l @ replicate (length xs) 4096 @ replicate (n - Suc i - length xs) 0, rep', M', m')"
    "stored m' = stored m1" "\<forall>j < n. bufs M' (recvBufs ! j) = (if Suc i \<le> j \<and> j < Suc i + length xs
          then Some (snd (xs ! (j - Suc i))) else bufs ?M (recvBufs ! j))" by blast
  have "memcached_fetch_loop L strs n i recvBufs lengths rep (M, m)
      = memcached_fetch_loop L strs n (Suc i) recvBufs ?l (rep \<or> take (length key) (strs ! i) \<noteq> key) (?M, m1)"
    using f f1 x cp i assms(2) strs Cons.prems(1) by (subst memcached_fetch_loop.simps) simp
  moreover have "take (Suc i) ?l = take i lengths @ [4096]" using i(1) Cons.prems(1) by (simp add: take_Suc_conv_app_nth)
  moreover have "bufs M' (recvBufs ! j) = (if i \<le> j \<and> j < i + length (pending m)
      then Some (snd (pending m ! (j - i))) else bufs M (recvBufs ! j))" if j: "j < n" for j
  proof (cases "j = i")
    case True
    then show ?thesis using r(3) j p x by (simp add: set_buf_def)
  next
    case False
    then have "recvBufs ! j \<noteq> recvBufs ! i" using assms(1,2) i(1) j by (simp add: nth_eq_iff_index_eq)
    then show ?thesis using r(3) j p False by (auto simp: set_buf_def nth_Cons')
  qed
  ultimately show ?case using r(1,2) p f1(4) by simp
qed

text \<open>The two halves of a read of many keys.\<close>

lemma multiRead:
  assumes "memcached_ok stored M c" "\<forall>h \<in> set hs. wide_key h" "length hs = n" "n \<le> length (hashcodeStrings c)"
    "length recvBufs = n" "length lengths = n" "distinct recvBufs"
    "\<forall>b \<in> set recvBufs. \<exists>old. bufs M b = Some old \<and> length old = 4096"
    and found: "found = List.map_filter (memcached_content stored M c) hs"
  shows "\<exists>s1 M' c'. memcached_multiRead_top L hs (int n) (M, c) = Some s1
    \<and> memcached_multiRead_bottom L hs (int n) recvBufs lengths s1
        = Some (0, recvBufs, replicate (length found) 4096 @ replicate (n - length found) 0, M', c')
    \<and> (\<forall>j < n. bufs M' (recvBufs ! j) = (if j < length found then Some (found ! j) else bufs M (recvBufs ! j)))"
proof -
  have "\<forall>h \<in> set hs. unat h < 16 ^ 12" using assms(2) by (simp add: wide_key_def)
  then obtain strs where strs: "buildHashStrings hs [0..<n] (hashcodeStrings c) = Some strs"
    "length strs = length (hashcodeStrings c)" "\<forall>j < n. \<exists>rest. strs ! j = hex (unat (hs ! j)) @ CHR 0x00 # rest"
    using buildHashStrings_keys [of n hs "hashcodeStrings c" 0] assms(3,4) by auto
  let ?ks = "map (take KEYSTR_LEN) (take n strs)"
  have ks: "?ks = map (\<lambda>h. hex (unat h)) hs"
  proof (rule nth_equalityI)
    show "length ?ks = length (map (\<lambda>h. hex (unat h)) hs)" using strs(2) assms(3,4) by simp
    fix j
    assume "j < length ?ks"
    then have j: "j < n" "j < length strs" by simp_all
    obtain rest where "strs ! j = hex (unat (hs ! j)) @ CHR 0x00 # rest" using strs(3) j(1) by blast
    moreover have "length (hex (unat (hs ! j))) = 12" using length_wide_key assms(2,3) j(1) by simp
    ultimately show "?ks ! j = map (\<lambda>h. hex (unat h)) hs ! j" using j assms(3) by (simp add: KEYSTR_LEN_def)
  qed
  obtain rc m1 where g: "mc_mget L (map (\<lambda>h. hex (unat h)) hs) (mc_state c) = (rc, m1)" by fastforce
  have pe: "map snd (pending m1) = found"
    using mget_law [OF g] found
    by (simp add: List.map_filter_def filter_map comp_def memcached_content_def option.map_sel map_idI cong: map_cong)
  have lp: "length (pending m1) = length found" using pe by (metis length_map)
  moreover have "length found \<le> length hs" unfolding found List.map_filter_def by simp
  ultimately have le: "0 + length (pending m1) \<le> n" using assms(3) by simp
  have "\<forall>v \<in> set found. length v = 4096"
    using found assms(1) by (auto simp: List.map_filter_def memcached_ok_def memcached_content_def)
  then have "\<forall>x \<in> set (pending m1). length (snd x) = 4096" unfolding pe [symmetric] by simp
  moreover have "n \<le> length strs" using strs(2) assms(4) by simp
  ultimately obtain M' m' rep where r: "memcached_fetch_loop L strs n 0 recvBufs (replicate n 0) False (M, m1)
      = Some (replicate (length (pending m1)) 4096 @ replicate (n - length (pending m1)) 0, rep, M', m')"
    "\<forall>j < n. bufs M' (recvBufs ! j) = (if j < length (pending m1) then Some (snd (pending m1 ! j)) else bufs M (recvBufs ! j))"
    using fetch_loop [OF assms(7,5), of "replicate n 0" 0 m1 M strs False] le assms(8) by auto
  let ?c = "mc_report (rc \<noteq> MEMCACHED_SUCCESS) (c\<lparr>mc_state := m1, hashcodeStrings := strs\<rparr>)"
  have "memcached_multiRead_top L hs (int n) (M, c) = Some (M, ?c)"
    using strs(1) g ks by (simp add: memcached_multiRead_top_def)
  moreover have "memcached_multiRead_bottom L hs (int n) recvBufs lengths (M, ?c)
      = Some (0, recvBufs, replicate (length found) 4096 @ replicate (n - length found) 0, M', mc_report rep (?c\<lparr>mc_state := m'\<rparr>))"
    using r(1) assms(6) lp by (simp add: memcached_multiRead_bottom_def)
  moreover have "\<forall>j < n. bufs M' (recvBufs ! j) = (if j < length found then Some (found ! j) else bufs M (recvBufs ! j))"
    using r(2) nth_map [of _ "pending m1" snd] unfolding lp pe by simp
  ultimately show ?thesis by blast
qed

end

section \<open>A server\<close>

text \<open>A server that has no memory for a number of requests, with the pairs it has found for the last request.\<close>

type_synonym sim_mc = "nat \<times> (string \<Rightarrow> u8 list option) \<times> (string \<times> u8 list) list"

definition sim_memcached :: "sim_mc memcached_lib" where
  "sim_memcached = \<lparr>
     mc_pool = (\<lambda>locator. (MEMCACHED_SUCCESS, 0, Map.empty, [])),
     mc_set = (\<lambda>k v (n, st, pe). if n > 0 then (MEMCACHED_SERVER_MEMORY_ALLOCATION_FAILURE, n - 1, st, pe)
        else (MEMCACHED_SUCCESS, n, st(k \<mapsto> v), pe)),
     mc_get = (\<lambda>k (n, st, pe). case st k of None \<Rightarrow> ([], MEMCACHED_NOTFOUND, n, st, pe)
        | Some v \<Rightarrow> (v, MEMCACHED_SUCCESS, n, st, pe)),
     mc_delete = (\<lambda>k (n, st, pe). (if st k = None then MEMCACHED_NOTFOUND else MEMCACHED_SUCCESS, n, st(k := None), pe)),
     mc_mget = (\<lambda>ks (n, st, pe). (MEMCACHED_SUCCESS, n, st, List.map_filter (\<lambda>k. map_option (Pair k) (st k)) ks)),
     mc_fetch = (\<lambda>(n, st, pe). case pe of [] \<Rightarrow> (None, MEMCACHED_NOTFOUND, n, st, [])
        | x # xs \<Rightarrow> (Some x, MEMCACHED_SUCCESS, n, st, xs)),
     mc_malloc = (\<lambda>M. (NULL, M)),
     mc_junk = replicate 13 (CHR ''x'')\<rparr>"

definition sim_stored :: "sim_mc \<Rightarrow> string \<Rightarrow> u8 list option" where
  "sim_stored m = fst (snd m)"

definition sim_pending :: "sim_mc \<Rightarrow> (string \<times> u8 list) list" where
  "sim_pending m = snd (snd m)"

interpretation sim_mc: memcached_fetching sim_memcached sim_stored fst sim_pending
  by unfold_locales (auto simp: sim_memcached_def sim_stored_def sim_pending_def split: if_splits option.splits list.splits prod.splits)

abbreviation memcached_inv :: "('m \<Rightarrow> string \<Rightarrow> u8 list option) \<Rightarrow> 'm memcached_client fm \<Rightarrow> bool" where
  "memcached_inv stored \<equiv> fm_inv memcached_owns (memcached_ok stored) memcached_demands"

text \<open>The example of the in-process store over this server, which has no memory for three requests.\<close>

definition memcached_env :: "sim_mc memcached_client env" where
  "memcached_env = \<lparr>e_cfg = plain_config, e_kernel = sim_kernel, e_backend = memcached_backend sim_memcached,
     e_now = (0, 0), e_exit_on_recoverable = False, e_wait_ufhandler = id, e_wait_flushed = id\<rparr>"

definition memcached_fm :: "sim_mc memcached_client fm" where
  "memcached_fm = \<lparr>fm_lru = \<lparr>il = [new_node 4096 7, new_node 8192 7], max_num_items = 2\<rparr>, fm_stats = stats0,
     fm_pc = newPageCache 1000 10 False, fm_tio = tio_init,
     fm_map = [\<lparr>ms_fd = 7, ms_upid = 1, ms_client = 1\<rparr>],
     fm_clients = [\<lparr>mc_state = (3, Map.empty, []), hashcodeStrings = [], mc_reported = False\<rparr>],
     fm_mach = set_buf 65536 (Some zero_page)
       (set_resident 7 4096 (Some ones) (set_resident 7 8192 (Some ones) machine0)),
     fm_read_tmp_page = 65536, fm_locks = {}, fm_err = False\<rparr>"

lemma memcached_env_simps [simp]:
  "e_cfg memcached_env = plain_config" "e_kernel memcached_env = sim_kernel"
  "e_backend memcached_env = memcached_backend sim_memcached"
  by (simp_all add: memcached_env_def)

lemma single_client: "client_get [x] p = Some c \<longleftrightarrow> p = 1 \<and> c = x"
proof -
  have "unat p \<le> 1 \<longleftrightarrow> p = 0 \<or> p = 1" by (metis le_less less_one unat_1 unat_eq_zero word_unat_eq_iff)
  then show ?thesis by (auto simp: client_get_def not_less)
qed

lemma memcached_example:
  "memcached_inv sim_stored memcached_fm" "registered 7 memcached_fm" "max_num_items (fm_lru memcached_fm) = 2"
  "logical (memcached_content sim_stored) memcached_fm 7 4096 = ones"
  "logical (memcached_content sim_stored) memcached_fm 7 12288 = zero_page"
proof -
  have "fm_core memcached_owns (memcached_ok sim_stored) memcached_demands memcached_fm"
    by (auto simp: fm_core_def memcached_fm_def single_client machine0_def set_resident_def set_buf_def memcached_ok_def
        memcached_owns_def sim_stored_def ones_def zero_page_def MAP_FAILED_def split: if_splits)
  moreover have "lru_resident memcached_fm"
    by (auto simp: lru_resident_def memcached_fm_def lru_wf_def node_resident_def registered_def
        demo_keys node_ok_def set_resident_def set_buf_def)
  ultimately show "memcached_inv sim_stored memcached_fm" by (simp add: fm_inv_def memcached_fm_def)
  show "registered 7 memcached_fm" "max_num_items (fm_lru memcached_fm) = 2"
    by (simp_all add: registered_def memcached_fm_def)
  show "logical (memcached_content sim_stored) memcached_fm 7 4096 = ones"
    "logical (memcached_content sim_stored) memcached_fm 7 12288 = zero_page"
    by (simp_all add: logical_def memcached_fm_def set_resident_def set_buf_def machine0_def remote_def fd_client_def
      hash_find_def client_get_def memcached_content_def sim_stored_def)
qed

section \<open>Theorems\<close>

text \<open>
  C3. Over memcached too the applications see a plain memory. In the build without page cache and
  threads, with servers that answer every read and may have no memory for a write for a while, but
  otherwise keep what they are given, every sequence of loads, stores of whole pages and faults on pages
  of registered descriptors completes, whatever the monitor evicts on the way, if the LRU buffer is
  bounded by two pages or more and the addresses have at most twelve hexadecimal digits; the loads
  answer, and the contents are in the end, as those of the abstract memory.
\<close>

theorem memcached_refinement:
  assumes "memcached_server L stored shortage"
    and "kernel_ok K" "e_kernel E = K" "e_backend E = memcached_backend L" "e_cfg E = plain_config"
    and "\<And>f. region_stable K f" "memcached_inv stored s"
    and "\<forall>e \<in> set es. event_ok s e \<and> event_fits memcached_demands e" "2 \<le> max_num_items (fm_lru s)"
  shows "\<exists>out s'. run_events E es s = Some (out, s') \<and> memcached_inv stored s'
    \<and> mem_run es (logical (memcached_content stored) s) = (out, logical (memcached_content stored) s')"
  by (rule memcached_server.events_refine [OF assms])

theorem memcached_refinement_witness:
  "map_option fst (run_events memcached_env demo_events memcached_fm) = Some [ones, ones, zero_page]"
proof -
  have "list_all (\<lambda>e. event_ok memcached_fm e \<and> event_fits memcached_demands e) demo_events"
    by (simp add: demo_events_def event_ok_def event_fits_def memcached_example page_aligned_def ones_def zero_page_def)
  then show ?thesis
    using memcached_refinement [OF sim_mc.memcached_server_axioms sim_kernel_ok _ _ _ sim_kernel_stable memcached_example(1),
        of memcached_env demo_events]
    by (auto simp: list_all_iff demo_events_def memcached_example)
qed

text \<open>
  A fault on a page for which the store gives the length 0, when there is room in the LRU buffer: the
  page is filled with zeros.
\<close>

lemma fault_zero:
  assumes K: "kernel_ok K" "e_kernel E = K" "e_cfg E = plain_config" "region_stable K f"
    and f: "fd_client f s = Some c" "hash_find ms_fd f (fm_map s) = Some e" "client_get (fm_clients s) (ms_client e) = Some c"
    and s: "fm_locks s = {}" "page_aligned a" "resident (fm_mach s) f a = None" "length (il (fm_lru s)) < max_num_items (fm_lru s)"
      "max_num_items (fm_lru s) < 2 ^ 31 - 2" "distinct_keys cn_hashcode (il (fm_lru s))"
    and r: "readPage (e_backend E) a (fm_read_tmp_page s) (fm_mach s, c) = Some (0, fm_read_tmp_page s, fm_mach s, c')"
  shows "\<exists>s'. read_from_externram E f a s = Some (0, s') \<and> resident (fm_mach s') f a = Some zero_page
    \<and> fd_client f s' = Some c' \<and> fm_err s' = fm_err s"
proof -
  let ?s = "put_client (ms_client e) (fm_mach s, c') (upd_stats StatsIncrPageFault s)"
  have n: "ms_client e \<noteq> NULL" using f(3) by (auto simp: client_get_def split: if_splits)
  have 1: "fetch_direct E f a (upd_stats StatsIncrPageFault s) = Some (0, - 1, ?s)"
    using r n f(2,3) s(1) K(3)
    by (simp add: fetch_direct_def fm_client_def get_client_by_fd_free fm_readPage_def upd_stats_def put_client_def)
  obtain M where z: "k_zeropage K f a (fm_mach s) = (0, M)" "resident M f a = Some zero_page"
    using zeropage_cases [OF K(1), of f a "fm_mach s"] stable_zeropage [OF K(4) s(3)]
    by (metis (no_types, lifting) fst_conv fun_upd_same prod.collapse)
  let ?xs = "lru_insert (new_node a f) (il (fm_lru s))"
  have "length ?xs \<le> Suc (length (il (fm_lru s)))" using lru.length_push [OF s(6)] by simp
  then have room: "length ?xs \<le> max_num_items (fm_lru s)" using s(4) by simp
  let ?t = "?s\<lparr>fm_mach := M\<rparr>"
  let ?u = "put_lru ((fm_lru s)\<lparr>il := ?xs\<rparr>, StatsIncrLRUBufferSize (fm_stats ?t)) ?t"
  have "evict_if_needed E f a ZERO_PAGE ?t = Some (0, ?u)"
    using noop.evict_if_needed_room [of ?t a f E ZERO_PAGE] room s(1) by (simp add: put_client_def)
  then have 2: "place_page_out E f a 0 (fm_read_tmp_page s) ?s = Some (0, ?u)"
    using z(1) K(2,3) page_alignedD [OF s(2)] by (simp add: place_page_out_def place_zero_page_def put_client_def)
  have "getLRUBufferSize (fm_lru ?u) - getLRUBufferMaxSize (fm_lru ?u) \<le> 0"
    using room s(5) by (simp add: getLRUBufferSize_def getLRUBufferMaxSize_def)
  then have 3: "shrink_lru E ?u = Some ?u"
    using s(1) by (cases s) (simp add: shrink_lru_def lockS_def unlockS_def put_lru_def put_client_def upd_stats_def)
  have "read_from_externram E f a s = Some (0, upd_stats (StatsSetLastFaultTime (e_now E)) ?u)"
    using 1 2 3 K(3) by (simp add: read_from_externram_def put_client_def upd_stats_def)
  moreover have "fd_client f ?u = Some c'"
    using f(2) client_get_set [OF f(3), of c'] by (simp add: fd_client_def put_client_def put_lru_def upd_stats_def)
  moreover have "fm_err ?u = fm_err s" by (simp add: put_client_def put_lru_def upd_stats_def)
  ultimately show ?thesis using z(2) by (auto simp: fd_client_def upd_stats_def)
qed

text \<open>
  C25. A page is lost when memcached does not answer. A request to read that fails, be it that the server
  is disabled or cannot be reached, leaves the length 0, which is what the monitor gets for a page that was
  never stored: it reports no error, fills the page with zeros and lets the application go on, although
  the servers hold the page.
\<close>

theorem memcached_failed_read_zeroes:
  assumes "kernel_ok K" "e_kernel E = K" "e_backend E = memcached_backend L" "e_cfg E = plain_config" "region_stable K f"
    and "memcached_inv stored s" "fd_client f s = Some c" "page_aligned a" "unat a < 16 ^ 12"
    and "resident (fm_mach s) f a = None" "remote (memcached_content stored) s f a = Some pg"
    and "length (il (fm_lru s)) < max_num_items (fm_lru s)"
    and "mc_get L (hex (unat a)) (mc_state c) = ([], rc, m)" "rc \<noteq> MEMCACHED_SUCCESS"
    "stored m = stored (mc_state c)"
  shows "\<exists>s'. read_from_externram E f a s = Some (0, s') \<and> resident (fm_mach s') f a = Some zero_page
    \<and> remote (memcached_content stored) s' f a = Some pg
    \<and> logical (memcached_content stored) s f a = pg \<and> logical (memcached_content stored) s' f a = zero_page
    \<and> fm_err s' = fm_err s \<and> map_option mc_reported (fd_client f s') = map_option mc_reported (fd_client f s)"
proof -
  obtain e where e: "hash_find ms_fd f (fm_map s) = Some e" "client_get (fm_clients s) (ms_client e) = Some c"
    using assms(7) by (auto simp: fd_client_def bind_eq_Some_conv)
  have i: "fm_locks s = {}" "max_num_items (fm_lru s) < 2 ^ 31 - 2" "distinct_keys cn_hashcode (il (fm_lru s))"
    using assms(6) by (auto simp: fm_inv_def lru_resident_def lru_wf_def)
  have "readPage (e_backend E) a (fm_read_tmp_page s) (fm_mach s, c)
      = Some (0, fm_read_tmp_page s, fm_mach s, c\<lparr>mc_state := m\<rparr>)"
    using assms(3,9,13,14)
    by (simp add: readPage_def memcached_backend_def memcached_read_def key_string_short int_of_size_def)
  from fault_zero [OF assms(1,2,4,5,7) e i(1) assms(8,10,12) i(2,3) this]
  obtain s' where s': "read_from_externram E f a s = Some (0, s')" "resident (fm_mach s') f a = Some zero_page"
    "fd_client f s' = Some (c\<lparr>mc_state := m\<rparr>)" "fm_err s' = fm_err s" by blast
  moreover have "remote (memcached_content stored) s' f a = Some pg"
    using s'(3) assms(7,11,15) by (simp add: remote_def memcached_content_def)
  ultimately show ?thesis using assms(7,10,11) by (simp add: logical_def)
qed

text \<open>A library whose servers do not answer.\<close>

definition down_memcached :: "sim_mc memcached_lib" where
  "down_memcached = sim_memcached\<lparr>mc_get := (\<lambda>k m. ([], MEMCACHED_SERVER_TEMPORARILY_DISABLED, m))\<rparr>"

definition stored_fm :: "sim_mc memcached_client fm" where
  "stored_fm = memcached_fm\<lparr>fm_lru := \<lparr>il = [], max_num_items = 2\<rparr>,
     fm_clients := [\<lparr>mc_state = (0, [hex 12288 \<mapsto> ones], []), hashcodeStrings = [], mc_reported = False\<rparr>]\<rparr>"

theorem memcached_failed_read_zeroes_witness:
  "\<exists>s'. read_from_externram (memcached_env\<lparr>e_backend := memcached_backend down_memcached\<rparr>) 7 12288 stored_fm = Some (0, s')
     \<and> resident (fm_mach s') 7 12288 = Some zero_page \<and> remote (memcached_content sim_stored) s' 7 12288 = Some ones"
proof -
  let ?c = "\<lparr>mc_state = (0 :: nat, [hex 12288 \<mapsto> ones], []), hashcodeStrings = [], mc_reported = False\<rparr>"
  have f: "fd_client 7 stored_fm = Some ?c" "remote (memcached_content sim_stored) stored_fm 7 12288 = Some ones"
    by (simp_all add: stored_fm_def memcached_fm_def remote_def fd_client_def hash_find_def client_get_def
        memcached_content_def sim_stored_def)
  have "fm_core memcached_owns (memcached_ok sim_stored) memcached_demands stored_fm"
    by (auto simp: fm_core_def stored_fm_def memcached_fm_def single_client machine0_def set_resident_def set_buf_def
        memcached_ok_def memcached_owns_def sim_stored_def ones_def zero_page_def MAP_FAILED_def split: if_splits)
  then have "memcached_inv sim_stored stored_fm"
    by (simp add: fm_inv_def lru_resident_def lru_wf_def stored_fm_def memcached_fm_def)
  then show ?thesis
    using memcached_failed_read_zeroes [OF sim_kernel_ok, of "memcached_env\<lparr>e_backend := memcached_backend down_memcached\<rparr>"
        down_memcached 7 sim_stored stored_fm ?c 12288 ones MEMCACHED_SERVER_TEMPORARILY_DISABLED "mc_state ?c"]
      f sim_kernel_stable
    by (auto simp: down_memcached_def page_aligned_def stored_fm_def memcached_fm_def set_resident_def set_buf_def machine0_def)
qed

text \<open>
  C34. A read of many keys closes the gaps. The values of the keys that are stored arrive one after the
  other and are put into the buffers from the first on: if a key is missing, every later value is in
  the buffer, and has the length, of an earlier key. The answers belong to their keys only if no key
  is missing, or only the last ones are.
\<close>

theorem memcached_multiRead_closes_gaps:
  assumes "memcached_fetching L stored shortage pending" "memcached_ok stored M c"
    and "\<forall>h \<in> set hs. wide_key h" "length hs = n" "n \<le> length (hashcodeStrings c)" "length recvBufs = n" "length lengths = n"
    and "distinct recvBufs" "\<forall>b \<in> set recvBufs. \<exists>old. bufs M b = Some old \<and> length old = 4096"
    and "found = List.map_filter (memcached_content stored M c) hs"
  shows "\<exists>s1 M' c'. readPages_top (memcached_backend L) hs (int n) (M, c) = Some s1
    \<and> readPages_bottom (memcached_backend L) hs (int n) recvBufs lengths s1
        = Some (0, recvBufs, replicate (length found) 4096 @ replicate (n - length found) 0, M', c')
    \<and> (\<forall>j < n. bufs M' (recvBufs ! j) = (if j < length found then Some (found ! j) else bufs M (recvBufs ! j)))"
  using memcached_fetching.multiRead [OF assms] by (simp add: readPages_top_def readPages_bottom_def memcached_backend_def)

theorem memcached_multiRead_closes_gaps_witness:
  "\<exists>s1 M' c'. readPages_top (memcached_backend sim_memcached) [0x7f0000001000, 0x7f0000002000] 2
      (set_buf 65536 (Some zero_page) (set_buf 131072 (Some zero_page) machine0),
       \<lparr>mc_state = (0, [hex 0x7f0000002000 \<mapsto> ones], []), hashcodeStrings = replicate 200 [], mc_reported = False\<rparr>) = Some s1
    \<and> readPages_bottom (memcached_backend sim_memcached) [0x7f0000001000, 0x7f0000002000] 2 [65536, 131072] [0, 0] s1
        = Some (0, [65536, 131072], [4096, 0], M', c')
    \<and> bufs M' 65536 = Some ones"
proof -
  let ?M = "set_buf 65536 (Some zero_page) (set_buf 131072 (Some zero_page) machine0)"
  let ?c = "\<lparr>mc_state = (0 :: nat, [hex 0x7f0000002000 \<mapsto> ones], []), hashcodeStrings = replicate 200 [], mc_reported = False\<rparr>"
  let ?hs = "[0x7f0000001000, 0x7f0000002000] :: u64 list"
  have ne: "hex 0x7f0000001000 \<noteq> hex 0x7f0000002000" using hex_inj by fastforce
  then have f: "[ones] = List.map_filter (memcached_content sim_stored ?M ?c) ?hs"
    by (simp add: List.map_filter_def memcached_content_def sim_stored_def)
  have h: "memcached_ok sim_stored ?M ?c" "\<forall>h \<in> set ?hs. wide_key h"
    "\<forall>b \<in> set [65536, 131072]. \<exists>old. bufs ?M b = Some old \<and> length old = 4096"
    by (simp_all add: memcached_ok_def sim_stored_def wide_key_def ones_def zero_page_def set_buf_def)
  obtain s1 M' c' where r: "readPages_top (memcached_backend sim_memcached) ?hs 2 (?M, ?c) = Some s1"
    "readPages_bottom (memcached_backend sim_memcached) ?hs 2 [65536, 131072] [0, 0] s1
        = Some (0, [65536, 131072], [4096, 0], M', c')"
    "\<forall>j < 2. bufs M' ([65536, 131072] ! j) = (if j < length [ones] then Some ([ones] ! j) else bufs ?M ([65536, 131072] ! j))"
    using memcached_multiRead_closes_gaps [OF sim_mc.memcached_fetching_axioms h(1,2) _ _ _ _ _ h(3) f, of 2 "[0, 0]"] by auto
  have "bufs M' 65536 = Some ones" using r(3) [rule_format, of 0] by simp
  with r(1,2) show ?thesis by blast
qed

text \<open>
  A key with fewer than twelve digits is sent with the null byte behind it and the bytes that follow, so
  that it is not the key under which the page was stored; an address above the twelve digits overruns
  the buffer of the write; and the removal of a page never gives a result.
\<close>

lemma short_key_differs:
  assumes "unat h < 16 ^ 11" "length strs = MAX_MULTI_READ" "buildHashStrings [h] [0] strs = Some strs'"
  shows "take KEYSTR_LEN (strs' ! 0) \<noteq> hex (unat h)"
proof -
  have "length (hex (unat h)) < 12" using length_hex [of "unat h" 10] assms(1) by simp
  moreover from this have "CHR 0x00 \<in> set (take KEYSTR_LEN (strs' ! 0))"
    using assms by (auto simp: key_string_def Let_def MAX_MULTI_READ_def KEYSTR_LEN_def take_Cons' split: if_splits)
  ultimately show ?thesis using hex_no_nul by metis
qed

lemma long_key_overruns: "\<not> unat k < 16 ^ 12 \<Longrightarrow> memcached_write L k v sz s = None"
  by (simp add: memcached_write_def KEYSTR_LEN_def key_string_long split: prod.split)

lemma remove_undefined: "removePage (memcached_backend L) k s = None"
  by (simp add: removePage_def memcached_backend_def memcached_remove_def bind_eq_None_conv split: prod.split)

end
