(* ===== verification/RAMCloud_Props.thy ===== *)
theory RAMCloud_Props
  imports RAMCloud Memcached_Props
begin

text \<open>
  The monitor over RAMCloud. The locale \<open>ramcloud_reading\<close> is what is relied on of the reads of the
  library: an object comes in one chunk of the memory the library owns, its pool. With servers that
  accept every write, \<open>ramcloud_server\<close>, the contract of a store follows. The other theorems are on
  servers that reject a write, and on reads of many objects.
\<close>

section \<open>One page at a time\<close>

definition ramcloud_content ::
  "('r \<Rightarrow> u64 \<Rightarrow> u64 \<Rightarrow> u8 list option) \<Rightarrow> machine \<Rightarrow> 'r ramcloud_client \<Rightarrow> u64 \<Rightarrow> page option" where
  "ramcloud_content stored M c k = stored (rc_state c) (tableId c) k"

definition ramcloud_owns :: "('r \<Rightarrow> ptr set) \<Rightarrow> 'r ramcloud_client \<Rightarrow> ptr set" where
  "ramcloud_owns pool c = pool (rc_state c)"

definition pool_ok :: "ptr set \<Rightarrow> machine \<Rightarrow> bool" where
  "pool_ok P M \<longleftrightarrow> (\<forall>p \<in> P. bufs M p \<noteq> None \<and> p \<noteq> NULL)"

text \<open>The table that is written is the table that is read, and it holds pages.\<close>

definition ramcloud_ok :: "rc_config \<Rightarrow> ('r \<Rightarrow> u64 \<Rightarrow> u64 \<Rightarrow> u8 list option) \<Rightarrow> ('r \<Rightarrow> ptr set)
     \<Rightarrow> machine \<Rightarrow> 'r ramcloud_client \<Rightarrow> bool" where
  "ramcloud_ok C stored pool M c \<longleftrightarrow> write_table C c = tableId c \<and> pool_ok (pool (rc_state c)) M
     \<and> (\<forall>k v. stored (rc_state c) (tableId c) k = Some v \<longrightarrow> length v = 4096)"

definition ramcloud_demands :: demands where
  "ramcloud_demands = \<lparr>key_ok = (\<lambda>k. True), page_ok = (\<lambda>pg. length pg = 4096), copies = False\<rparr>"

lemma ramcloud_demands_simps [simp]:
  "key_ok ramcloud_demands k" "page_ok ramcloud_demands pg \<longleftrightarrow> length pg = 4096" "\<not> copies ramcloud_demands"
  by (simp_all add: ramcloud_demands_def)

lemma rc_report_simps [simp]:
  "rc_state (rc_report b c) = rc_state c" "tableId (rc_report b c) = tableId c" "RCBuf (rc_report b c) = RCBuf c"
  "write_table C (rc_report b c) = write_table C c" "rc_reported (rc_report b c) \<longleftrightarrow> rc_reported c \<or> b"
  by (simp_all add: rc_report_def write_table_def)

lemma write_table_state [simp]: "write_table C (c\<lparr>rc_state := r\<rparr>) = write_table C c"
  "write_table C (c\<lparr>RCBuf := cs\<rparr>) = write_table C c"
  by (simp_all add: write_table_def)

locale ramcloud_reading =
  fixes L :: "'r ramcloud_lib"
    and stored :: "'r \<Rightarrow> u64 \<Rightarrow> u64 \<Rightarrow> u8 list option"
    and pool :: "'r \<Rightarrow> ptr set"
  assumes peek_law: "rc_peek L [(p, n)] = (int n, p)"
    and read_law: "rc_read L t k cs (M, r) = (e, cs', M', r') \<Longrightarrow> pool_ok (pool r) M \<Longrightarrow>
      stored r' = stored r \<and> resident M' = resident M \<and> pool_ok (pool r') M'
      \<and> (\<forall>p. p \<notin> pool r \<longrightarrow> p \<notin> pool r' \<longrightarrow> bufs M' p = bufs M p)
      \<and> (\<forall>p \<in> pool r' - pool r. bufs M p = None \<and> p \<noteq> MAP_FAILED)
      \<and> (case stored r t k of None \<Rightarrow> e = Some (ClientException (rc_doesnt_exist L))
         | Some v \<Rightarrow> e = None \<and> (\<exists>p \<in> pool r'. cs' = [(p, length v)] \<and> bufs M' p = Some v))"
begin

lemma read_page:
  assumes "ramcloud_ok C stored pool M c"
  shows "\<exists>len v' M' c'. ramcloud_read L k v (M, c) = Some (len, v', M', c') \<and> ramcloud_ok C stored pool M' c'
    \<and> ramcloud_content stored M' c' = ramcloud_content stored M c \<and> resident M' = resident M
    \<and> (\<forall>p. p \<notin> ramcloud_owns pool c \<longrightarrow> p \<notin> ramcloud_owns pool c' \<longrightarrow> bufs M' p = bufs M p)
    \<and> (\<forall>p \<in> ramcloud_owns pool c' - ramcloud_owns pool c. bufs M p = None \<and> p \<noteq> MAP_FAILED)
    \<and> (case ramcloud_content stored M c k of None \<Rightarrow> len = 0 \<and> v' = v | Some pg \<Rightarrow> len = 4096 \<and> bufs M' v' = Some pg)"
proof -
  obtain e cs' M' r' where g: "rc_read L (tableId c) k (RCBuf c) (M, rc_state c) = (e, cs', M', r')" by (metis prod_cases4)
  have "pool_ok (pool (rc_state c)) M" using assms by (simp add: ramcloud_ok_def)
  note law = read_law [OF g this]
  let ?c = "rc_report (read_reports L e) (c\<lparr>rc_state := r', RCBuf := cs'\<rparr>)"
  have keep: "ramcloud_ok C stored pool M' ?c" "ramcloud_content stored M' ?c = ramcloud_content stored M c"
    using assms law by (simp_all add: ramcloud_ok_def ramcloud_content_def fun_eq_iff)
  show ?thesis
  proof (cases "ramcloud_content stored M c k")
    case None
    then obtain x where "e = Some x" using law by (auto simp: ramcloud_content_def)
    then have "ramcloud_read L k v (M, c) = Some (0, v, M', ?c)" using g by (simp add: ramcloud_read_def)
    then show ?thesis using keep None law by (simp add: ramcloud_owns_def)
  next
    case (Some pg)
    then obtain p where p: "e = None" "cs' = [(p, length pg)]" "bufs M' p = Some pg" and len: "length pg = 4096"
      using law assms by (auto simp: ramcloud_content_def ramcloud_ok_def)
    then have "ramcloud_read L k v (M, c) = Some (4096, p, M', ?c)"
      using g by (simp add: ramcloud_read_def take_object_def peek_law)
    then show ?thesis using keep Some law p(3) by (simp add: ramcloud_owns_def)
  qed
qed

text \<open>A write the servers reject with a code that is not negative.\<close>

lemma rejected_write:
  assumes "ramcloud_ok C stored pool M c" "bufs M v = Some pg" "length pg = 4096"
    and "rc_write L (write_table C c) k pg (rc_state c) = (Some x, r')" "0 \<le> exception_code x"
    and "stored r' = stored (rc_state c)" "pool r' = pool (rc_state c)"
  shows "\<exists>c' len b' M' c''. writePage (ramcloud_backend C L) k v (M, c) = Some (NULL, M, c')
    \<and> er_reported (ramcloud_backend C L) c'
    \<and> readPage (ramcloud_backend C L) k b (M, c') = Some (len, b', M', c'')
    \<and> (case ramcloud_content stored M c k of None \<Rightarrow> len = 0 | Some old \<Rightarrow> len = 4096 \<and> bufs M' b' = Some old)"
proof -
  let ?c = "rc_report True (c\<lparr>rc_state := r'\<rparr>)"
  have "writePage (ramcloud_backend C L) k v (M, c) = Some (NULL, M, ?c)"
    using assms(2-5) by (simp add: writePage_def writePage_loop.simps ramcloud_backend_def ramcloud_write_def)
  moreover have "ramcloud_ok C stored pool M ?c" using assms(1,6,7) by (simp add: ramcloud_ok_def)
  from read_page [OF this, of k b] obtain len b' M' c'' where
    "ramcloud_read L k b (M, ?c) = Some (len, b', M', c'')"
    "case ramcloud_content stored M ?c k of None \<Rightarrow> len = 0 \<and> b' = b | Some pg \<Rightarrow> len = 4096 \<and> bufs M' b' = Some pg"
    by blast
  moreover have "ramcloud_content stored M ?c = ramcloud_content stored M c"
    using assms(6) by (simp add: ramcloud_content_def fun_eq_iff)
  ultimately show ?thesis
    by (intro exI [of _ ?c] exI [of _ len] exI [of _ b'] exI [of _ M'] exI [of _ c''])
      (simp add: readPage_def ramcloud_backend_def split: option.splits)
qed

end

locale ramcloud_server = ramcloud_reading +
  assumes write_law: "rc_write L t k v r = (e, r') \<Longrightarrow>
      e = None \<and> stored r' = (stored r)(t := (stored r t)(k \<mapsto> v)) \<and> pool r' = pool r"
begin

lemma write_page:
  assumes "ramcloud_ok C stored pool M c" "length pg = 4096" "bufs M v = Some pg"
  shows "\<exists>c'. ramcloud_write C L k v 4096 (M, c) = Some (v, 0, M, c') \<and> ramcloud_ok C stored pool M c'
    \<and> ramcloud_content stored M c' = (ramcloud_content stored M c)(k \<mapsto> pg) \<and> ramcloud_owns pool c' = ramcloud_owns pool c"
proof -
  obtain e r' where w: "rc_write L (write_table C c) k pg (rc_state c) = (e, r')" by fastforce
  note law = write_law [OF w]
  have t: "write_table C c = tableId c" using assms(1) by (simp add: ramcloud_ok_def)
  have "ramcloud_write C L k v 4096 (M, c) = Some (v, 0, M, c\<lparr>rc_state := r'\<rparr>)"
    using w law assms(2,3) by (simp add: ramcloud_write_def)
  moreover have "ramcloud_ok C stored pool M (c\<lparr>rc_state := r'\<rparr>)"
    using assms(1,2) law t by (auto simp: ramcloud_ok_def)
  moreover have "ramcloud_content stored M (c\<lparr>rc_state := r'\<rparr>) = (ramcloud_content stored M c)(k \<mapsto> pg)"
    using law t by (simp add: ramcloud_content_def fun_eq_iff)
  ultimately show ?thesis using law by (auto simp: ramcloud_owns_def)
qed

end

sublocale ramcloud_server \<subseteq> rc: extern_ram K "ramcloud_backend C L" "ramcloud_content stored" "ramcloud_owns pool"
  "ramcloud_ok C stored pool" ramcloud_demands for K C
proof unfold_locales
  fix M :: machine and c :: "'a ramcloud_client" and k v pg
  assume "ramcloud_ok C stored pool M c" "page_ok ramcloud_demands pg" "bufs M v = Some pg" "v \<notin> ramcloud_owns pool c"
  then show "\<exists>ret c'. er_write (ramcloud_backend C L) k v 4096 (M, c) = Some (ret, 0, M, c') \<and> ramcloud_ok C stored pool M c'
      \<and> ramcloud_content stored M c' = (ramcloud_content stored M c)(k \<mapsto> pg)
      \<and> ramcloud_owns pool c' \<subseteq> insert v (ramcloud_owns pool c)
      \<and> (ret \<noteq> NULL \<longrightarrow> ret \<in> insert v (ramcloud_owns pool c) \<and> ret \<notin> ramcloud_owns pool c')"
    using write_page [of C M c pg v k] by (auto simp: ramcloud_backend_def)
next
  fix M :: machine and c :: "'a ramcloud_client" and k v
  assume "ramcloud_ok C stored pool M c"
  from read_page [OF this, of k v]
  show "\<exists>len v' M' c'. er_read (ramcloud_backend C L) k v (M, c) = Some (len, v', M', c') \<and> ramcloud_ok C stored pool M' c'
      \<and> ramcloud_content stored M' c' = ramcloud_content stored M c \<and> resident M' = resident M
      \<and> (\<forall>p. p \<notin> ramcloud_owns pool c \<longrightarrow> p \<notin> ramcloud_owns pool c' \<longrightarrow> copies ramcloud_demands \<and> p = v \<or> bufs M' p = bufs M p)
      \<and> (\<forall>p \<in> ramcloud_owns pool c' - ramcloud_owns pool c. bufs M p = None \<and> p \<noteq> MAP_FAILED)
      \<and> (copies ramcloud_demands \<longrightarrow> v' = v \<and> (\<exists>new. bufs M' v = Some new \<and> page_ok ramcloud_demands new))
      \<and> (case ramcloud_content stored M c k of None \<Rightarrow> len = 0 | Some pg \<Rightarrow> len = 4096 \<and> bufs M' v' = Some pg)"
  proof (elim exE conjE)
    fix len v' M' c'
    assume "ramcloud_read L k v (M, c) = Some (len, v', M', c')" "ramcloud_ok C stored pool M' c'"
      "ramcloud_content stored M' c' = ramcloud_content stored M c" "resident M' = resident M"
      "\<forall>p. p \<notin> ramcloud_owns pool c \<longrightarrow> p \<notin> ramcloud_owns pool c' \<longrightarrow> bufs M' p = bufs M p"
      "\<forall>p \<in> ramcloud_owns pool c' - ramcloud_owns pool c. bufs M p = None \<and> p \<noteq> MAP_FAILED"
      "case ramcloud_content stored M c k of None \<Rightarrow> len = 0 \<and> v' = v | Some pg \<Rightarrow> len = 4096 \<and> bufs M' v' = Some pg"
    then show ?thesis
      by (intro exI [of _ len] exI [of _ v'] exI [of _ M'] exI [of _ c'])
        (simp add: ramcloud_backend_def split: option.splits)
  qed
qed (auto simp: ramcloud_owns_def ramcloud_ok_def pool_ok_def ramcloud_content_def zero_page_def)

context ramcloud_server
begin

lemmas events_refine = rc.run_events_refine

end

section \<open>Reads of many objects\<close>

lemma take_objects_all:
  assumes "length rs = n" "length hs = n" "length bs = n" "length ls = n" "i \<le> n"
  shows "take_objects True hs rs [i..<n] bs ls =
    (if \<forall>x \<in> set (drop i rs). fst x = 0
     then Some (take i bs @ map (fst \<circ> snd) (drop i rs), take i ls @ map (sint \<circ> snd \<circ> snd) (drop i rs)) else None)"
  using assms(3-5)
proof (induction "n - i" arbitrary: i bs ls)
  case 0
  then show ?case using assms(1) by simp
next
  case (Suc m)
  then have i: "i < n" "m = n - Suc i" by simp_all
  obtain st p k where x: "rs ! i = (st, p, k)" by (metis prod_cases3)
  have d: "drop i rs = (st, p, k) # drop (Suc i) rs" using i(1) assms(1) x by (metis Cons_nth_drop_Suc)
  have ih: "take_objects True hs rs [Suc i..<n] (bs[i := p]) (ls[i := sint k]) =
    (if \<forall>x \<in> set (drop (Suc i) rs). fst x = 0
     then Some (take (Suc i) (bs[i := p]) @ map (fst \<circ> snd) (drop (Suc i) rs),
                take (Suc i) (ls[i := sint k]) @ map (sint \<circ> snd \<circ> snd) (drop (Suc i) rs)) else None)"
    using Suc.hyps(1) [OF i(2)] Suc.prems i(1) by simp
  show ?case
    using i(1) x ih Suc.prems assms(1,2) by (simp add: upt_conv_Cons d take_Suc_conv_app_nth)
qed

lemma release_bufs: "bufs (release ps M) p = (if p \<in> set ps then None else bufs M p)"
  by (simp add: release_def)

section \<open>A library\<close>

text \<open>
  Tables with objects, read into one page of the library; a library that rejects the writes has the
  code of the exception as its argument.
\<close>

type_synonym sim_rc = "u64 \<Rightarrow> u64 \<Rightarrow> u8 list option"

definition rc_page :: ptr where
  "rc_page = 1048576"

definition sim_ramcloud :: "int option \<Rightarrow> sim_rc ramcloud_lib" where
  "sim_ramcloud reject = \<lparr>
     rc_connect = (\<lambda>locator. Some (\<lambda>_. Map.empty)),
     rc_getTableId = (\<lambda>tag r. (Inr 1, r)),
     rc_createTable = (\<lambda>tag r. (Inr 1, r)),
     rc_write = (\<lambda>t k v r. case reject of None \<Rightarrow> (None, r(t := (r t)(k \<mapsto> v))) | Some st \<Rightarrow> (Some (ClientException st), r)),
     rc_read = (\<lambda>t k cs (M, r). case r t k of None \<Rightarrow> (Some (ClientException 2), [], M, r)
        | Some v \<Rightarrow> (None, [(rc_page, length v)], set_buf rc_page (Some v) M, r)),
     rc_copy = (\<lambda>cs n p M. None),
     rc_peek = (\<lambda>cs. case cs of [] \<Rightarrow> (0, NULL) | (p, n) # _ \<Rightarrow> (int n, p)),
     rc_start = (\<lambda>t k r. (None, r)),
     rc_wait = (\<lambda>t k cs (M, r). (Some (ClientException 2), [], M, r)),
     rc_multiRead = (\<lambda>t ks (M, r). (None, map (\<lambda>k. (if r t k = None then 2 else 0, rc_page, 4096)) ks, M, r)),
     rc_multiStart = (\<lambda>t ks r. (None, r)),
     rc_multiWait = (\<lambda>t ks (M, r). (Some (ClientException 2), [], M, r)),
     rc_multiWrite = (\<lambda>t os r. (None, map (\<lambda>_. 0) os, r)),
     rc_remove = (\<lambda>t k r. (None, r(t := (r t)(k := None)))),
     rc_doesnt_exist = 2,
     rc_perfStatsAll = (\<lambda>r. Inr []),
     rc_perfStats = (\<lambda>t k r. Inr no_stats)\<rparr>"

definition rc_pool :: "sim_rc \<Rightarrow> ptr set" where
  "rc_pool r = {rc_page}"

lemma sim_ramcloud_reading: "ramcloud_reading (sim_ramcloud reject) id rc_pool"
  by unfold_locales
    (auto simp: sim_ramcloud_def rc_pool_def rc_page_def pool_ok_def set_buf_def split: option.splits prod.splits)

interpretation sim_rc: ramcloud_server "sim_ramcloud None" id rc_pool
proof -
  have "ramcloud_server_axioms (sim_ramcloud None) id rc_pool"
    by unfold_locales (auto simp: sim_ramcloud_def rc_pool_def)
  then show "ramcloud_server (sim_ramcloud None) id rc_pool"
    by (rule ramcloud_server.intro [OF sim_ramcloud_reading])
qed

abbreviation ramcloud_inv :: "rc_config \<Rightarrow> ('r \<Rightarrow> u64 \<Rightarrow> u64 \<Rightarrow> u8 list option) \<Rightarrow> ('r \<Rightarrow> ptr set)
     \<Rightarrow> 'r ramcloud_client fm \<Rightarrow> bool" where
  "ramcloud_inv C stored pool \<equiv> fm_inv (ramcloud_owns pool) (ramcloud_ok C stored pool) ramcloud_demands"

definition rc_plain :: rc_config where
  "rc_plain = \<lparr>rc_threaded_write = False, rc_multiread = False\<rparr>"

definition ramcloud_client0 :: "sim_rc ramcloud_client" where
  "ramcloud_client0 = \<lparr>rc_state = (\<lambda>_. Map.empty), tableId = 1, tableId_write = 0, tableId_multiread = 0, RCBuf = [],
     buf_for_asynread = [], read_for_asynread = None, read_for_asynmread = None, rc_reported = False\<rparr>"

definition ramcloud_env :: "sim_rc ramcloud_client env" where
  "ramcloud_env = \<lparr>e_cfg = plain_config, e_kernel = sim_kernel, e_backend = ramcloud_backend rc_plain (sim_ramcloud None),
     e_now = (0, 0), e_exit_on_recoverable = False, e_wait_ufhandler = id, e_wait_flushed = id\<rparr>"

definition ramcloud_fm :: "sim_rc ramcloud_client fm" where
  "ramcloud_fm = \<lparr>fm_lru = \<lparr>il = [new_node 4096 7, new_node 8192 7], max_num_items = 2\<rparr>, fm_stats = stats0,
     fm_pc = newPageCache 1000 10 False, fm_tio = tio_init,
     fm_map = [\<lparr>ms_fd = 7, ms_upid = 1, ms_client = 1\<rparr>],
     fm_clients = [ramcloud_client0],
     fm_mach = set_buf rc_page (Some zero_page) (set_buf 65536 (Some zero_page)
       (set_resident 7 4096 (Some ones) (set_resident 7 8192 (Some ones) machine0))),
     fm_read_tmp_page = 65536, fm_locks = {}, fm_err = False\<rparr>"

lemma ramcloud_env_simps [simp]:
  "e_cfg ramcloud_env = plain_config" "e_kernel ramcloud_env = sim_kernel"
  "e_backend ramcloud_env = ramcloud_backend rc_plain (sim_ramcloud None)"
  by (simp_all add: ramcloud_env_def)

lemma ramcloud_example:
  "ramcloud_inv rc_plain id rc_pool ramcloud_fm" "registered 7 ramcloud_fm" "max_num_items (fm_lru ramcloud_fm) = 2"
  "logical (ramcloud_content id) ramcloud_fm 7 4096 = ones"
  "logical (ramcloud_content id) ramcloud_fm 7 12288 = zero_page"
proof -
  have "fm_core (ramcloud_owns rc_pool) (ramcloud_ok rc_plain id rc_pool) ramcloud_demands ramcloud_fm"
    by (auto simp: fm_core_def ramcloud_fm_def single_client machine0_def set_resident_def set_buf_def ramcloud_ok_def
        ramcloud_client0_def write_table_def rc_plain_def pool_ok_def rc_pool_def rc_page_def
        ramcloud_owns_def ones_def zero_page_def MAP_FAILED_def split: if_splits)
  moreover have "lru_resident ramcloud_fm"
    by (auto simp: lru_resident_def ramcloud_fm_def lru_wf_def node_resident_def registered_def
        demo_keys node_ok_def set_resident_def set_buf_def)
  ultimately show "ramcloud_inv rc_plain id rc_pool ramcloud_fm" by (simp add: fm_inv_def ramcloud_fm_def)
  show "registered 7 ramcloud_fm" "max_num_items (fm_lru ramcloud_fm) = 2"
    by (simp_all add: registered_def ramcloud_fm_def)
  show "logical (ramcloud_content id) ramcloud_fm 7 4096 = ones"
    "logical (ramcloud_content id) ramcloud_fm 7 12288 = zero_page"
    by (simp_all add: logical_def ramcloud_fm_def set_resident_def set_buf_def machine0_def remote_def fd_client_def
      hash_find_def client_get_def ramcloud_content_def ramcloud_client0_def)
qed

section \<open>Theorems\<close>

text \<open>
  C4. Over RAMCloud too the applications see a plain memory. In the build without page cache and
  threads, with servers that accept every write and a library that hands out an object in one chunk of
  its own memory, every sequence of loads, stores of whole pages and faults on pages of registered
  descriptors completes, if the LRU buffer is bounded by two pages or more; the loads answer, and the
  contents are in the end, as those of the abstract memory, although the monitor is given the memory of
  the library, which the next read overwrites.
\<close>

theorem ramcloud_refinement:
  assumes "ramcloud_server L stored pool"
    and "kernel_ok K" "e_kernel E = K" "e_backend E = ramcloud_backend C L" "e_cfg E = plain_config"
    and "\<And>f. region_stable K f" "ramcloud_inv C stored pool s"
    and "\<forall>e \<in> set es. event_ok s e \<and> event_fits ramcloud_demands e" "2 \<le> max_num_items (fm_lru s)"
  shows "\<exists>out s'. run_events E es s = Some (out, s') \<and> ramcloud_inv C stored pool s'
    \<and> mem_run es (logical (ramcloud_content stored) s) = (out, logical (ramcloud_content stored) s')"
  by (rule ramcloud_server.events_refine [OF assms])

theorem ramcloud_refinement_witness:
  "map_option fst (run_events ramcloud_env demo_events ramcloud_fm) = Some [ones, ones, zero_page]"
proof -
  have "list_all (\<lambda>e. event_ok ramcloud_fm e \<and> event_fits ramcloud_demands e) demo_events"
    by (simp add: demo_events_def event_ok_def event_fits_def ramcloud_example page_aligned_def ones_def zero_page_def)
  then show ?thesis
    using ramcloud_refinement [OF sim_rc.ramcloud_server_axioms sim_kernel_ok _ _ _ sim_kernel_stable ramcloud_example(1),
        of ramcloud_env demo_events]
    by (auto simp: list_all_iff demo_events_def ramcloud_example)
qed

text \<open>
  C32. A page whose write RAMCloud rejects with a code that is not negative is lost. Only a negative code
  makes \<^verbatim>\<open>writePage\<close> try again: it returns at once, with the null pointer, which is also what a store
  returns that has taken the buffer over. The client has reported the error, which ends the monitor; a
  read before that gives what was stored before, or that there is nothing, and not the page.
\<close>

theorem ramcloud_rejected_write_lost:
  assumes "ramcloud_reading L stored pool" "ramcloud_ok C stored pool M c" "bufs M v = Some pg" "length pg = 4096"
    and "rc_write L (write_table C c) k pg (rc_state c) = (Some x, r')" "0 \<le> exception_code x"
    and "stored r' = stored (rc_state c)" "pool r' = pool (rc_state c)"
  shows "\<exists>c' len b' M' c''. writePage (ramcloud_backend C L) k v (M, c) = Some (NULL, M, c')
    \<and> er_reported (ramcloud_backend C L) c'
    \<and> readPage (ramcloud_backend C L) k b (M, c') = Some (len, b', M', c'')
    \<and> (case ramcloud_content stored M c k of None \<Rightarrow> len = 0 | Some old \<Rightarrow> len = 4096 \<and> bufs M' b' = Some old)"
  by (rule ramcloud_reading.rejected_write [OF assms])

theorem ramcloud_rejected_write_lost_witness:
  "\<exists>c' b' M' c''. writePage (ramcloud_backend rc_plain (sim_ramcloud (Some 13))) 4096 65536
      (set_buf rc_page (Some zero_page) (set_buf 65536 (Some ones) machine0), ramcloud_client0)
      = Some (NULL, set_buf rc_page (Some zero_page) (set_buf 65536 (Some ones) machine0), c')
    \<and> readPage (ramcloud_backend rc_plain (sim_ramcloud (Some 13))) 4096 65536
      (set_buf rc_page (Some zero_page) (set_buf 65536 (Some ones) machine0), c') = Some (0, b', M', c'')"
proof -
  let ?M = "set_buf rc_page (Some zero_page) (set_buf 65536 (Some ones) machine0)"
  have h: "ramcloud_ok rc_plain id rc_pool ?M ramcloud_client0" "bufs ?M 65536 = Some ones" "length ones = 4096"
    "rc_write (sim_ramcloud (Some 13)) (write_table rc_plain ramcloud_client0) 4096 ones (rc_state ramcloud_client0)
       = (Some (ClientException 13), rc_state ramcloud_client0)"
    by (simp_all add: ramcloud_ok_def rc_plain_def write_table_def ramcloud_client0_def pool_ok_def rc_pool_def rc_page_def
        set_buf_def ones_def sim_ramcloud_def)
  show ?thesis
    using ramcloud_rejected_write_lost [OF sim_ramcloud_reading h, of 65536]
    by (simp add: ramcloud_content_def ramcloud_client0_def) blast
qed

text \<open>
  C33. A read of many objects gives buffers that are gone. If one of the objects is missing, the call is
  undefined: its report takes the key for the address of a string. Otherwise every address and length is
  the one the library gave, but the objects are local to the function, and when it returns none of the
  buffers is there any more.
\<close>

theorem ramcloud_multiRead_dangling:
  assumes "rc_multiRead L (multiread_table C c) hs (M, rc_state c) = (None, rs, M1, r1)"
    and "length hs = n" "length rs = n" "length recvBufs = n" "length lengths = n"
  shows "\<exists>M' c'. readPages (ramcloud_backend C L) hs (int n) recvBufs lengths (M, c) =
      (if \<forall>x \<in> set rs. fst x = 0 then Some (map (fst \<circ> snd) rs, map (sint \<circ> snd \<circ> snd) rs, M', c') else None)
    \<and> (\<forall>p \<in> set (map (fst \<circ> snd) rs). bufs M' p = None)"
  using assms take_objects_all [of rs n hs recvBufs lengths 0]
  by (intro exI [of _ "release (map (fst \<circ> snd) rs) M1"] exI [of _ "rc_report (objects_report n rs) (c\<lparr>rc_state := r1\<rparr>)"])
    (simp add: readPages_def ramcloud_backend_def ramcloud_multiRead_def release_bufs)

theorem ramcloud_multiRead_dangling_witness:
  "\<exists>M' c'. readPages (ramcloud_backend rc_plain (sim_ramcloud None)) [4096] 1 [0] [0]
      (set_buf rc_page (Some ones) machine0, ramcloud_client0\<lparr>rc_state := (\<lambda>_. [4096 \<mapsto> ones])\<rparr>)
      = Some ([rc_page], [4096], M', c') \<and> bufs M' rc_page = None"
  using ramcloud_multiRead_dangling [of "sim_ramcloud None" rc_plain
      "ramcloud_client0\<lparr>rc_state := (\<lambda>_. [4096 \<mapsto> ones])\<rparr>" "[4096]" "set_buf rc_page (Some ones) machine0"
      "[(0, rc_page, 4096)]" "set_buf rc_page (Some ones) machine0" "\<lambda>_. [4096 \<mapsto> ones]" 1 "[0]" "[0]"]
  by (simp add: sim_ramcloud_def)

text \<open>
  A write of many objects reports success whatever the status of each of them is; and of the servers
  without a log the search for a full one passes over none: it stops at the first.
\<close>

lemma multiWrite_ignores_status:
  assumes "write_objects hs data lengths [0..<n] M = Some objects"
    and "rc_multiWrite L (write_table C c) objects (rc_state c) = (None, statuses, r')"
  shows "writePages (ramcloud_backend C L) hs (int n) data lengths (M, c) = Some (True, data, M, rc_report False (c\<lparr>rc_state := r'\<rparr>))"
  using assms by (simp add: writePages_def writePages_loop.simps ramcloud_backend_def ramcloud_multiWrite_def)

lemma isFullAll_stops:
  "isFullAll_loop sts ret \<longleftrightarrow>
     ret \<or> (\<exists>st \<in> set (takeWhile (\<lambda>st. logSizeBytes st \<noteq> 0) sts). logSizeBytes st \<le> logUsedBytes st)"
  by (induction sts arbitrary: ret) auto

lemma getUsage_loop_servers:
  "length (getUsage_loop sts us) = length us + length (filter (\<lambda>st. logSizeBytes st \<noteq> 0) sts)"
  by (induction sts arbitrary: us) auto

end
