(* ===== verification/Monitor_Main.thy ===== *)
theory Monitor_Main
  imports Interface_Props Monitor_Handover Handover
begin

text \<open>
  The process of \<^verbatim>\<open>monitor/monitor.c\<close> from its start to its end: the command line, the set-up of the
  shared state and of the threads, and the main thread with the connections of the applications. The
  answers of the system calls are arguments. The build has neither timing nor the
  threads that prepare pages.
\<close>

section \<open>The command line\<close>

definition MAX_ZK_STRING_LEN :: nat where
  "MAX_ZK_STRING_LEN = 22"

text \<open>The address of Zookeeper is \<open>None\<close> if the buffer for it holds no end of string.\<close>

record options =
  opt_cache_size :: int
  opt_page_cache_size :: int
  opt_prefetch_size :: int
  opt_enable_prefetch :: int
  is_test_readahead :: bool
  opt_print_info :: bool
  opt_exit_on_recoverable_error :: bool
  zookeeperConn :: "string option"

definition default_options :: options where
  "default_options = \<lparr>opt_cache_size = 20000, opt_page_cache_size = 1000, opt_prefetch_size = 10,
     opt_enable_prefetch = 0, is_test_readahead = False, opt_print_info = False,
     opt_exit_on_recoverable_error = False, zookeeperConn = Some ''10.0.1.1:2181''\<rparr>"

definition is_option :: "string \<Rightarrow> string \<Rightarrow> bool" where
  "is_option name arg \<longleftrightarrow> take (length name) arg = name"

definition option_number :: "string \<Rightarrow> string \<Rightarrow> int option" where
  "option_number name arg = atoi (drop (length name) arg)"

definition copy_conn :: "string \<Rightarrow> string option" where
  "copy_conn v = (if length v < MAX_ZK_STRING_LEN then Some v else None)"

text \<open>An argument that is no option is skipped; a number that does not fit is undefined.\<close>

definition parse_option :: "config \<Rightarrow> string \<Rightarrow> options \<Rightarrow> options option" where
  "parse_option C arg os =
     (if is_option ''--cache_size='' arg
      then map_option (\<lambda>n. os\<lparr>opt_cache_size := n\<rparr>) (option_number ''--cache_size='' arg)
      else if PAGECACHE C \<and> is_option ''--page_cache_size='' arg
      then map_option (\<lambda>n. os\<lparr>opt_page_cache_size := n\<rparr>) (option_number ''--page_cache_size='' arg)
      else if PAGECACHE C \<and> is_option ''--prefetch_size='' arg
      then map_option (\<lambda>n. os\<lparr>opt_prefetch_size := n\<rparr>) (option_number ''--prefetch_size='' arg)
      else if PAGECACHE C \<and> is_option ''--enable_prefetch='' arg
      then map_option (\<lambda>n. os\<lparr>opt_enable_prefetch := n\<rparr>) (option_number ''--enable_prefetch='' arg)
      else if PAGECACHE C \<and> is_option ''--test_readahead'' arg then Some (os\<lparr>is_test_readahead := True\<rparr>)
      else if is_option ''--zookeeper='' arg
      then Some (os\<lparr>zookeeperConn := copy_conn (drop (length ''--zookeeper='') arg)\<rparr>)
      else if is_option ''--print_info'' arg then Some (os\<lparr>opt_print_info := True\<rparr>)
      else if is_option ''--exit-on-recoverable-error'' arg then Some (os\<lparr>opt_exit_on_recoverable_error := True\<rparr>)
      else Some os)"

fun parse_options :: "config \<Rightarrow> string list \<Rightarrow> options \<Rightarrow> options option" where
  "parse_options C [] os = Some os"
| "parse_options C (arg # args) os = Option.bind (parse_option C arg os) (parse_options C args)"

section \<open>Start and end\<close>

text \<open>The threads are started in turn; the first that cannot be started ends the process with its error.\<close>

fun start_threads :: "(thread \<Rightarrow> int) \<Rightarrow> thread list \<Rightarrow> thread list \<Rightarrow> int \<times> thread list" where
  "start_threads create [] started = (0, started)"
| "start_threads create (t # ts) started =
     (if create t \<noteq> 0 then (create t, started) else start_threads create ts (started @ [t]))"

definition monitor_threads :: "config \<Rightarrow> bool \<Rightarrow> thread list" where
  "monitor_threads C reaper =
     (if THREADED_WRITE_TO_EXTERNRAM C then [Write_thread] else [])
     @ (if THREADED_PREFETCH C then [Prefetch_thread] else [])
     @ (if reaper then [Reaper_thread] else []) @ [Ui_thread, Main_thread]"

text \<open>The answers of the system to the start: memory, the event descriptor, the socket, the threads.\<close>

record start_env =
  se_reaper :: bool
  se_alloc :: bool
  se_efd :: fd
  se_server :: int
  se_create :: "thread \<Rightarrow> int"

definition init_sems :: "config \<Rightarrow> 'c fm \<Rightarrow> 'c fm" where
  "init_sems C s =
     (let s = (if THREADED_WRITE_TO_EXTERNRAM C then upd_tio (\<lambda>t. t\<lparr>writer_sem := 0\<rparr>) s else s);
          s = (if THREADED_PREFETCH C then upd_tio (\<lambda>t. t\<lparr>prefetcher_sem := 0\<rparr>) s else s)
      in if THREADED_WRITE_TO_EXTERNRAM C \<or> THREADED_PREFETCH C then upd_tio (\<lambda>t. t\<lparr>ufhandler_sem := 0\<rparr>) s else s)"

text \<open>
  \<open>main_setup\<close> is \<^verbatim>\<open>main\<close> up to its waiting loop: the result is the code it returns with, or \<open>None\<close> when it
  goes on to wait, the threads that run, the options, and the state. The handler that the report of an
  error runs cancels threads that may not exist yet; what comes of that is left out. The result of \<^verbatim>\<open>create_buffers\<close> is not
  looked at, and the polling thread runs before the semaphores are set.
\<close>

definition main_setup :: "'c env \<Rightarrow> start_env \<Rightarrow> string list \<Rightarrow> ('c, 'z) monitor
     \<Rightarrow> (int option \<times> thread list \<times> options \<times> ('c, 'z) monitor) option" where
  "main_setup E A argv m =
     (if length argv < 2 then Some (Some 0, [], default_options, upd_fm log_err m)
      else do {
        os \<leftarrow> parse_options (e_cfg E) (drop 2 argv) default_options;
        let s = snd (create_buffers E (opt_cache_size os) (opt_page_cache_size os) (opt_prefetch_size os)
                  (opt_enable_prefetch os \<noteq> 0) (upd_stats (MonitorStatsInit (e_now E)) (mo_fm m)));
        (rc, v, st) \<leftarrow> init_poll_list (se_alloc A) (se_efd A) (mo_poll m) (fm_stats s);
        let m = m\<lparr>mo_fm := s\<lparr>fm_stats := st\<rparr>, mo_poll := v\<rparr>;
        if rc < 0 then Some (Some rc, [], os, m)
        else if se_server A < 0 then Some (Some (se_server A), [], os, upd_fm log_err m)
        else if se_create A Polling_thread \<noteq> 0
        then Some (Some (se_create A Polling_thread), [], os, upd_fm log_err m)
        else do {
          let m = upd_fm (init_sems (e_cfg E)) m;
          let (rc, started) = start_threads (se_create A) (monitor_threads (e_cfg E) (se_reaper A)) [Polling_thread];
          Some (if rc \<noteq> 0 then (Some rc, started, os, upd_fm log_err m) else (None, started, os, m))
        }
      })"

text \<open>The end of \<^verbatim>\<open>main\<close>, once \<^verbatim>\<open>toEnd\<close> is set.\<close>

definition main_end :: "'c env \<Rightarrow> ('c, 'z) monitor \<Rightarrow> (int \<times> ('c, 'z) monitor) option" where
  "main_end E m = map_option (\<lambda>s. (0, m\<lparr>mo_fm := s\<rparr>)) (clean_up_lock E (mo_fm m))"

section \<open>The main thread\<close>

text \<open>
  What \<^verbatim>\<open>epoll_wait\<close> reports: a new connection, which can be put on the list of events or not, or a message
  on one; with the result of starting the thread for it. \<open>Wait_fails\<close> is a failure of the call itself.
\<close>

datatype main_input =
    Wait_fails | Accepted | Nonblocking_fails | Epoll_fails | Received fd_message int

definition main_event :: "'c env \<Rightarrow> 'z site \<Rightarrow> string \<Rightarrow> (nat \<Rightarrow> nat) \<Rightarrow> main_input \<Rightarrow> ('c, 'z) monitor
     \<Rightarrow> (int option \<times> ('c, 'z) monitor) option" where
  "main_event E S config rnd ev m =
     (case ev of
        Wait_fails \<Rightarrow> Some (Some (- 1), upd_fm log_err m)
      | Accepted \<Rightarrow> Some (None, m)
      | Nonblocking_fails \<Rightarrow> Some (Some 1, m)
      | Epoll_fails \<Rightarrow> Some (Some (- 1), upd_fm log_err m)
      | Received msg rc \<Rightarrow> do {
          (ufd, s, z) \<leftarrow> recv_fd E S config rnd msg (mo_fm m, mo_zk m);
          m \<leftarrow> main_receive ufd rc (m\<lparr>mo_fm := s, mo_zk := z\<rparr>);
          Some (None, m)
        })"

fun main_thread :: "'c env \<Rightarrow> 'z site \<Rightarrow> string \<Rightarrow> (nat \<Rightarrow> nat) \<Rightarrow> main_input list \<Rightarrow> ('c, 'z) monitor
     \<Rightarrow> (int option \<times> ('c, 'z) monitor) option" where
  "main_thread E S config rnd [] m = Some (None, m)"
| "main_thread E S config rnd (ev # evs) m = do {
     (r, m) \<leftarrow> main_event E S config rnd ev m;
     if r = None then main_thread E S config rnd evs m else Some (r, m)
   }"

end
