(* ===== verification/Main_Props.thy ===== *)
theory Main_Props
  imports Monitor_Main
begin

text \<open>
  The life of the monitor process: the state after the start is the one the theorems on faults and on the
  polling loop begin with, a descriptor that an application sends ends on the polling list, and which
  threads the signal handler leaves running.
\<close>

section \<open>The command line\<close>

lemma digit_hex_digit: "n < 10 \<Longrightarrow> digit (hex_digit n) = Some (int n)"
proof -
  assume "n < 10"
  then have "n \<in> {0, 1, 2, 3, 4, 5, 6, 7, 8, 9}" by auto
  then show ?thesis by (auto simp: digit_def hex_digit_def Let_def)
qed

lemma digits_append:
  "list_all (\<lambda>c. digit c \<noteq> None) cs \<Longrightarrow> digits n (cs @ ds) = digits (digits n cs) ds"
  by (induction cs arbitrary: n) auto

lemma digits_decimal: "list_all (\<lambda>c. digit c \<noteq> None) (decimal n) \<and> digits 0 (decimal n) = int n"
proof (induction n rule: decimal.induct)
  case (1 n)
  show ?case
  proof (cases "n < 10")
    case True
    then show ?thesis using digit_hex_digit [of n] by (simp add: decimal.simps [of n])
  next
    case False
    have "digits 0 (decimal n) = 10 * int (n div 10) + int (n mod 10)"
      using 1 [OF False] False digit_hex_digit [of "n mod 10"] by (simp add: decimal.simps [of n] digits_append)
    also have "\<dots> = int n" by presburger
    finally show ?thesis using 1 [OF False] False digit_hex_digit [of "n mod 10"] by (simp add: decimal.simps [of n])
  qed
qed

lemma decimal_not_nil: "decimal n \<noteq> []"
  by (simp add: decimal.simps [of n])

lemma digit_plain: "digit c \<noteq> None \<Longrightarrow> \<not> is_space c \<and> c \<noteq> CHR ''-'' \<and> c \<noteq> CHR ''+''"
  by (auto simp: digit_def is_space_def)

lemma atoi_decimal: "n < 2 ^ 31 \<Longrightarrow> atoi (decimal n) = Some (int n)"
proof -
  assume n: "n < 2 ^ 31"
  obtain c cs where c: "decimal n = c # cs" using decimal_not_nil by (meson neq_Nil_conv)
  then have "\<not> is_space c \<and> c \<noteq> CHR ''-'' \<and> c \<noteq> CHR ''+''" using digits_decimal [of n] digit_plain [of c] by simp
  moreover have "digits 0 (c # cs) = int n" using digits_decimal [of n] unfolding c by blast
  ultimately show ?thesis using n unfolding atoi_def c by (simp add: Let_def)
qed

lemma parse_options_append:
  "parse_options C (as @ bs) os = Option.bind (parse_options C as os) (parse_options C bs)"
proof (induction as arbitrary: os)
  case (Cons a as)
  then show ?case by (cases "parse_option C a os") simp_all
qed simp

text \<open>The last \<^verbatim>\<open>--cache_size\<close> decides.\<close>

lemma parse_cache_size:
  assumes "n < 2 ^ 31" "parse_options C args default_options = Some os"
  shows "parse_options C (args @ [''--cache_size='' @ decimal n]) default_options = Some (os\<lparr>opt_cache_size := int n\<rparr>)"
  using assms atoi_decimal [of n]
  by (simp add: parse_options_append parse_option_def is_option_def option_number_def)

section \<open>The start\<close>

lemma start_threads_all: "\<forall>t. create t = 0 \<Longrightarrow> start_threads create ts started = (0, started @ ts)"
  by (induction ts arbitrary: started) auto

lemma init_sems_frame:
  "fm_lru (init_sems C s) = fm_lru s" "fm_map (init_sems C s) = fm_map s" "fm_clients (init_sems C s) = fm_clients s"
  "fm_mach (init_sems C s) = fm_mach s" "fm_locks (init_sems C s) = fm_locks s" "fm_stats (init_sems C s) = fm_stats s"
  by (simp_all add: init_sems_def upd_tio_def Let_def)

lemma create_buffers_frame:
  assumes "kernel_ok (e_kernel E)" "bufs (fm_mach s) MAP_FAILED = None"
  shows "let s' = snd (create_buffers E n pn pf b s) in fm_map s' = fm_map s \<and> fm_clients s' = fm_clients s
    \<and> fm_locks s' = {} \<and> fm_lru s' = \<lparr>il = [], max_num_items = size_of_int n\<rparr> \<and> bufs (fm_mach s') MAP_FAILED = None"
proof -
  obtain p M where m: "k_mmap (e_kernel E) (fm_mach s) = (p, M)" by fastforce
  have "bufs M MAP_FAILED = None"
    using assms(2) by (cases rule: mmap_cases [OF assms(1) m]) (auto simp: same_pages_def)
  then show ?thesis
    using m by (auto simp: create_buffers_def get_local_tmp_page_def newLRUBuffer_def put_lru_def upd_tio_def log_err_def Let_def)
qed

text \<open>With no descriptor registered the invariant is about the LRU buffer and the mutexes only.\<close>

lemma empty_inv:
  assumes "fm_map s = []" "fm_clients s = []" "fm_locks s = {}" "fm_lru s = \<lparr>il = [], max_num_items = n\<rparr>" "n < 2 ^ 31 - 2"
    and "bufs (fm_mach s) MAP_FAILED = None"
  shows "noop_inv s"
  using assms by (auto simp: fm_inv_def fm_core_def lru_resident_def lru_wf_def client_get_def unat_eq_zero)

lemma main_setup_runs:
  assumes "kernel_ok (e_kernel E)" "bufs (fm_mach (mo_fm m)) MAP_FAILED = None"
    and "se_alloc A" "se_efd A \<noteq> - 1" "0 \<le> se_server A" "\<forall>t. se_create A t = 0" "parse_options (e_cfg E) args default_options = Some os"
  shows "\<exists>m'. main_setup E A (prog # host # args) m
        = Some (None, Polling_thread # monitor_threads (e_cfg E) (se_reaper A), os, m')
    \<and> fm_map (mo_fm m') = fm_map (mo_fm m) \<and> fm_clients (mo_fm m') = fm_clients (mo_fm m) \<and> fm_locks (mo_fm m') = {}
    \<and> fm_lru (mo_fm m') = \<lparr>il = [], max_num_items = size_of_int (opt_cache_size os)\<rparr>
    \<and> bufs (fm_mach (mo_fm m')) MAP_FAILED = None \<and> pv_wf (mo_poll m') \<and> reload_addfd (mo_poll m') = se_efd A
    \<and> entries_of (mo_poll m') = [\<lparr>pfd = se_efd A, pevents = POLLIN, prevents = 0\<rparr>]"
proof -
  let ?init = "upd_stats (MonitorStatsInit (e_now E)) (mo_fm m)"
  let ?s = "snd (create_buffers E (opt_cache_size os) (opt_page_cache_size os) (opt_prefetch_size os)
    (opt_enable_prefetch os \<noteq> 0) ?init)"
  have "bufs (fm_mach ?init) MAP_FAILED = None" using assms(2) by simp
  note s = create_buffers_frame [OF assms(1) this, unfolded Let_def,
      of "opt_cache_size os" "opt_page_cache_size os" "opt_prefetch_size os" "opt_enable_prefetch os \<noteq> 0"]
  obtain v st where v: "init_poll_list True (se_efd A) (mo_poll m) (fm_stats ?s) = Some (0, v, st)" "pvs_wf (v, st)"
    "entries_of v = [\<lparr>pfd = se_efd A, pevents = POLLIN, prevents = 0\<rparr>]" "reload_addfd v = se_efd A"
    using init_poll_list_behaviour [OF assms(4), of "mo_poll m" "fm_stats ?s"] by blast
  let ?m = "upd_fm (init_sems (e_cfg E)) (m\<lparr>mo_fm := ?s\<lparr>fm_stats := st\<rparr>, mo_poll := v\<rparr>)"
  have "main_setup E A (prog # host # args) m
      = Some (None, Polling_thread # monitor_threads (e_cfg E) (se_reaper A), os, ?m)"
    using assms(3,5,6,7) v(1) by (simp add: main_setup_def start_threads_all)
  then show ?thesis using s v(2-4) by (simp add: upd_fm_def init_sems_frame pvs_wf_def upd_stats_def)
qed

section \<open>The announcement\<close>

lemma reload_fm:
  "reload ok read_ok m = Some (go, m') \<Longrightarrow> fm_map (mo_fm m') = fm_map (mo_fm m) \<and> mo_zk m' = mo_zk m"
  by (auto simp: reload_def upd_fm_def log_err_def Let_def split: if_splits Option.bind_splits)

section \<open>Theorems\<close>

text \<open>
  C18. The process starts in the state that the other theorems take for granted. If the system calls
  succeed, \<^verbatim>\<open>main\<close> reaches its waiting loop with the polling thread and the threads of the build
  running, whatever options precede a last \<^verbatim>\<open>--cache_size=n\<close>; the invariant of the monitor holds, the LRU
  buffer is empty and bounded by \<open>n\<close>, and the polling list holds the event descriptor alone.
\<close>

theorem start_up_invariant:
  assumes "kernel_ok (e_kernel E)" "fm_map (mo_fm m) = []" "fm_clients (mo_fm m) = []" "bufs (fm_mach (mo_fm m)) MAP_FAILED = None"
    and "se_alloc A" "se_efd A \<noteq> - 1" "0 \<le> se_server A" "\<forall>t. se_create A t = 0"
    and "parse_options (e_cfg E) args default_options = Some os" "n < 2 ^ 31 - 2"
  shows "\<exists>m'. main_setup E A (prog # host # args @ [''--cache_size='' @ decimal n]) m
        = Some (None, Polling_thread # monitor_threads (e_cfg E) (se_reaper A), os\<lparr>opt_cache_size := int n\<rparr>, m')
    \<and> noop_inv (mo_fm m') \<and> max_num_items (fm_lru (mo_fm m')) = n \<and> poll_ok (mo_fm m') (mo_poll m')
    \<and> watched (mo_poll m') = {#se_efd A#}"
proof -
  have "n < 2 ^ 31" using assms(10) by simp
  note parse = parse_cache_size [OF this assms(9)]
  obtain m' where m': "main_setup E A (prog # host # args @ [''--cache_size='' @ decimal n]) m
        = Some (None, Polling_thread # monitor_threads (e_cfg E) (se_reaper A), os\<lparr>opt_cache_size := int n\<rparr>, m')"
    "fm_map (mo_fm m') = []" "fm_clients (mo_fm m') = []" "fm_locks (mo_fm m') = {}"
    "fm_lru (mo_fm m') = \<lparr>il = [], max_num_items = n\<rparr>" "bufs (fm_mach (mo_fm m')) MAP_FAILED = None"
    "pv_wf (mo_poll m')" "reload_addfd (mo_poll m') = se_efd A"
    "entries_of (mo_poll m') = [\<lparr>pfd = se_efd A, pevents = POLLIN, prevents = 0\<rparr>]"
    using main_setup_runs [OF assms(1,4-8) parse, of prog host] assms(2,3,10) by auto
  then have "noop_inv (mo_fm m')" "poll_ok (mo_fm m') (mo_poll m')" "watched (mo_poll m') = {#se_efd A#}"
    using empty_inv [OF m'(2-5) assms(10) m'(6)] by (simp_all add: poll_ok_def registered_def watched_def)
  then show ?thesis using m'(1,5) by auto
qed

definition boot_monitor :: "(noop_client, string set) monitor" where
  "boot_monitor = \<lparr>mo_fm = sample_fm\<lparr>fm_map := [], fm_clients := [], fm_mach := machine0\<rparr>, mo_zk = (zk_local0, {}),
     mo_poll = unset_vector, mo_efd = 0, mo_ufd64 = 0, add_fd_lock = False,
     num_threads = - 1, mo_starting = []\<rparr>"

definition boot_env :: start_env where
  "boot_env = \<lparr>se_reaper = True, se_alloc = True, se_efd = 3, se_server = 4, se_create = (\<lambda>_. 0)\<rparr>"

theorem start_up_invariant_witness:
  "\<exists>m'. main_setup (sample_env plain_config) boot_env (''monitor'' # ''host'' # [''--print_info''] @ [''--cache_size='' @ decimal 500])
      boot_monitor = Some (None, Polling_thread # monitor_threads plain_config True,
        default_options\<lparr>opt_print_info := True, opt_cache_size := 500\<rparr>, m')
    \<and> noop_inv (mo_fm m') \<and> max_num_items (fm_lru (mo_fm m')) = 500"
proof -
  have "parse_options plain_config [''--print_info''] default_options = Some (default_options\<lparr>opt_print_info := True\<rparr>)"
    by code_simp
  then show ?thesis
    using start_up_invariant [of "sample_env plain_config" boot_monitor boot_env "[''--print_info'']"
        "default_options\<lparr>opt_print_info := True\<rparr>" 500 "''monitor''" "''host''"] sim_kernel_ok
    by (auto simp: boot_monitor_def boot_env_def machine0_def)
qed

text \<open>
  C19. A descriptor that an application sends is served. The main thread receives it, registers its
  process in Zookeeper under a fresh upid and in the map with a client of the store, and starts its
  thread; that thread announces it, and the next round of the polling loop puts it on the polling list
  and releases the mutex of the announcement.
\<close>

theorem descriptor_reaches_polling:
  assumes "zk_ok (si_zk S) nodes" "fm_locks (mo_fm m) = {}" "distinct_keys ms_fd (fm_map (mo_fm m))"
    and "control_fd (msg_control msg) (- 1) = f" "f \<notin> ms_fd ` set (fm_map (mo_fm m))" "0 < msg_res msg" "\<not> msg_ctrunc msg"
    and "\<forall>u. \<exists>c. er_create (e_backend E) ramcloud_impl config u = Some c" "Suc (length (fm_clients (mo_fm m))) < 2 ^ 64"
    and "(word_of_nat (rnd 0 mod 131072) :: u16) \<noteq> 0"
    and "c0 \<noteq> 0" "\<not> upid_known nodes (snd (mo_zk m)) (upid_pack (get_node_id (si_machine_id S)) (msg_pid msg) c0)"
    and "0 < f" "f < 2 ^ 31" "pv_wf (mo_poll m)" "0 < length (entries_of (mo_poll m))" "length (entries_of (mo_poll m)) < 2 ^ 30"
    and "mo_starting m = []" "\<not> add_fd_lock m" "mo_efd m = 0" "- 1 \<le> num_threads m" "num_threads m < MAX_THREADS - 1" "re 0 = POLLIN"
  shows "\<exists>m1 m2 m3 e. main_thread E S config rnd [Accepted, Received msg 0] m = Some (None, m1) \<and> mo_starting m1 = [f]
    \<and> new_ufd_handler f m1 = Some m2
    \<and> reload True True (m2\<lparr>mo_starting := [], mo_poll := set_revents re (mo_poll m2)\<rparr>) = Some (True, m3)
    \<and> watched (mo_poll m3) = add_mset f (watched (mo_poll m)) \<and> \<not> add_fd_lock m3
    \<and> fm_map (mo_fm m3) = fm_map (mo_fm m) @ [e] \<and> ms_fd e = f \<and> ms_client e \<noteq> NULL
    \<and> upid_known nodes (snd (mo_zk m3)) (ms_upid e) \<and> \<not> upid_known nodes (snd (mo_zk m)) (ms_upid e)"
proof -
  obtain d s z p where r: "recv_fd E S config rnd msg (mo_fm m, mo_zk m) = Some (f, s, z)" "p \<noteq> NULL"
    "\<not> upid_known nodes (snd (mo_zk m)) (upid_pack (get_node_id (si_machine_id S)) (msg_pid msg) d)"
    "upid_known nodes (snd z) (upid_pack (get_node_id (si_machine_id S)) (msg_pid msg) d)"
    "fm_map s = fm_map (mo_fm m) @ [\<lparr>ms_fd = f, ms_upid = upid_pack (get_node_id (si_machine_id S)) (msg_pid msg) d, ms_client = p\<rparr>]"
    using recv_fd_fresh [where rnd = rnd, OF assms(1-12)] by blast
  let ?m1 = "m\<lparr>mo_fm := s, mo_zk := z, num_threads := num_threads m + 1, mo_starting := [f]\<rparr>"
  let ?m2 = "?m1\<lparr>add_fd_lock := True, mo_efd := word_of_int f, num_threads := num_threads m\<rparr>"
  have 1: "main_thread E S config rnd [Accepted, Received msg 0] m = Some (None, ?m1)"
    using r(1) assms(13,18,21,22) by (simp add: main_event_def main_receive_def)
  have 2: "new_ufd_handler f ?m1 = Some ?m2"
    using assms(13,14,19,20) fd_word [of f] by (simp add: new_ufd_handler_def Let_def)
  have "hs_inv (?m2\<lparr>mo_starting := []\<rparr>)" using assms(13-16) by (auto simp: hs_inv_def)
  from reload_step [OF this, of re] obtain m3 where
    3: "reload True True (?m2\<lparr>mo_starting := [], mo_poll := set_revents re (mo_poll ?m2)\<rparr>) = Some (True, m3)"
      "hs_inv m3" "in_transit m3 = {#}" "watched (mo_poll m3) = watched (mo_poll m) + {#f#}"
    using assms(13,14,17,23) fd_word [of f] by (auto simp: in_transit_def)
  have "fm_map (mo_fm m3) = fm_map s" "mo_zk m3 = z" using reload_fm [OF 3(1)] by simp_all
  moreover have "\<not> add_fd_lock m3" using 3(3) by (auto simp: in_transit_def split: if_splits)
  ultimately show ?thesis using 1 2 3(1,4) r(2-5)
    by (intro exI [of _ ?m1] exI [of _ ?m2] exI [of _ m3]
        exI [of _ "\<lparr>ms_fd = f, ms_upid = upid_pack (get_node_id (si_machine_id S)) (msg_pid msg) d, ms_client = p\<rparr>"]) simp
qed

theorem descriptor_reaches_polling_witness:
  "\<exists>m1 m2 m3. main_thread (sample_env cache_config) handover_site [] (\<lambda>_. 70000) [Accepted, Received handover_msg 0]
      (boot_monitor\<lparr>mo_poll := polled_vector [3]\<rparr>) = Some (None, m1) \<and> new_ufd_handler 9 m1 = Some m2
    \<and> reload True True (m2\<lparr>mo_starting := [], mo_poll := set_revents (\<lambda>_. POLLIN) (mo_poll m2)\<rparr>) = Some (True, m3)
    \<and> watched (mo_poll m3) = {#3, 9#} \<and> map ms_fd (fm_map (mo_fm m3)) = [9]"
proof -
  have d: "doubled 50" by (auto simp: doubled_def VECTOR_INITIAL_CAPACITY_def intro: exI [of _ 0])
  have v: "pv_wf (polled_vector [3])" "entries_of (polled_vector [3]) = [\<lparr>pfd = 3, pevents = POLLIN, prevents = 0\<rparr>]"
    using pv_wfI [of "polled_vector [3]" "[\<lparr>pfd = 3, pevents = POLLIN, prevents = 0\<rparr>]" "replicate 49 None"] d
    by (auto simp: polled_vector_def)
  show ?thesis
    using descriptor_reaches_polling [of handover_site id "boot_monitor\<lparr>mo_poll := polled_vector [3]\<rparr>" handover_msg 9
        "sample_env cache_config" "[]" "\<lambda>_. 70000" 1 "\<lambda>_. POLLIN"] v
    by (auto simp: boot_monitor_def sample_fm_def handover_site_def handover_msg_def sim_zk_ok SOL_SOCKET_def SCM_RIGHTS_def
        noop_backend_def upid_known_def MAX_THREADS_def watched_def add_mset_commute)
qed

text \<open>
  The signal handler cancels the threads of new descriptors below the last, which is left running, and
  neither the polling thread nor the threads that write and prefetch.
\<close>

lemma signal_leaves_threads:
  assumes "fatal_error_signal E reaper by_ui m = Some (ts, m')"
  shows "Worker (nat (num_threads m)) \<notin> set ts"
    "Thread Polling_thread \<notin> set ts" "Thread Write_thread \<notin> set ts" "Thread Prefetch_thread \<notin> set ts"
  using assms by (auto simp: fatal_error_signal_def split: if_splits Option.bind_splits)

text \<open>A socket, an event descriptor or a thread that is not to be had ends the process with an error.\<close>

lemma start_up_fails:
  assumes "main_setup E A (prog # host # args) m = Some (r, ts, os, m')" "se_server A < 0"
  shows "r = Some (- 1) \<or> r = Some (se_server A)" "ts = []"
  using assms
  by (auto simp: main_setup_def init_poll_list_def Let_def split: if_splits prod.splits Option.bind_splits)

lemma long_address_without_end: "MAX_ZK_STRING_LEN \<le> length a \<Longrightarrow>
    parse_options C [''--zookeeper='' @ a] os = Some (os\<lparr>zookeeperConn := None\<rparr>)"
  by (simp add: parse_option_def is_option_def copy_conn_def)

end
