(* ===== verification/Userfault_Client.thy ===== *)
theory Userfault_Client
  imports Handover
begin

text \<open>
  The library of the applications, \<^verbatim>\<open>lib/userfault/userfault-client.c\<close>: a region of memory is allocated and
  registered with a new user fault descriptor, which is sent to the monitor over its socket. The answers
  of the system calls are arguments; the state is what the process holds. Failures are reported with
  \<^verbatim>\<open>log_err\<close>, which raises \<^verbatim>\<open>SIGINT\<close>: it ends the process, unless the application ignores the signal or has
  installed a handler that returns. A local variable that is read before it is set is undefined.
\<close>

section \<open>State and system calls\<close>

datatype madvice = MADV_DONTFORK | MADV_DONTNEED | MADV_NOHUGEPAGE

text \<open>
  A handshake that succeeds gives the version and the mask of the operations, a registration the mask of
  the operations on the region; \<open>None\<close> is the failure of the call. \<open>an_survives\<close> is whether the process goes
  on after a \<^verbatim>\<open>SIGINT\<close>.
\<close>

record answers =
  an_memalign :: "ptr option"
  an_madvise :: "madvice \<Rightarrow> bool"
  an_ufd :: fd
  an_api :: "(u64 \<times> u64) option"
  an_register :: "u64 option"
  an_unregister :: bool
  an_socket :: fd
  an_connect :: bool
  an_send :: int
  an_pid :: u32
  an_survives :: bool

record app =
  ap_areas :: "(ptr \<times> u64) set"
  ap_registered :: "(fd \<times> ptr \<times> u64) set"
  ap_open :: "fd set"
  ap_sent :: "fd_message list"

text \<open>Closing a descriptor ends its registrations.\<close>

definition close_fd :: "fd \<Rightarrow> app \<Rightarrow> app" where
  "close_fd f a = a\<lparr>ap_open := ap_open a - {f}, ap_registered := {r \<in> ap_registered a. fst r \<noteq> f}\<rparr>"

text \<open>What comes of a call: undefined behaviour, the end of the process by the signal, or a result.\<close>

datatype 'a call = Undefined | Killed | Returned 'a

fun bind_call :: "'a call \<Rightarrow> ('a \<Rightarrow> 'b call) \<Rightarrow> 'b call" where
  "bind_call Undefined k = Undefined"
| "bind_call Killed k = Killed"
| "bind_call (Returned x) k = k x"

definition report :: "answers \<Rightarrow> 'a call \<Rightarrow> 'a call" where
  "report A r = (if an_survives A then r else Killed)"

section \<open>The descriptor\<close>

definition UFFD_API :: u64 where "UFFD_API = 0xAA"

definition api_mask :: u64 where
  "api_mask = push_bit 0 1 OR push_bit 1 1"

definition region_mask :: u64 where
  "region_mask = push_bit 2 1 OR push_bit 3 1 OR push_bit 5 1 OR push_bit 4 1"

definition ufd_version_check :: "answers \<Rightarrow> bool call" where
  "ufd_version_check A =
     (case an_api A of
        None \<Rightarrow> report A (Returned False)
      | Some (api, ioctls) \<Rightarrow>
          if api \<noteq> UFFD_API then report A (Returned False)
          else if ioctls AND api_mask \<noteq> api_mask then report A (Returned False) else Returned True)"

text \<open>A descriptor that does not pass the check is not closed.\<close>

definition ufd_syscall :: "answers \<Rightarrow> app \<Rightarrow> (fd \<times> app) call" where
  "ufd_syscall A a =
     (if an_ufd A = - 1 then report A (Returned (- 1, a))
      else let a = a\<lparr>ap_open := insert (an_ufd A) (ap_open a)\<rparr>
           in bind_call (ufd_version_check A) (\<lambda>ok. Returned (if ok then an_ufd A else - 1, a)))"

fun advise :: "answers \<Rightarrow> ptr \<Rightarrow> u64 \<Rightarrow> madvice list \<Rightarrow> app \<Rightarrow> (bool \<times> app) call" where
  "advise A area sz [] a = Returned (True, a)"
| "advise A area sz (v # vs) a =
     (if an_madvise A v then advise A area sz vs a
      else report A (Returned (False, a\<lparr>ap_areas := ap_areas a - {(area, sz)}\<rparr>)))"

definition enable_ufd_area :: "answers \<Rightarrow> ptr \<Rightarrow> u64 \<Rightarrow> app \<Rightarrow> (int \<times> fd \<times> app) call" where
  "enable_ufd_area A area sz a =
     bind_call (advise A area sz [MADV_DONTFORK, MADV_DONTNEED, MADV_NOHUGEPAGE] a) (\<lambda>(ok, a).
       if \<not> ok then Returned (- 1, - 1, a)
       else bind_call (ufd_syscall A a) (\<lambda>(ufd, a).
         if ufd = - 1 then report A (Returned (- 1, - 1, a))
         else case an_register A of
           None \<Rightarrow> report A (Returned (- 1, ufd, a))
         | Some ioctls \<Rightarrow>
             let a = a\<lparr>ap_registered := insert (ufd, area, sz) (ap_registered a)\<rparr>
             in if ioctls AND region_mask \<noteq> region_mask then report A (Returned (- 1, ufd, a))
                else Returned (0, ufd, a)))"

definition disable_ufd_area :: "answers \<Rightarrow> fd \<Rightarrow> ptr \<Rightarrow> u64 \<Rightarrow> app \<Rightarrow> (int \<times> app) call" where
  "disable_ufd_area A ufd area sz a =
     (if an_unregister A then Returned (0, a\<lparr>ap_registered := ap_registered a - {(ufd, area, sz)}\<rparr>)
      else report A (Returned (- 1, a)))"

section \<open>The connection\<close>

text \<open>
  A failure of \<^verbatim>\<open>socket\<close> is printed and not reported. A socket that cannot be connected is not closed.
\<close>

definition connect_monitor :: "answers \<Rightarrow> app \<Rightarrow> (fd \<times> app) call" where
  "connect_monitor A a =
     (if an_socket A < 0 then Returned (- 1, a)
      else let a = a\<lparr>ap_open := insert (an_socket A) (ap_open a)\<rparr>
           in if an_connect A then Returned (an_socket A, a) else report A (Returned (- 1, a)))"

text \<open>The process id is the message, the descriptor goes along as control data.\<close>

definition send_fd :: "answers \<Rightarrow> fd \<Rightarrow> app \<Rightarrow> int \<times> app" where
  "send_fd A fd_to_send a =
     (if an_send A < 0 then (an_send A, a)
      else (an_send A, a\<lparr>ap_sent := ap_sent a @ [\<lparr>msg_res = an_send A, msg_ctrunc = False, msg_pid = an_pid A,
              msg_control = [(SOL_SOCKET, SCM_RIGHTS, fd_to_send)]\<rparr>]\<rparr>))"

section \<open>Allocation\<close>

definition allocate_error :: "answers \<Rightarrow> ptr \<Rightarrow> u64 \<Rightarrow> fd \<Rightarrow> fd \<Rightarrow> app \<Rightarrow> (ptr \<times> fd \<times> app) call" where
  "allocate_error A ret sz ufd socket_fd a =
     bind_call (if ret \<noteq> NULL then disable_ufd_area A ufd ret sz a else Returned (0, a)) (\<lambda>(rc, a).
       let a = (if ufd \<noteq> 0 then close_fd ufd a else a)
       in Returned (NULL, ufd, if socket_fd \<noteq> 0 then close_fd socket_fd a else a))"

text \<open>The label \<^verbatim>\<open>error\<close> reads \<^verbatim>\<open>socket_fd\<close>, which is set by the connection only.\<close>

definition allocate_userfault :: "answers \<Rightarrow> u64 \<Rightarrow> app \<Rightarrow> (ptr \<times> fd \<times> app) call" where
  "allocate_userfault A sz a =
     (if sz mod 4096 \<noteq> 0 then report A Undefined
      else case an_memalign A of
        None \<Rightarrow> report A Undefined
      | Some ret \<Rightarrow>
          bind_call (enable_ufd_area A ret sz (a\<lparr>ap_areas := insert (ret, sz) (ap_areas a)\<rparr>)) (\<lambda>(rc, ufd, a).
            if rc \<noteq> 0 \<or> ret = NULL then report A Undefined
            else bind_call (connect_monitor A a) (\<lambda>(socket_fd, a).
              if socket_fd \<le> 0 then report A (allocate_error A ret sz ufd socket_fd a)
              else let (rc, a) = send_fd A ufd a
                   in if rc < 0 then report A (allocate_error A ret sz ufd socket_fd a)
                      else Returned (ret, ufd, close_fd socket_fd a))))"

section \<open>Lemmas\<close>

text \<open>The answers with which the region is registered.\<close>

definition registers :: "answers \<Rightarrow> ptr \<Rightarrow> fd \<Rightarrow> bool" where
  "registers A p f \<longleftrightarrow> an_memalign A = Some p \<and> p \<noteq> NULL \<and> (\<forall>v. an_madvise A v) \<and> an_ufd A = f \<and> f \<noteq> - 1
     \<and> (\<exists>m. an_api A = Some (UFFD_API, m) \<and> m AND api_mask = api_mask)
     \<and> (\<exists>m. an_register A = Some m \<and> m AND region_mask = region_mask)"

lemma registers_enable:
  assumes "registers A p f"
  shows "enable_ufd_area A p sz a
    = Returned (0, f, a\<lparr>ap_open := insert f (ap_open a), ap_registered := insert (f, p, sz) (ap_registered a)\<rparr>)"
  using assms by (auto simp: registers_def enable_ufd_area_def ufd_syscall_def ufd_version_check_def Let_def)

text \<open>
  Whatever fails before the connection ends the process or, if it survives the signal, in the undefined
  read.
\<close>

lemma enable_returns:
  "enable_ufd_area A p sz a = Killed \<and> \<not> an_survives A
   \<or> (\<exists>rc f a'. enable_ufd_area A p sz a = Returned (rc, f, a') \<and> (rc = 0 \<or> an_survives A))"
  by (auto simp: enable_ufd_area_def ufd_syscall_def ufd_version_check_def report_def Let_def
      split: option.splits prod.splits)

lemma early_failure:
  assumes "sz mod 4096 \<noteq> 0 \<or> an_memalign A = None \<or> an_memalign A = Some p \<and>
    (\<forall>f a'. enable_ufd_area A p sz (a\<lparr>ap_areas := insert (p, sz) (ap_areas a)\<rparr>) \<noteq> Returned (0, f, a'))"
  shows "allocate_userfault A sz a = (if an_survives A then Undefined else Killed)"
  using assms enable_returns [of A p sz "a\<lparr>ap_areas := insert (p, sz) (ap_areas a)\<rparr>"]
  by (auto simp: allocate_userfault_def report_def)

section \<open>Theorem\<close>

text \<open>
  C24. What a call of \<^verbatim>\<open>allocate_userfault\<close> leaves behind, once the region could be registered with a new
  descriptor. If the monitor is reached, the region is returned, registered, the descriptor is open and
  the message to the monitor carries it and the process id, in the form \<^verbatim>\<open>recv_fd\<close> reads. Otherwise the
  error is reported with \<^verbatim>\<open>SIGINT\<close>, which ends the process. Only a process that survives the signal gets the
  null pointer: nothing was sent, the descriptor is closed and the region is no longer registered, but it
  stays allocated with nobody to free it; and the socket stays open if it is the connection that failed.
\<close>

theorem allocate_userfault_outcome:
  assumes "sz mod 4096 = 0" "registers A p f" "f \<noteq> 0" "an_unregister A"
    and "f \<notin> ap_open a" "0 < an_socket A" "an_socket A \<notin> insert f (ap_open a)" "\<forall>r \<in> ap_registered a. fst r \<in> ap_open a"
    and "\<forall>x \<in> ap_open a. 0 \<le> x"
  shows "if an_connect A \<and> 0 \<le> an_send A
    then \<exists>a'. allocate_userfault A sz a = Returned (p, f, a') \<and> (p, sz) \<in> ap_areas a'
       \<and> ap_registered a' = insert (f, p, sz) (ap_registered a) \<and> ap_open a' = insert f (ap_open a)
       \<and> (\<exists>msg. ap_sent a' = ap_sent a @ [msg] \<and> control_fd (msg_control msg) (- 1) = f \<and> msg_pid msg = an_pid A
            \<and> msg_res msg = an_send A)
    else if \<not> an_survives A then allocate_userfault A sz a = Killed
    else \<exists>a'. allocate_userfault A sz a = Returned (NULL, f, a') \<and> (p, sz) \<in> ap_areas a'
       \<and> ap_registered a' = ap_registered a \<and> ap_sent a' = ap_sent a
       \<and> ap_open a' = (if an_connect A then ap_open a else insert (an_socket A) (ap_open a))"
proof -
  have p: "an_memalign A = Some p" "p \<noteq> NULL" "f \<noteq> - 1" using assms(2) by (auto simp: registers_def)
  have neg: "- 1 \<notin> ap_open a" using assms(9) by fastforce
  then have "(- 1, x) \<notin> ap_registered a" "(f, x) \<notin> ap_registered a" "(an_socket A, x) \<notin> ap_registered a" for x
    using assms(5,7,8) by fastforce+
  note e = registers_enable [OF assms(2)] this neg
  show ?thesis
    using assms(1,3-7) p e(2-)
    by (auto simp: allocate_userfault_def e connect_monitor_def send_fd_def allocate_error_def disable_ufd_area_def close_fd_def
        report_def SOL_SOCKET_def SCM_RIGHTS_def Let_def)
qed

definition good_answers :: answers where
  "good_answers = \<lparr>an_memalign = Some 8192, an_madvise = (\<lambda>_. True), an_ufd = 5, an_api = Some (UFFD_API, 3),
     an_register = Some 60, an_unregister = True, an_socket = 6, an_connect = True, an_send = 4, an_pid = 77, an_survives = False\<rparr>"

definition new_app :: app where
  "new_app = \<lparr>ap_areas = {}, ap_registered = {}, ap_open = {0, 1, 2}, ap_sent = []\<rparr>"

theorem allocate_userfault_outcome_witness:
  "(\<exists>a'. allocate_userfault good_answers 4096 new_app = Returned (8192, 5, a') \<and> ap_registered a' = {(5, 8192, 4096)}
     \<and> map msg_pid (ap_sent a') = [77])
   \<and> allocate_userfault (good_answers\<lparr>an_connect := False\<rparr>) 4096 new_app = Killed"
proof -
  have r: "registers good_answers 8192 5" by (simp add: registers_def good_answers_def api_mask_def region_mask_def)
  then have "registers (good_answers\<lparr>an_connect := False\<rparr>) 8192 5" by (simp add: registers_def)
  with r show ?thesis
    using allocate_userfault_outcome [of 4096 good_answers 8192 5 new_app]
      allocate_userfault_outcome [of 4096 "good_answers\<lparr>an_connect := False\<rparr>" 8192 5 new_app]
    by (auto simp: good_answers_def new_app_def)
qed

end
