(* ===== verification/Page_Buffer.thy ===== *)
theory Page_Buffer
  imports Machine "HOL-Library.Multiset"
begin

text \<open>
  The ring of prepared pages of \<^verbatim>\<open>include/buffer_allocator_array.h\<close>, for the build with \<^verbatim>\<open>THREADED_REINIT\<close>: the
  fault handler takes pages from it and a thread fills it again in batches. The two sides have a mutex
  each, a flag here, as each side ends by locking the mutex of the other. A call that waits, for its
  condition or for a mutex, is \<open>None\<close>; an index outside the array is undefined, which is \<open>None\<close> as well. Both
  sides change the number of pages, each under its own mutex: the change is a load and a store, between
  which the other side may run. A call is therefore the composition of the piece before the load, the
  store, and the signal to the other side. That the report of a failed \<^verbatim>\<open>mmap\<close> also ends the monitor is not
  part of the ring.
\<close>

section \<open>The ring\<close>

record page_buffer_info =
  pages :: "ptr list"
  capacity :: int
  init_batch_size :: int
  idx_current_page :: int
  idx_last_initialized_page :: int
  num_initialized_pages :: int
  prod_lock :: bool
  cons_lock :: bool

text \<open>\<^verbatim>\<open>mmap\<close> of the pages from an index on; the first failure ends the loop.\<close>

fun map_pages :: "kernel \<Rightarrow> nat \<Rightarrow> machine \<Rightarrow> ptr list option \<times> machine" where
  "map_pages K 0 M = (Some [], M)"
| "map_pages K (Suc n) M =
     (let (p, M) = k_mmap K M in
      if p = MAP_FAILED then (None, M)
      else let (ps, M) = map_pages K n M in (map_option ((#) p) ps, M))"

text \<open>The array is allocated: \<open>ok\<close>. The result is the null pointer, \<open>None\<close>, on a failure.\<close>

definition init_page_buffer :: "kernel \<Rightarrow> bool \<Rightarrow> int \<Rightarrow> int \<Rightarrow> machine \<Rightarrow> page_buffer_info option \<times> machine" where
  "init_page_buffer K ok cap batch M =
     (if \<not> ok then (None, M)
      else let (ps, M) = map_pages K (nat cap) M in
        (map_option (\<lambda>ps. \<lparr>pages = ps, capacity = cap, init_batch_size = batch, idx_current_page = 0,
            idx_last_initialized_page = 0, num_initialized_pages = cap, prod_lock = False, cons_lock = False\<rparr>) ps, M))"

text \<open>
  Taking a page. It waits while there is one page only. The number of pages is loaded after the first
  piece, and \<open>get_store\<close> stores it less one. The signal to the thread needs the other mutex.
\<close>

definition get_begin :: "page_buffer_info \<Rightarrow> (ptr \<times> page_buffer_info) option" where
  "get_begin buf =
     (if cons_lock buf \<or> num_initialized_pages buf \<le> 1 then None
      else if \<not> (0 \<le> idx_current_page buf \<and> idx_current_page buf < int (length (pages buf))) then None
      else Some (pages buf ! nat (idx_current_page buf), buf\<lparr>cons_lock := True, idx_current_page := idx_current_page buf + 1\<rparr>))"

definition get_store :: "int \<Rightarrow> page_buffer_info \<Rightarrow> page_buffer_info" where
  "get_store n buf = buf\<lparr>num_initialized_pages := n - 1,
     idx_current_page := if idx_current_page buf \<ge> capacity buf then 0 else idx_current_page buf, cons_lock := False\<rparr>"

definition get_signal :: "page_buffer_info \<Rightarrow> page_buffer_info option" where
  "get_signal buf =
     (if capacity buf - num_initialized_pages buf \<ge> init_batch_size buf + 1 \<and> prod_lock buf then None else Some buf)"

definition get_tmp_page :: "page_buffer_info \<Rightarrow> (ptr \<times> page_buffer_info) option" where
  "get_tmp_page buf = do {
     (tmp_page, buf) \<leftarrow> get_begin buf;
     buf \<leftarrow> get_signal (get_store (num_initialized_pages buf) buf);
     Some (tmp_page, buf)
   }"

fun reinit_loop :: "kernel \<Rightarrow> int \<Rightarrow> nat \<Rightarrow> int \<Rightarrow> ptr list \<times> machine \<Rightarrow> (bool \<times> ptr list \<times> machine) option" where
  "reinit_loop K cap 0 idx s = Some (True, s)"
| "reinit_loop K cap (Suc n) idx (ps, M) =
     (let idx = (if idx = cap then 0 else idx); (p, M) = k_mmap K M in
      if 0 \<le> idx \<and> idx < int (length ps)
      then if p = MAP_FAILED then Some (False, ps[nat idx := p], M)
           else reinit_loop K cap n (idx + 1) (ps[nat idx := p], M)
      else None)"

text \<open>
  Filling the ring again. The first piece maps the pages; it gives their number, or \<open>None\<close> for a failure
  of \<^verbatim>\<open>mmap\<close>, with which the function returns, the mutex held. The number of pages is loaded after it.
\<close>

definition fill_begin :: "kernel \<Rightarrow> page_buffer_info \<times> machine \<Rightarrow> (int option \<times> page_buffer_info \<times> machine) option" where
  "fill_begin K = (\<lambda>(buf, M).
     let num_to_init = capacity buf - num_initialized_pages buf - 1 in
     if prod_lock buf \<or> num_to_init < init_batch_size buf then None
     else do {
       (done_ok, ps, M) \<leftarrow> reinit_loop K (capacity buf) (nat num_to_init) (idx_last_initialized_page buf) (pages buf, M);
       let buf = buf\<lparr>prod_lock := True, pages := ps\<rparr>;
       let l = idx_last_initialized_page buf + num_to_init;
       Some (if \<not> done_ok then (None, buf, M)
         else (Some num_to_init, buf\<lparr>idx_last_initialized_page := if l \<ge> capacity buf then l - capacity buf else l\<rparr>, M))
     })"

definition fill_store :: "int \<Rightarrow> int \<Rightarrow> page_buffer_info \<Rightarrow> page_buffer_info" where
  "fill_store num_to_init n buf = buf\<lparr>num_initialized_pages := n + num_to_init, prod_lock := False\<rparr>"

definition fill_signal :: "page_buffer_info \<Rightarrow> page_buffer_info option" where
  "fill_signal buf = (if cons_lock buf then None else Some buf)"

definition reinit_page_buffer :: "kernel \<Rightarrow> page_buffer_info \<times> machine \<Rightarrow> (int \<times> page_buffer_info \<times> machine) option" where
  "reinit_page_buffer K s = do {
     (k, buf, M) \<leftarrow> fill_begin K s;
     (case k of
        None \<Rightarrow> Some (- 1, buf, M)
      | Some num_to_init \<Rightarrow> do {
          buf \<leftarrow> fill_signal (fill_store num_to_init (num_initialized_pages buf) buf);
          Some (0, buf, M)
        })
   }"

fun cleanup_pages :: "kernel \<Rightarrow> int \<Rightarrow> nat \<Rightarrow> int \<Rightarrow> ptr list \<Rightarrow> machine \<Rightarrow> machine option" where
  "cleanup_pages K cap 0 idx ps M = Some M"
| "cleanup_pages K cap (Suc n) idx ps M =
     (if 0 \<le> idx \<and> idx < int (length ps)
      then let i = idx + 1 in
           cleanup_pages K cap n (if i \<ge> cap then 0 else i) ps (snd (k_munmap K (ps ! nat idx) M))
      else None)"

definition cleanup_page_buffer :: "kernel \<Rightarrow> page_buffer_info \<Rightarrow> machine \<Rightarrow> machine option" where
  "cleanup_page_buffer K buf M =
     cleanup_pages K (capacity buf) (nat (num_initialized_pages buf)) (idx_current_page buf) (pages buf) M"

definition return_free_page :: "kernel \<Rightarrow> ptr \<Rightarrow> machine \<Rightarrow> int \<times> machine" where
  "return_free_page K addr M = k_munmap K addr M"

section \<open>The queue it implements\<close>

text \<open>The pages from the current one on, around the end of the array.\<close>

definition queued :: "page_buffer_info \<Rightarrow> ptr list" where
  "queued buf = take (nat (num_initialized_pages buf)) (rotate (nat (idx_current_page buf)) (pages buf))"

definition ring_wf :: "page_buffer_info \<Rightarrow> bool" where
  "ring_wf buf \<longleftrightarrow> 0 < capacity buf \<and> int (length (pages buf)) = capacity buf \<and> 0 < init_batch_size buf
     \<and> 0 \<le> idx_current_page buf \<and> idx_current_page buf < capacity buf
     \<and> 0 < num_initialized_pages buf \<and> num_initialized_pages buf \<le> capacity buf
     \<and> idx_last_initialized_page buf = (idx_current_page buf + num_initialized_pages buf) mod capacity buf
     \<and> \<not> prod_lock buf \<and> \<not> cons_lock buf"

lemma add_mod_inj:
  assumes "i < n" "j < n" "(c + i) mod n = (c + j) mod n"
  shows "i = (j :: nat)"
proof (cases "i \<le> j")
  case True
  then have "n dvd j - i" using assms(3) mod_eq_dvd_iff_nat [of "c + i" "c + j" n] by simp
  then show ?thesis using True assms(2) by (auto dest: dvd_imp_le)
next
  case False
  then have "n dvd i - j" using assms(3) mod_eq_dvd_iff_nat [of "c + j" "c + i" n] by simp
  then show ?thesis using False assms(1) by (auto dest: dvd_imp_le)
qed

lemma rotate_update:
  assumes "i < length xs"
  shows "rotate c (xs[(c + i) mod length xs := x]) = (rotate c xs)[i := x]"
proof (rule nth_equalityI)
  fix j
  assume "j < length (rotate c (xs[(c + i) mod length xs := x]))"
  then have j: "j < length xs" by simp
  then have "(c + i) mod length xs = (c + j) mod length xs \<longleftrightarrow> i = j" using add_mod_inj [OF assms j] by auto
  moreover have "(c + j) mod length xs < length xs" using j by (cases xs) simp_all
  ultimately show "rotate c (xs[(c + i) mod length xs := x]) ! j = (rotate c xs)[i := x] ! j"
    using assms j by (auto simp: nth_rotate nth_list_update)
qed simp

lemma step_mod: "0 \<le> (i :: int) \<Longrightarrow> i < n \<Longrightarrow> (if i + 1 \<ge> n then 0 else i + 1) = (i + 1) mod n"
  by (cases "i + 1 = n") simp_all

lemma wrap_mod:
  assumes "0 \<le> (i :: int)" "i < 2 * n"
  shows "(if i \<ge> n then i - n else i) = i mod n"
proof (cases "i \<ge> n")
  case True
  then have "(i - n) mod n = i - n" using assms by (intro mod_pos_pos_trivial) auto
  then show ?thesis using True by simp
qed (use assms in simp)

lemma queue_tail:
  assumes "c < length ps" "0 < m" "m \<le> length ps"
  shows "take m (rotate c ps) = ps ! c # take (m - 1) (rotate (Suc c mod length ps) ps)"
proof -
  have r: "rotate (Suc c mod length ps) ps = rotate1 (rotate c ps)" by (metis rotate_Suc rotate_conv_mod)
  have "rotate c ps \<noteq> []" using assms(1) by auto
  moreover have "hd (rotate c ps) = ps ! c" using assms(1) by (subst hd_rotate_conv_nth) auto
  ultimately obtain xs where x: "rotate c ps = ps ! c # xs" by (metis list.collapse)
  moreover have "length xs = length ps - 1" using arg_cong [OF x, of length] by simp
  ultimately show ?thesis using assms(2,3) by (simp add: r take_Cons')
qed

lemma next_index:
  assumes "0 \<le> c" "c < cap" "int (length ps) = cap"
  shows "nat ((c + 1) mod cap) = Suc (nat c) mod length ps"
proof -
  have "nat ((c + 1) mod cap) = nat (c + 1) mod nat cap" using assms by (intro nat_mod_distrib) auto
  moreover have "nat cap = length ps" using assms(3) by linarith
  moreover have "nat (c + 1) = Suc (nat c)" using assms(1) by (simp add: nat_add_distrib)
  ultimately show ?thesis by simp
qed

lemma get_begin_some:
  assumes "ring_wf buf" "1 < num_initialized_pages buf"
  shows "get_begin buf = Some (pages buf ! nat (idx_current_page buf),
    buf\<lparr>cons_lock := True, idx_current_page := idx_current_page buf + 1\<rparr>)"
  using assms by (auto simp: get_begin_def ring_wf_def)

lemma get_tmp_page_queue:
  assumes wf: "ring_wf buf" and n: "1 < num_initialized_pages buf"
  shows "\<exists>p buf'. get_tmp_page buf = Some (p, buf') \<and> ring_wf buf' \<and> queued buf = p # queued buf'
    \<and> capacity buf' = capacity buf \<and> init_batch_size buf' = init_batch_size buf"
proof -
  let ?c = "nat (idx_current_page buf)"
  let ?i = "(idx_current_page buf + 1) mod capacity buf"
  let ?buf = "buf\<lparr>idx_current_page := ?i, num_initialized_pages := num_initialized_pages buf - 1\<rparr>"
  note w = wf [unfolded ring_wf_def]
  have g: "get_tmp_page buf = Some (pages buf ! ?c, ?buf)"
    using w n step_mod [of "idx_current_page buf" "capacity buf"] get_begin_some [OF wf n]
    by (cases buf) (simp add: get_tmp_page_def get_store_def get_signal_def cong: if_cong)
  have "(?i + (num_initialized_pages buf - 1)) mod capacity buf = idx_last_initialized_page buf"
    using w by (simp add: mod_add_left_eq)
  then have wf': "ring_wf ?buf" using w n by (auto simp: ring_wf_def)
  have "?c < length (pages buf)" "nat (num_initialized_pages buf) \<le> length (pages buf)" using w by linarith+
  moreover have "nat (num_initialized_pages buf - 1) = nat (num_initialized_pages buf) - 1" using n by simp
  ultimately have "queued buf = pages buf ! ?c # queued ?buf"
    using queue_tail [of ?c "pages buf" "nat (num_initialized_pages buf)"] w n
      next_index [of "idx_current_page buf" "capacity buf" "pages buf"] by (simp add: queued_def)
  then show ?thesis using g wf' by auto
qed

text \<open>What a loop of successful \<^verbatim>\<open>mmap\<close>s does to the machine.\<close>

definition mapped_fresh :: "ptr list \<Rightarrow> machine \<Rightarrow> machine \<Rightarrow> bool" where
  "mapped_fresh new M M' \<longleftrightarrow> distinct new \<and> (\<forall>p \<in> set new. bufs M p = None \<and> bufs M' p = Some zero_page)
     \<and> (\<forall>p. p \<notin> set new \<longrightarrow> bufs M' p = bufs M p)"

lemma mapped_fresh_Cons:
  assumes "bufs M p = None" "bufs M1 = (bufs M)(p \<mapsto> zero_page)" "mapped_fresh new M1 M'"
  shows "mapped_fresh (p # new) M M'"
proof -
  have "p \<notin> set new" using assms(2,3) by (auto simp: mapped_fresh_def)
  then show ?thesis using assms by (auto simp: mapped_fresh_def split: if_splits)
qed

lemma reinit_loop_fills:
  assumes K: "kernel_ok K" and "reinit_loop K (int cap) n idx (ps, M) = Some (True, ps', M')"
    and "length ps = cap" "k + n \<le> cap" "0 \<le> idx" "idx \<le> int cap" "nat idx mod cap = (c + k) mod cap" "0 < cap"
  shows "\<exists>new. length new = n \<and> length ps' = cap \<and> mapped_fresh new M M'
    \<and> take (k + n) (rotate c ps') = take k (rotate c ps) @ new"
  using assms(2-7)
proof (induction n arbitrary: idx ps M k)
  case 0
  then show ?case by (simp add: mapped_fresh_def)
next
  case (Suc n)
  let ?i = "if idx = int cap then 0 else idx"
  obtain p M1 where m: "k_mmap K M = (p, M1)" by fastforce
  have p: "p \<noteq> MAP_FAILED" and l: "reinit_loop K (int cap) n (?i + 1) (ps[nat ?i := p], M1) = Some (True, ps', M')"
    using Suc.prems(1) m by (auto simp: Let_def split: if_splits)
  have fresh: "bufs M p = None" "bufs M1 = (bufs M)(p \<mapsto> zero_page)"
    using mmap_cases [OF K m] p by metis+
  have i: "0 \<le> ?i" "?i < int cap" using Suc.prems(4,5) assms(8) by auto
  have im: "nat ?i = (c + k) mod cap" using Suc.prems(4,5,6) i by (auto split: if_splits)
  have "nat (?i + 1) mod cap = Suc (nat ?i) mod cap" using i(1) by (simp add: nat_add_distrib)
  also have "\<dots> = (c + Suc k) mod cap" unfolding im by (simp add: mod_Suc_eq)
  finally have im1: "nat (?i + 1) mod cap = (c + Suc k) mod cap" .
  have k: "k < length ps" using Suc.prems(2,3) by simp
  have r: "rotate c (ps[nat ?i := p]) = (rotate c ps)[k := p]" unfolding im using rotate_update [OF k, of c p] Suc.prems(2) by simp
  obtain new where new: "length new = n" "length ps' = cap" "mapped_fresh new M1 M'"
    "take (Suc k + n) (rotate c ps') = take (Suc k) (rotate c (ps[nat ?i := p])) @ new"
    using Suc.IH [OF l _ _ _ _ im1] Suc.prems(2,3) i by auto
  have "take (Suc k) (rotate c (ps[nat ?i := p])) = take k (rotate c ps) @ [p]"
    unfolding r using k by (simp add: take_Suc_conv_app_nth)
  then show ?case
    using new mapped_fresh_Cons [OF fresh new(3)] by (intro exI [of _ "p # new"]) simp
qed

lemma fill_begin_success:
  assumes "fill_begin K (buf, M) = Some (Some k, buf', M')"
  obtains ps where "k = capacity buf - num_initialized_pages buf - 1" "init_batch_size buf \<le> k" "\<not> prod_lock buf"
    "reinit_loop K (capacity buf) (nat k) (idx_last_initialized_page buf) (pages buf, M) = Some (True, ps, M')"
    "buf' = buf\<lparr>prod_lock := True, pages := ps, idx_last_initialized_page :=
         if idx_last_initialized_page buf + k \<ge> capacity buf then idx_last_initialized_page buf + k - capacity buf
         else idx_last_initialized_page buf + k\<rparr>"
proof -
  let ?n = "capacity buf - num_initialized_pages buf - 1"
  have g: "\<not> (prod_lock buf \<or> ?n < init_batch_size buf)" using assms by (auto simp: fill_begin_def Let_def)
  obtain b ps M1 where l: "reinit_loop K (capacity buf) (nat ?n) (idx_last_initialized_page buf) (pages buf, M) = Some (b, ps, M1)"
    using assms g by (auto simp: fill_begin_def Let_def split: Option.bind_splits)
  have b: b using assms g l by (cases b) (simp_all add: fill_begin_def Let_def)
  have "k = ?n" using assms g l b by (simp add: fill_begin_def Let_def)
  then show thesis
    by (intro that [of ps]) (use assms g l b in \<open>simp_all add: fill_begin_def Let_def split: if_splits\<close>)
qed

lemma reinit_success:
  assumes "reinit_page_buffer K (buf, M) = Some (0, buf', M')"
  obtains n ps where "n = capacity buf - num_initialized_pages buf - 1" "init_batch_size buf \<le> n"
    "reinit_loop K (capacity buf) (nat n) (idx_last_initialized_page buf) (pages buf, M) = Some (True, ps, M')"
    "buf' = buf\<lparr>pages := ps, idx_last_initialized_page :=
         if idx_last_initialized_page buf + n \<ge> capacity buf then idx_last_initialized_page buf + n - capacity buf
         else idx_last_initialized_page buf + n,
       num_initialized_pages := num_initialized_pages buf + n\<rparr>"
proof -
  obtain k b1 M1 where f: "fill_begin K (buf, M) = Some (Some k, b1, M1)"
    using assms by (auto simp: reinit_page_buffer_def bind_eq_Some_conv split: option.splits)
  then have r: "buf' = fill_store k (num_initialized_pages b1) b1" "M1 = M'"
    using assms by (auto simp: reinit_page_buffer_def fill_signal_def bind_eq_Some_conv split: if_splits)
  from f obtain ps where ps: "k = capacity buf - num_initialized_pages buf - 1" "init_batch_size buf \<le> k" "\<not> prod_lock buf"
    "reinit_loop K (capacity buf) (nat k) (idx_last_initialized_page buf) (pages buf, M) = Some (True, ps, M1)"
    "b1 = buf\<lparr>prod_lock := True, pages := ps, idx_last_initialized_page :=
         if idx_last_initialized_page buf + k \<ge> capacity buf then idx_last_initialized_page buf + k - capacity buf
         else idx_last_initialized_page buf + k\<rparr>" by (rule fill_begin_success)
  show thesis using that [OF ps(1,2)] ps(3-5) r by (cases buf) (simp add: fill_store_def)
qed

lemma reinit_page_buffer_queue:
  assumes K: "kernel_ok K" and wf: "ring_wf buf" and r: "reinit_page_buffer K (buf, M) = Some (0, buf', M')"
  shows "ring_wf buf' \<and> capacity buf' = capacity buf \<and> init_batch_size buf' = init_batch_size buf
    \<and> (\<exists>new. queued buf' = queued buf @ new \<and> int (length (queued buf')) = capacity buf - 1 \<and> mapped_fresh new M M')"
proof -
  obtain cap c k l batch where d: "capacity buf = cap" "idx_current_page buf = c" "num_initialized_pages buf = k"
    "idx_last_initialized_page buf = l" "init_batch_size buf = batch" by blast
  have w: "int (length (pages buf)) = cap" "0 < batch" "0 \<le> c" "c < cap" "0 < k" "k \<le> cap" "l = (c + k) mod cap"
    "\<not> prod_lock buf" "\<not> cons_lock buf"
    using wf unfolding ring_wf_def d by blast+
  from r obtain n ps where n: "n = cap - k - 1" "batch \<le> n"
    "reinit_loop K cap (nat n) l (pages buf, M) = Some (True, ps, M')"
    "buf' = buf\<lparr>pages := ps, idx_last_initialized_page := if l + n \<ge> cap then l + n - cap else l + n, num_initialized_pages := k + n\<rparr>"
    by (rule reinit_success) (simp only: d)
  have l0: "0 \<le> l" "l < cap" unfolding w(7) using w(3,4) by simp_all
  have "nat l = nat (c + k) mod nat cap" unfolding w(7) using w(3-5) by (intro nat_mod_distrib) simp_all
  then have m: "nat l mod nat cap = (nat c + nat k) mod nat cap" using w(3,5) by (simp add: nat_add_distrib)
  have len: "length (pages buf) = nat cap" and cap: "int (nat cap) = cap" "0 < nat cap" using w(1,3,4) by simp_all
  have "nat k + nat n \<le> nat cap" "l \<le> int (nat cap)" using w(2,5) n(1,2) l0 by linarith+
  from reinit_loop_fills [OF K _ len this(1) l0(1) this(2) m cap(2), unfolded cap(1), OF n(3)]
  obtain new where new: "length new = nat n" "length ps = nat cap" "mapped_fresh new M M'"
    "take (nat k + nat n) (rotate (nat c) ps) = take (nat k) (rotate (nat c) (pages buf)) @ new" by blast
  have kn: "nat (k + n) = nat k + nat n" using w(2,5) n(2) by (simp add: nat_add_distrib)
  have q: "queued buf' = queued buf @ new" unfolding queued_def n(4) using new(4) kn d by simp
  have "(if l + n \<ge> cap then l + n - cap else l + n) = (l + n) mod cap" using l0 n(1,2) w(2,5) by (intro wrap_mod) linarith+
  also have "\<dots> = (c + (k + n)) mod cap" unfolding w(7) by (simp add: mod_add_left_eq add.assoc)
  finally have l1: "(if l + n \<ge> cap then l + n - cap else l + n) = (c + (k + n)) mod cap" .
  have "ring_wf buf'"
    unfolding ring_wf_def n(4) l1 using w(2-5,8,9) n(1,2) new(2) cap d by simp
  moreover have "int (length (queued buf')) = cap - 1"
    using q new(1) len w(2,5,6) n(1,2) d by (simp add: queued_def)
  ultimately show ?thesis using n(4) q new(3) d by auto
qed

lemma map_pages_fresh:
  "kernel_ok K \<Longrightarrow> map_pages K n M = (Some ps, M') \<Longrightarrow> length ps = n \<and> mapped_fresh ps M M'"
proof (induction n arbitrary: M ps)
  case 0
  then show ?case by (simp add: mapped_fresh_def)
next
  case (Suc n)
  obtain p M1 where m: "k_mmap K M = (p, M1)" by fastforce
  then obtain qs where q: "p \<noteq> MAP_FAILED" "map_pages K n M1 = (Some qs, M')" "ps = p # qs"
    using Suc.prems(2) by (auto simp: Let_def split: if_splits prod.splits)
  have "bufs M p = None" "bufs M1 = (bufs M)(p \<mapsto> zero_page)" using mmap_cases [OF Suc.prems(1) m] q(1) by metis+
  from mapped_fresh_Cons [OF this] Suc.IH [OF Suc.prems(1) q(2)] show ?case using q(3) by simp
qed

lemma init_page_buffer_queue:
  assumes "kernel_ok K" "init_page_buffer K True cap batch M = (Some b, M')" "0 < cap" "0 < batch"
  shows "ring_wf b" "capacity b = cap" "init_batch_size b = batch" "mapped_fresh (queued b) M M'" "int (length (queued b)) = cap"
proof -
  obtain ps where ps: "map_pages K (nat cap) M = (Some ps, M')"
    and b: "b = \<lparr>pages = ps, capacity = cap, init_batch_size = batch, idx_current_page = 0,
            idx_last_initialized_page = 0, num_initialized_pages = cap, prod_lock = False, cons_lock = False\<rparr>"
    using assms(2) by (auto simp: init_page_buffer_def split: prod.splits)
  note f = map_pages_fresh [OF assms(1) ps]
  show "ring_wf b" "capacity b = cap" "init_batch_size b = batch" using f assms(3,4) b by (simp_all add: ring_wf_def)
  have "queued b = ps" using f b by (simp add: queued_def)
  then show "mapped_fresh (queued b) M M'" "int (length (queued b)) = cap" using f assms(3) by simp_all
qed

lemma reinit_loop_some:
  "length ps = nat cap \<Longrightarrow> 0 \<le> idx \<Longrightarrow> idx \<le> cap \<Longrightarrow> 0 < cap \<Longrightarrow> \<exists>r. reinit_loop K cap n idx (ps, M) = Some r"
proof (induction n arbitrary: idx ps M)
  case (Suc n)
  obtain p M1 where m: "k_mmap K M = (p, M1)" by fastforce
  let ?i = "if idx = cap then 0 else idx"
  have i: "0 \<le> ?i" "?i < cap" using Suc.prems by auto
  then have "\<exists>r. reinit_loop K cap n (?i + 1) (ps[nat ?i := p], M1) = Some r" using Suc.prems(1,4) by (intro Suc.IH) auto
  then show ?case using m i Suc.prems(1) by (auto simp: Let_def)
qed auto

text \<open>A ring with too few pages can be filled again, if the batch is smaller than the ring.\<close>

lemma reinit_enabled:
  assumes "ring_wf b" "num_initialized_pages b \<le> 1" "init_batch_size b \<le> capacity b - 2"
  shows "\<exists>r. reinit_page_buffer K (b, M) = Some r"
proof -
  let ?n = "capacity b - num_initialized_pages b - 1"
  have w: "int (length (pages b)) = capacity b" "0 < capacity b" "\<not> prod_lock b" "\<not> cons_lock b"
    "idx_last_initialized_page b = (idx_current_page b + num_initialized_pages b) mod capacity b"
    using assms(1) unfolding ring_wf_def by blast+
  have "length (pages b) = nat (capacity b)" "0 \<le> idx_last_initialized_page b" "idx_last_initialized_page b \<le> capacity b"
    using w(1) w(2) less_imp_le [OF pos_mod_bound [OF w(2)]] unfolding w(5) by simp_all
  with w(2) obtain d ps M1 where
    "reinit_loop K (capacity b) (nat ?n) (idx_last_initialized_page b) (pages b, M) = Some (d, ps, M1)"
    using reinit_loop_some [of "pages b" "capacity b" "idx_last_initialized_page b" K "nat ?n" M] by auto
  then show ?thesis using assms(2,3) w(3,4)
    by (cases d) (simp_all add: reinit_page_buffer_def fill_begin_def fill_store_def fill_signal_def Let_def)
qed

section \<open>Both sides in turn\<close>

text \<open>
  The pages that were handed out and the pages that were mapped, when the calls of the two sides do not
  overlap. The rest of the program may change the machine in between.
\<close>

inductive ring_run :: "kernel \<Rightarrow> page_buffer_info \<Rightarrow> ptr list \<Rightarrow> ptr list \<Rightarrow> page_buffer_info \<Rightarrow> bool" for K b0 where
  start: "ring_run K b0 [] [] b0"
| take_page: "ring_run K b0 out new b \<Longrightarrow> get_tmp_page b = Some (p, b') \<Longrightarrow> ring_run K b0 (p # out) new b'"
| fill: "ring_run K b0 out new b \<Longrightarrow> reinit_page_buffer K (b, M) = Some (0, b', M') \<Longrightarrow> mapped_fresh ps M M' \<Longrightarrow>
    ring_run K b0 out (ps @ new) b'"

lemma mapped_fresh_unique:
  assumes "mapped_fresh ps M M'" "mapped_fresh qs M M'"
  shows "mset ps = mset qs"
proof -
  have "set xs = {p. bufs M' p \<noteq> bufs M p}" if "mapped_fresh xs M M'" for xs
  proof (intro set_eqI iffI)
    fix p
    show "p \<in> {p. bufs M' p \<noteq> bufs M p}" if "p \<in> set xs" using \<open>mapped_fresh xs M M'\<close> that by (simp add: mapped_fresh_def)
    show "p \<in> set xs" if "p \<in> {p. bufs M' p \<noteq> bufs M p}" using \<open>mapped_fresh xs M M'\<close> that by (auto simp: mapped_fresh_def)
  qed
  then have "set ps = set qs" using assms by blast
  then show ?thesis using assms by (simp add: mapped_fresh_def set_eq_iff_mset_eq_distinct)
qed

lemma ring_run_conserves:
  assumes "ring_run K b0 out new b" "kernel_ok K" "ring_wf b0"
  shows "ring_wf b \<and> capacity b = capacity b0 \<and> init_batch_size b = init_batch_size b0
    \<and> mset out + mset (queued b) = mset (queued b0) + mset new"
  using assms(1)
proof induction
  case start
  then show ?case using assms(3) by simp
next
  case (take_page out new b p b')
  have "1 < num_initialized_pages b" using take_page.hyps(2) by (auto simp: get_tmp_page_def get_begin_def split: if_splits)
  then show ?case using get_tmp_page_queue [of b] take_page by auto
next
  case (fill out new b M b' M' ps)
  then obtain qs where "queued b' = queued b @ qs" "mapped_fresh qs M M'" "ring_wf b'" "capacity b' = capacity b"
    "init_batch_size b' = init_batch_size b"
    using reinit_page_buffer_queue [OF assms(2) _ fill.hyps(2)] by blast
  moreover have "mset ps = mset qs" using mapped_fresh_unique fill.hyps(3) calculation(2) by blast
  ultimately show ?case using fill.IH by (simp add: union_commute union_lcomm)
qed

text \<open>
  As long as no call of one side overlaps a call of the other, the ring loses no page and hands out none
  twice: after a successful \<^verbatim>\<open>init_page_buffer\<close> the pages handed out and the pages in the ring are, with multiplicity, the pages the kernel has mapped for it; the ring never holds more than
  its capacity; and a ring with a batch smaller than itself is never stuck: a page can be taken, and is
  the oldest of the ring, or the ring can be filled.
\<close>

lemma page_ring_conserves:
  assumes "kernel_ok K" "init_page_buffer K True cap batch M0 = (Some b0, M1)" "0 < batch" "batch \<le> cap - 2"
    and "ring_run K b0 out new b"
  shows "mset out + mset (queued b) = mset (queued b0) + mset new \<and> mapped_fresh (queued b0) M0 M1
    \<and> int (length (queued b)) \<le> cap
    \<and> ((\<exists>p b'. get_tmp_page b = Some (p, b') \<and> queued b = p # queued b')
       \<or> (\<forall>M. \<exists>r. reinit_page_buffer K (b, M) = Some r))"
proof -
  have "0 < cap" using assms(3,4) by simp
  note i = init_page_buffer_queue [OF assms(1,2) this assms(3)]
  note c = ring_run_conserves [OF assms(5,1) i(1)]
  have "int (length (pages b)) = cap" using c i(2) unfolding ring_wf_def by simp
  then have "int (length (queued b)) \<le> cap" by (simp add: queued_def)
  moreover have "(\<exists>p b'. get_tmp_page b = Some (p, b') \<and> queued b = p # queued b')
       \<or> (\<forall>M. \<exists>r. reinit_page_buffer K (b, M) = Some r)"
  proof (cases "1 < num_initialized_pages b")
    case True
    then show ?thesis using get_tmp_page_queue [of b] c by blast
  next
    case False
    then show ?thesis using reinit_enabled [of b] c i(2,3) assms(4) by simp
  qed
  ultimately show ?thesis using c i(4) by blast
qed

lemma page_ring_conserves_example:
  "\<exists>b0 M1 p b. init_page_buffer sim_kernel True 3 1 machine0 = (Some b0, M1) \<and> get_tmp_page b0 = Some (p, b)
    \<and> add_mset p (mset (queued b)) = mset (queued b0) \<and> p = 65536"
proof -
  let ?M1 = "snd (init_page_buffer sim_kernel True 3 1 machine0)"
  let ?ring = "\<lparr>pages = [65536, 69632, 73728], capacity = 3, init_batch_size = 1, idx_current_page = 0,
    idx_last_initialized_page = 0, num_initialized_pages = 3, prod_lock = False, cons_lock = False\<rparr>"
  let ?rest = "?ring\<lparr>idx_current_page := 1, num_initialized_pages := 2\<rparr>"
  have "fst (map_pages sim_kernel 3 machine0) = Some [65536, 69632, 73728]"
    unfolding numeral_3_eq_3 by (simp add: sim_kernel_def machine0_def set_buf_def MAP_FAILED_def Let_def)
  then obtain M where "map_pages sim_kernel 3 machine0 = (Some [65536, 69632, 73728], M)" by (metis prod.collapse)
  then have "fst (init_page_buffer sim_kernel True 3 1 machine0) = Some ?ring" unfolding init_page_buffer_def by simp
  then have i: "init_page_buffer sim_kernel True 3 1 machine0 = (Some ?ring, ?M1)" by (metis prod.collapse)
  have g: "get_tmp_page ?ring = Some (65536, ?rest)" by (simp add: get_tmp_page_def get_begin_def get_store_def get_signal_def)
  have "mset [65536] + mset (queued ?rest) = mset (queued ?ring) + mset []"
    using page_ring_conserves [OF sim_kernel_ok i _ _ ring_run.take_page [OF ring_run.start g]] by simp
  then show ?thesis using i g by (intro exI [of _ ?ring] exI [of _ ?M1] exI [of _ 65536] exI [of _ ?rest]) simp
qed

text \<open>A failure to map a page leaves the mutex held: the thread that fills the ring waits for itself.\<close>

lemma reinit_failure_blocks:
  assumes "reinit_page_buffer K (b, M) = Some (- 1, b', M')"
  shows "reinit_page_buffer K (b', N) = None"
proof -
  have "prod_lock b'"
    using assms by (auto simp: reinit_page_buffer_def fill_begin_def fill_signal_def Let_def bind_eq_Some_conv split: if_splits option.splits)
  then show ?thesis by (simp add: reinit_page_buffer_def fill_begin_def Let_def)
qed

section \<open>Both sides at once\<close>

text \<open>
  C23. The ring loses pages when its two sides overlap. If the thread fills the ring while the fault handler
  has loaded the number of pages but not yet stored it, the store of the handler undoes the one of the
  thread: both calls complete, the handler has its page, but the pages the thread has just mapped, at
  least a batch, stand in the array behind the pages of the ring and are not counted among them. The next
  filling overwrites the array from a place behind them.
\<close>

theorem page_ring_race:
  assumes "kernel_ok K" "ring_wf b" "get_begin b = Some (p, b1)" "fill_begin K (b1, M) = Some (Some k, b2, M')"
    and "b3 = fill_store k (num_initialized_pages b2) b2" "b4 = get_store (num_initialized_pages b1) b3"
  shows "\<exists>new. mapped_fresh new M M' \<and> int (length new) = k \<and> init_batch_size b \<le> k
    \<and> queued b = p # queued b4 \<and> fill_signal b4 = Some b4 \<and> get_signal b4 = Some b4
    \<and> queued (b4\<lparr>num_initialized_pages := num_initialized_pages b4 + k\<rparr>) = queued b4 @ new
    \<and> idx_last_initialized_page b4 = (idx_current_page b4 + num_initialized_pages b4 + k) mod capacity b4"
proof -
  have n: "1 < num_initialized_pages b" using assms(3) by (auto simp: get_begin_def split: if_splits)
  have g: "p = pages b ! nat (idx_current_page b)" "b1 = b\<lparr>cons_lock := True, idx_current_page := idx_current_page b + 1\<rparr>"
    using get_begin_some [OF assms(2) n] assms(3) by simp_all
  from assms(4) obtain ps where f: "k = capacity b1 - num_initialized_pages b1 - 1" "init_batch_size b1 \<le> k" "\<not> prod_lock b1"
    "reinit_loop K (capacity b1) (nat k) (idx_last_initialized_page b1) (pages b1, M) = Some (True, ps, M')"
    "b2 = b1\<lparr>prod_lock := True, pages := ps, idx_last_initialized_page :=
         if idx_last_initialized_page b1 + k \<ge> capacity b1 then idx_last_initialized_page b1 + k - capacity b1
         else idx_last_initialized_page b1 + k\<rparr>" by (rule fill_begin_success)
  let ?r = "b\<lparr>pages := ps, num_initialized_pages := num_initialized_pages b + k, idx_last_initialized_page :=
         if idx_last_initialized_page b + k \<ge> capacity b then idx_last_initialized_page b + k - capacity b
         else idx_last_initialized_page b + k\<rparr>"
  have w: "\<not> prod_lock b" "\<not> cons_lock b" "0 < init_batch_size b" using assms(2) by (simp_all add: ring_wf_def)
  have "reinit_page_buffer K (b, M) = Some (0, ?r, M')"
    using f(1-4) g(2) w
    by (cases b) (simp add: reinit_page_buffer_def fill_begin_def fill_store_def fill_signal_def Let_def)
  from reinit_page_buffer_queue [OF assms(1,2) this] obtain new where
    new: "ring_wf ?r" "queued ?r = queued b @ new" "mapped_fresh new M M'" by blast
  have n': "1 < num_initialized_pages ?r" using n f(2) g(2) w(3) by simp
  let ?c = "nat (idx_current_page b)"
  have r: "int (length ps) = capacity b" "0 \<le> idx_current_page b" "idx_current_page b < capacity b"
    "num_initialized_pages b + k \<le> capacity b"
    "idx_last_initialized_page ?r = (idx_current_page b + (num_initialized_pages b + k)) mod capacity b"
    using new(1) by (simp_all add: ring_wf_def)
  have b4: "b4 = ?r\<lparr>idx_current_page := (idx_current_page b + 1) mod capacity b, num_initialized_pages := num_initialized_pages b - 1\<rparr>"
    using assms(5,6) f(5) g(2) w step_mod [OF r(2,3)] by (cases b) (simp add: fill_store_def get_store_def cong: if_cong)
  have tail: "take (nat m) (rotate ?c ps) = ps ! ?c # take (nat (m - 1)) (rotate (nat ((idx_current_page b + 1) mod capacity b)) ps)"
    if "1 \<le> m" "m \<le> capacity b" for m
    using queue_tail [of ?c ps "nat m"] next_index [OF r(2,3,1)] that r(1-3) by (simp add: nat_diff_distrib)
  have "int (length (pages b)) = capacity b" "num_initialized_pages b \<le> capacity b" using assms(2) unfolding ring_wf_def by blast+
  then have "nat (num_initialized_pages b) \<le> length (pages b)" by linarith
  then have lq: "length (queued b) = nat (num_initialized_pages b)" by (simp add: queued_def)
  have q: "queued b = take (nat (num_initialized_pages b)) (rotate ?c ps)"
  proof -
    have "take (length (queued b)) (queued ?r) = queued b" using new(2) by simp
    moreover have "nat (num_initialized_pages b) \<le> nat (num_initialized_pages b + k)" using f(2) g(2) w(3) by simp
    ultimately show ?thesis unfolding lq by (simp add: queued_def min_absorb1)
  qed
  have q4: "queued b = ps ! ?c # queued b4" unfolding q using tail [of "num_initialized_pages b"] n r(4) f(2) g(2) w(3)
    by (simp add: b4 queued_def)
  moreover have "ps ! ?c # queued (b4\<lparr>num_initialized_pages := num_initialized_pages b4 + k\<rparr>) = queued ?r"
    using tail [of "num_initialized_pages b + k"] n r(4) f(2) g(2) w(3) by (simp add: b4 queued_def algebra_simps)
  ultimately have "queued (b4\<lparr>num_initialized_pages := num_initialized_pages b4 + k\<rparr>) = queued b4 @ new"
    using new(2) by simp
  moreover have "p = ps ! ?c"
  proof -
    have "\<exists>qs. queued b = p # qs"
      using get_tmp_page_queue [OF assms(2) n] assms(3) by (auto simp: get_tmp_page_def bind_eq_Some_conv)
    then show ?thesis using q4 by simp
  qed
  moreover have "int (length new) = k"
  proof -
    have "nat (num_initialized_pages b + k) \<le> length ps" using r(1,4) by linarith
    then have "length (queued ?r) = nat (num_initialized_pages b + k)" by (simp add: queued_def)
    then show ?thesis using new(2) lq n f(2) g(2) w(3) by simp
  qed
  moreover have "idx_last_initialized_page b4 = (idx_current_page b4 + num_initialized_pages b4 + k) mod capacity b4"
  proof -
    let ?i = "idx_current_page b" and ?n = "num_initialized_pages b"
    have "((?i + 1) mod capacity b + (?n - 1 + k)) mod capacity b = (?i + 1 + (?n - 1 + k)) mod capacity b"
      by (rule mod_add_left_eq)
    moreover have "?i + 1 + (?n - 1 + k) = ?i + (?n + k)" by simp
    moreover have "idx_last_initialized_page b4 = idx_last_initialized_page ?r" "capacity b4 = capacity b"
      "idx_current_page b4 + num_initialized_pages b4 + k = (?i + 1) mod capacity b + (?n - 1 + k)"
      unfolding b4 by simp_all
    ultimately show ?thesis using r(5) by presburger
  qed
  ultimately show ?thesis using new(3) f(2) g(2) w q4 by (auto simp: b4 fill_signal_def get_signal_def)
qed

definition race_ring :: page_buffer_info where
  "race_ring = \<lparr>pages = [4096, 8192, 12288, 16384], capacity = 4, init_batch_size = 1, idx_current_page = 2,
     idx_last_initialized_page = 0, num_initialized_pages = 2, prod_lock = False, cons_lock = False\<rparr>"

theorem page_ring_race_witness:
  "\<exists>b1 b2 M' b4. get_begin race_ring = Some (12288, b1) \<and> fill_begin sim_kernel (b1, machine0) = Some (Some 1, b2, M')
    \<and> b4 = get_store (num_initialized_pages b1) (fill_store 1 (num_initialized_pages b2) b2)
    \<and> pages b4 = [65536, 8192, 12288, 16384] \<and> queued race_ring = 12288 # queued b4 \<and> queued b4 = [16384]"
proof -
  let ?b1 = "race_ring\<lparr>cons_lock := True, idx_current_page := 3\<rparr>"
  let ?b2 = "?b1\<lparr>prod_lock := True, pages := [65536, 8192, 12288, 16384], idx_last_initialized_page := 1\<rparr>"
  let ?b4 = "get_store (num_initialized_pages ?b1) (fill_store 1 (num_initialized_pages ?b2) ?b2)"
  obtain p M' where m: "k_mmap sim_kernel machine0 = (p, M')" by fastforce
  then have "p = 65536" by (auto simp: sim_kernel_def machine0_def MAP_FAILED_def Let_def)
  have w: "ring_wf race_ring" by (simp add: ring_wf_def race_ring_def)
  have g: "get_begin race_ring = Some (12288, ?b1)" by (simp add: get_begin_def race_ring_def)
  have f: "fill_begin sim_kernel (?b1, machine0) = Some (Some 1, ?b2, M')"
    using m \<open>p = 65536\<close> by (simp add: fill_begin_def race_ring_def MAP_FAILED_def)
  have "queued race_ring = 12288 # queued ?b4" using page_ring_race [OF sim_kernel_ok w g f refl refl] by blast
  moreover have "queued race_ring = [12288, 16384]" "pages ?b4 = [65536, 8192, 12288, 16384]"
    by (simp_all add: queued_def race_ring_def get_store_def fill_store_def rotate_drop_take)
  ultimately show ?thesis using g f
    by (intro exI [of _ ?b1] exI [of _ ?b2] exI [of _ M'] exI [of _ ?b4]) simp
qed

end
