(* ===== verification/Spec2Isabelle.thy ===== *)
theory Spec2Isabelle
  imports Transparency Lock_Balance Page_Cache_Inv Pollfd_Vector Flush_Props Handover Writer_Props Interface_Props
    RAMCloud_Props Main_Props Userfault_Client Page_Buffer
begin

text \<open>
  FluidMem moves the memory of applications to a remote key-value store. An application allocates a
  region with \<^verbatim>\<open>libuserfault-client\<close>, which registers it with a user fault descriptor and sends the
  descriptor to the monitor process. The monitor polls the descriptors; on a fault it places a page, of
  zeros or from the store, and when its buffer of resident pages is full it evicts the least recently
  used page to the store. This library models the monitor, its libraries, its stores and the
  application side, and proves what makes them correct.

  \<^bold>\<open>Conventions.\<close> A pointer and a \<^verbatim>\<open>uint64_t\<close> are 64 bit words, a C \<^verbatim>\<open>int\<close> is an \<open>int\<close> with its conversions
  written out, a page is its list of bytes. State is passed explicitly. A result \<open>None\<close> means that a call
  does not return or is undefined: a loop without end, a mutex locked twice or unlocked without being
  held, an index outside an array, a read of an unset variable. Error codes are values. Loops that may not
  end are partial functions in the option monad, and the theorems show that they return; no fuel is used.
  An error report (\<^verbatim>\<open>log_err\<close> of \<^verbatim>\<open>include/dbg.h\<close>) raises \<^verbatim>\<open>SIGINT\<close>. In the monitor the handler sets
  \<^verbatim>\<open>fatal_error_in_progress\<close>: the flag is \<open>fm_err\<close>, or that of a client of the store, and the polling loop
  ends on it. In an application the signal ends the process, unless it handles the signal.
  Kernel, Zookeeper, libmemcached and RAMCloud are records of functions, arguments of the definitions;
  what is relied on of them are the predicates \<open>kernel_ok\<close>, \<open>region_stable\<close>, \<open>zk_ok\<close> and the locales
  \<open>memcached_server\<close>, \<open>memcached_fetching\<close>, \<open>ramcloud_reading\<close> and \<open>ramcloud_server\<close>, each shown to
  hold of a concrete instance. Results of single system calls are plain arguments. The build has the
  statistics and neither timing nor traces; page cache, write thread, prefetch thread and asynchronous
  reads are switches of the record \<open>config\<close>.

  \<^bold>\<open>Groundwork.\<close> \<open>FM_Prelude\<close>: types, constants, conversions, shared lemmas. \<open>C_Format\<close>: numbers as text.
  \<open>Recency\<close> and \<open>Uthash\<close>: the contracts of the Boost list with a hash index (locale \<open>recency_list\<close>) and of
  the hash tables of \<^verbatim>\<open>uthash.h\<close> (locale \<open>hash_table\<close>), and the mutexes. \<open>Machine\<close>: the kernel.
  \<open>Monitor_Stats\<close>: \<^verbatim>\<open>lib/monitorstats\<close>. \<open>FM_State\<close>: the state \<open>fm\<close> the libraries share. \<open>Samples\<close>:
  concrete states for the examples.

  \<^bold>\<open>Resident pages.\<close> \<open>LRU_Buffer\<close> (\<^verbatim>\<open>lib/lrubuffer\<close>, \<^verbatim>\<open>include/pagehash.h\<close>): the buffer implements a recency
  list cut at its capacity, it is well-formed in every reachable state, descriptors that differ by 4096
  collide, and removing a descriptor reads freed memory.

  \<^bold>\<open>Stores.\<close> \<open>Extern_RAM\<close>: the class \<^verbatim>\<open>externRAMClient\<close> as a record of functions, the C interface with its
  retry loops, the in-process store (\<^verbatim>\<open>noop\<close>), and the contract of a store, the locale \<open>extern_ram\<close>, with
  the demands it may make of keys, pages and buffers. \<open>Memcached\<close> and \<open>RAMCloud\<close>: the two network stores.
  The in-process store, memcached over \<open>memcached_server\<close> and RAMCloud over \<open>ramcloud_server\<close> keep the
  contract, by an interpretation and two sublocales (\<open>Memcached_Props\<close>, \<open>RAMCloud_Props\<close>). The servers of
  \<open>memcached_server\<close> answer every read and may refuse writes for a while. What these stores get wrong is
  there too: among it that a read memcached does not answer is served as a page of zeros.

  \<^bold>\<open>Fault handling.\<close> \<open>Userfault\<close> (\<^verbatim>\<open>lib/userfault/userfault.c\<close>): placing, evicting, resizing and
  \<^verbatim>\<open>read_from_externram\<close> for every build. \<open>Eviction\<close> and \<open>Transparency\<close>: the logical contents of a page
  are the resident page, else what the store holds, else zeros; for every store that keeps the contract, in
  the build without page cache and threads, a fault returns, leaves the page resident and changes no
  contents, and any sequence of loads, stores and faults answers as a plain memory. Resizing keeps the
  newest nodes and evicts the pages of the others, up to those the kernel refuses. \<open>Lock_Balance\<close>: in
  every build a fault releases the mutexes it takes.

  \<^bold>\<open>Page cache.\<close> \<open>Page_Cache\<close>, \<open>Page_Cache_Read\<close> (\<^verbatim>\<open>lib/pagecache\<close>), \<open>Page_Cache_Inv\<close>: the list and the
  ownership hash agree in every reachable state, a stored page is handed out once, and the prefetch loop
  ends within its arrays.

  \<^bold>\<open>Threads of the library.\<close> \<open>Threaded_IO\<close> (\<^verbatim>\<open>include/threaded_io.h\<close>) and \<open>Worker_Threads\<close>: the lists and
  the write and prefetch threads, cut into pieces where they release a mutex. \<open>Writer_Inv\<close> and
  \<open>Writer_Props\<close>: in any interleaving with evictions the contents of every page stay the same (locale
  \<open>extern_ram_batch\<close>), a waiting handler is served, and a flush may return early. \<open>Page_Buffer\<close>
  (\<^verbatim>\<open>include/buffer_allocator_array.h\<close>): the ring of prepared pages, its calls cut where they
  load and store the number of pages, loses none and is never stuck as long as the calls of its two sides
  do not overlap, and loses the pages just mapped when they do.

  \<^bold>\<open>Descriptors and processes.\<close> \<open>Fd_Upid_Map\<close> (\<^verbatim>\<open>include/upid.h\<close>), \<open>Zookeeper_Upid\<close>
  (\<^verbatim>\<open>include/zookeeper_upid.h\<close>), \<open>Userfault_Flush\<close>, \<open>Handover\<close>, \<open>Flush_Props\<close>: registration under a fresh
  upid, forgetting a descriptor or a dead process, the layout of a upid, and the search for a free counter,
  which ends when none is free unless it started at 1.
  \<open>Userfault_Client\<close> (\<^verbatim>\<open>lib/userfault/userfault-client.c\<close>): what an allocation leaves behind.

  \<^bold>\<open>The monitor process.\<close> \<open>Pollfd_Vector\<close> (\<^verbatim>\<open>monitor/pollfd_vector.c\<close>, locale \<open>poll_vector\<close>): the array
  implements a multiset of descriptors and keeps its bounds. \<open>Monitor\<close>, \<open>Monitor_Main\<close>
  (\<^verbatim>\<open>monitor/monitor.c\<close>), \<open>Monitor_Props\<close>, \<open>Monitor_Handover\<close>, \<open>Main_Props\<close>: the start establishes the
  invariant, the polling loop keeps it, serves faults and goes on exactly until an error is reported, which
  one bad descriptor suffices for; a descriptor that is sent reaches the polling list, the reaper forgets
  dead processes. \<open>User_Interface\<close>, \<open>Interface_Props\<close>
  (\<^verbatim>\<open>monitor/ui_processing.c\<close>, \<^verbatim>\<open>monitor/ui.c\<close>): how requests are read, and that a resize typed by
  the user is transparent.

  \<^bold>\<open>Bounds.\<close> The LRU buffer is bounded below \<open>2 ^ 31 - 2\<close>, so that its size fits an \<^verbatim>\<open>int\<close>, and by two pages
  or more where a fault must not evict its own page; the polling list below \<open>2 ^ 30\<close>, where doubling
  still fits; memcached keys below \<open>16 ^ 12\<close>, the room of their buffer.

  \<^bold>\<open>Not modelled.\<close> Sockets, \<^verbatim>\<open>epoll\<close> and the text of messages and replies, which are input and output only;
  the timing build (\<^verbatim>\<open>lib/monitorstats/timingstats.h\<close>, \<^verbatim>\<open>cpufreq.h\<close>), whose measurements no other part
  reads; CPU affinity; the macros inside \<^verbatim>\<open>uthash.h\<close>, of which the contract used is modelled;
  \<^verbatim>\<open>lib/lrubuffer/lrucache.h\<close>, which no source includes; the self tests of the stores and \<^verbatim>\<open>test\<close>; the
  kernel and hypervisor patches, whose system call is a parameter. The mutexes around single statistics
  counters are left out, and single updates of these counters count as atomic. Of the signal handler the
  flag, the clean-up of the page cache and the cancelled threads are modelled; the clean-up runs after
  the step of the polling loop that reported the error, and is left out for reports of the other threads.
  That it frees the statistics the reporting thread goes on to update, or cancels threads that do not run
  yet, is not modelled. Transparency is shown for
  the build without page cache, and with the write thread; with the page cache the invariant of the cache
  and the balance of the mutexes are shown, not the contents. RAMCloud's refinement assumes replies in one
  chunk, which \<^verbatim>\<open>read\<close> itself does not require.
\<close>

end
